(* ===== verification/Prelude.thy ===== *)
theory Prelude
  imports Main "HOL-Library.Word"
begin

text \<open>
  Shared vocabulary of the development: the result type of a Go call that may return an
  error or panic, Go's 64-bit signed arithmetic on \<open>int\<close> with the wrap-around written
  out, saturating durations, and generic list lemmas. The collections
  \<open>int64_simps\<close> and \<open>outcome_simps\<close> gather the facts the component proofs share.
\<close>

named_theorems int64_simps \<open>facts about wrap-around and saturation at 64 bits\<close>
named_theorems outcome_simps \<open>elimination facts for results of fallible calls\<close>

section \<open>Results of fallible Go calls\<close>

text \<open>
  A Go function of type \<open>(T, error)\<close> returns a value, returns an error, or panics (an
  out-of-range slice, say). The three are kept apart.
\<close>

datatype 'a outcome = Ok 'a | Err string | Panic

fun bind_outcome :: "'a outcome \<Rightarrow> ('a \<Rightarrow> 'b outcome) \<Rightarrow> 'b outcome" where
  "bind_outcome (Ok x) f = f x"
| "bind_outcome (Err e) f = Err e"
| "bind_outcome Panic f = Panic"

lemma bind_outcome_Ok_iff [outcome_simps]:
  "bind_outcome m f = Ok y \<longleftrightarrow> (\<exists>x. m = Ok x \<and> f x = Ok y)"
  by (cases m) auto

lemma bind_outcome_assoc:
  "bind_outcome (bind_outcome m f) g = bind_outcome m (\<lambda>x. bind_outcome (f x) g)"
  by (cases m) auto

fun is_Panic :: "'a outcome \<Rightarrow> bool" where
  "is_Panic Panic = True"
| "is_Panic _ = False"

lemma is_Panic_iff [outcome_simps]: "is_Panic m \<longleftrightarrow> m = Panic"
  by (cases m) auto

section \<open>Signed 64-bit arithmetic\<close>

text \<open>
  Go's \<open>int\<close>, \<open>int64\<close> and \<open>time.Duration\<close> are 64-bit two's complement numbers on the
  platforms the program is built for; sums and products wrap around.
\<close>

definition wrap64 :: "int \<Rightarrow> int" where
  "wrap64 x = (x + 2 ^ 63) mod 2 ^ 64 - 2 ^ 63"

definition in64 :: "int \<Rightarrow> bool" where
  "in64 x \<longleftrightarrow> - (2 ^ 63) \<le> x \<and> x < 2 ^ 63"

text \<open>\<open>time.Time.Sub\<close> and \<open>time.Since\<close> saturate at the ends of \<open>time.Duration\<close>.\<close>

definition sat64 :: "int \<Rightarrow> int" where
  "sat64 x = max (- (2 ^ 63)) (min (2 ^ 63 - 1) x)"

lemma wrap64_id [int64_simps]: "in64 x \<Longrightarrow> wrap64 x = x"
  by (simp add: wrap64_def in64_def)

lemma in64_wrap64 [simp]: "in64 (wrap64 x)"
  by (simp add: wrap64_def in64_def)

lemma wrap64_idem [simp]: "wrap64 (wrap64 x) = wrap64 x"
  by (simp add: int64_simps)

lemma wrap64_cong: "wrap64 x mod 2 ^ 64 = x mod 2 ^ 64"
  by (simp add: wrap64_def mod_simps)

lemma wrap64_eq_iff: "wrap64 x = x \<longleftrightarrow> in64 x"
  by (metis in64_wrap64 wrap64_id)

lemma in64_sat64 [simp]: "in64 (sat64 x)"
  by (simp add: sat64_def in64_def)

lemma sat64_id [int64_simps]: "in64 x \<Longrightarrow> sat64 x = x"
  by (simp add: sat64_def in64_def)

lemma sat64_mono: "x \<le> y \<Longrightarrow> sat64 x \<le> sat64 y"
  by (simp add: sat64_def)

lemma sat64_nonneg_iff [simp]: "0 \<le> sat64 x \<longleftrightarrow> 0 \<le> x"
  by (auto simp: sat64_def max_def min_def)

lemma sat64_less_iff [int64_simps]: "in64 d \<Longrightarrow> d < sat64 x \<Longrightarrow> d < x"
  by (auto simp: sat64_def in64_def max_def min_def split: if_splits)

lemma sat64_le_of_le: "in64 d \<Longrightarrow> x \<le> d \<Longrightarrow> sat64 x \<le> d"
  by (auto simp: sat64_def in64_def max_def min_def)

lemma in64_small [simp]: "0 \<le> x \<Longrightarrow> x < 2 ^ 62 \<Longrightarrow> in64 x"
  by (simp add: in64_def)

text \<open>The bridge to \<open>64 word\<close>: wrapping is what reading a word as signed does.\<close>

lemma sint_word_of_int64: "sint (word_of_int x :: 64 word) = wrap64 x"
proof -
  have "sint (word_of_int x :: 64 word) = signed_take_bit 63 x"
    by transfer simp
  then show ?thesis
    by (simp add: signed_take_bit_eq_take_bit_shift take_bit_eq_mod wrap64_def)
qed

lemma in64_sint [simp]: "in64 (sint (w :: 64 word))"
  using sint_ge [of w] sint_less [of w] by (simp add: in64_def)

section \<open>Lists\<close>

lemma drop_length_less: "0 < n \<Longrightarrow> xs \<noteq> [] \<Longrightarrow> length (drop n xs) < length xs"
  by (cases xs) auto

text \<open>Cutting a list in pieces of \<open>n\<close>, as the batching loops of the program do.\<close>

function chunks :: "nat \<Rightarrow> 'a list \<Rightarrow> 'a list list" where
  "chunks n xs = (if xs = [] \<or> n = 0 then [] else take n xs # chunks n (drop n xs))"
  by pat_completeness auto
termination
  by (relation "measure (\<lambda>(n, xs). length xs)") auto

declare chunks.simps [simp del]

lemma chunks_Nil [simp]: "chunks n [] = []"
  by (simp add: chunks.simps)

lemma chunks_step: "0 < n \<Longrightarrow> xs \<noteq> [] \<Longrightarrow> chunks n xs = take n xs # chunks n (drop n xs)"
  by (subst chunks.simps) simp

lemma concat_chunks: "0 < n \<Longrightarrow> concat (chunks n xs) = xs"
proof (induction n xs rule: chunks.induct)
  case (1 n xs)
  then show ?case
    by (cases "xs = []") (simp_all add: chunks_step)
qed

lemma chunks_sizes: "c \<in> set (chunks n xs) \<Longrightarrow> c \<noteq> [] \<and> length c \<le> n"
proof (induction n xs rule: chunks.induct)
  case (1 n xs)
  then show ?case
    by (cases "xs = [] \<or> n = 0") (auto simp: chunks.simps [of n xs])
qed

section \<open>Rows of a query\<close>

text \<open>The row loop of a caller that stops at the first row it cannot scan.\<close>

fun scan_rows :: "(string + 'r) list \<Rightarrow> string + 'r list" where
  "scan_rows [] = Inr []"
| "scan_rows (Inl e # rs) = Inl e"
| "scan_rows (Inr r # rs) = (case scan_rows rs of Inl e \<Rightarrow> Inl e | Inr xs \<Rightarrow> Inr (r # xs))"

end
