(* ===== verification/Breaker.thy ===== *)
theory Breaker
  imports Prelude
begin

text \<open>
  The circuit breaker of \<open>internal/circuitbreaker/breaker.go\<close>. Every method holds the
  mutex for its whole body, so a run is a sequence of method calls. A clock reading
  (\<open>time.Now\<close>, \<open>time.Since\<close>) is an argument, in nanoseconds; a method that reads the
  clock twice takes two readings.
\<close>

section \<open>State and operations\<close>

datatype cb_state = Closed | Open | HalfOpen

record breaker =
  cb_state :: cb_state
  cb_failures :: int
  cb_threshold :: int
  cb_resetTimeout :: int
  cb_lastFailure :: int
  cb_halfOpenMax :: int
  cb_halfOpenOK :: int

text \<open>The zero \<open>time.Time\<close> (1 January of year 1), relative to the Unix epoch.\<close>

definition zero_time :: int where
  "zero_time = - 62135596800000000000"

definition newBreaker :: "int \<Rightarrow> int \<Rightarrow> breaker" where
  "newBreaker threshold resetTimeout =
     \<lparr>cb_state = Closed, cb_failures = 0, cb_threshold = threshold,
      cb_resetTimeout = resetTimeout, cb_lastFailure = zero_time,
      cb_halfOpenMax = 2, cb_halfOpenOK = 0\<rparr>"

definition currentState :: "int \<Rightarrow> breaker \<Rightarrow> cb_state \<times> breaker" where
  "currentState now b =
     (let b' = (if cb_state b = Open \<and> sat64 (now - cb_lastFailure b) > cb_resetTimeout b
                then b\<lparr>cb_state := HalfOpen, cb_halfOpenOK := 0\<rparr> else b)
      in (cb_state b', b'))"

definition State :: "int \<Rightarrow> breaker \<Rightarrow> cb_state \<times> breaker" where
  "State now b = currentState now b"

definition ErrCircuitOpen :: string where
  "ErrCircuitOpen = ''circuit breaker is open''"

definition Allow :: "int \<Rightarrow> breaker \<Rightarrow> string option \<times> breaker" where
  "Allow now b =
     (let (s, b') = currentState now b in
      case s of Closed \<Rightarrow> (None, b')
              | Open \<Rightarrow> (Some ErrCircuitOpen, b')
              | HalfOpen \<Rightarrow> (None, b'))"

definition RecordSuccess :: "int \<Rightarrow> breaker \<Rightarrow> breaker" where
  "RecordSuccess now b =
     (let (s, b1) = currentState now b in
      case s of
        HalfOpen \<Rightarrow>
          (let b2 = b1\<lparr>cb_halfOpenOK := wrap64 (cb_halfOpenOK b1 + 1)\<rparr> in
           if cb_halfOpenOK b2 \<ge> cb_halfOpenMax b2
           then b2\<lparr>cb_state := Closed, cb_failures := 0\<rparr> else b2)
      | Closed \<Rightarrow> b1\<lparr>cb_failures := 0\<rparr>
      | Open \<Rightarrow> b1)"

definition RecordFailure :: "int \<Rightarrow> int \<Rightarrow> breaker \<Rightarrow> breaker" where
  "RecordFailure now1 now2 b =
     (let (s, b1) = currentState now1 b;
          b2 = b1\<lparr>cb_failures := wrap64 (cb_failures b1 + 1), cb_lastFailure := now2\<rparr>
      in if s = HalfOpen then b2\<lparr>cb_state := Open\<rparr>
         else if cb_failures b2 \<ge> cb_threshold b2 then b2\<lparr>cb_state := Open\<rparr>
         else b2)"

definition Reset :: "breaker \<Rightarrow> breaker" where
  "Reset b = b\<lparr>cb_state := Closed, cb_failures := 0\<rparr>"

text \<open>The states are the \<open>iota\<close> constants 0, 1, 2 of the source and are ordered as such.\<close>

instantiation cb_state :: linorder
begin

fun cb_iota :: "cb_state \<Rightarrow> nat" where
  "cb_iota Closed = 0"
| "cb_iota Open = 1"
| "cb_iota HalfOpen = 2"

definition less_eq_cb_state :: "cb_state \<Rightarrow> cb_state \<Rightarrow> bool" where
  "less_eq_cb_state a b \<longleftrightarrow> cb_iota a \<le> cb_iota b"

definition less_cb_state :: "cb_state \<Rightarrow> cb_state \<Rightarrow> bool" where
  "less_cb_state a b \<longleftrightarrow> cb_iota a < cb_iota b"

instance
proof
  fix a b :: cb_state
  show "a \<le> b \<Longrightarrow> b \<le> a \<Longrightarrow> a = b"
    by (cases a; cases b) (simp_all add: less_eq_cb_state_def)
qed (auto simp: less_eq_cb_state_def less_cb_state_def)

end

section \<open>Runs\<close>

text \<open>
  A run is the list of method calls in the order in which they took the mutex, with the
  clock readings each made.
\<close>

datatype cb_event = EvState int | EvAllow int | EvSuccess int | EvFailure int int | EvReset

fun cb_exec :: "cb_event \<Rightarrow> breaker \<Rightarrow> breaker" where
  "cb_exec (EvState t) b = snd (State t b)"
| "cb_exec (EvAllow t) b = snd (Allow t b)"
| "cb_exec (EvSuccess t) b = RecordSuccess t b"
| "cb_exec (EvFailure t1 t2) b = RecordFailure t1 t2 b"
| "cb_exec EvReset b = Reset b"

fun cb_run :: "cb_event list \<Rightarrow> breaker \<Rightarrow> breaker" where
  "cb_run [] b = b"
| "cb_run (e # es) b = cb_run es (cb_exec e b)"

inductive cb_reachable :: "int \<Rightarrow> int \<Rightarrow> breaker \<Rightarrow> bool" for thr rt where
  cb_init: "cb_reachable thr rt (newBreaker thr rt)"
| cb_step: "cb_reachable thr rt b \<Longrightarrow> cb_reachable thr rt (cb_exec e b)"

lemma cb_run_append: "cb_run (es @ fs) b = cb_run fs (cb_run es b)"
  by (induction es arbitrary: b) auto

lemma cb_reachable_run: "cb_reachable thr rt b \<Longrightarrow> cb_reachable thr rt (cb_run es b)"
  by (induction es arbitrary: b) (auto intro: cb_step)

lemmas cb_defs = currentState_def State_def Allow_def RecordSuccess_def RecordFailure_def
  Reset_def newBreaker_def

section \<open>Well-formed breakers\<close>

definition cb_params_ok :: "int \<Rightarrow> int \<Rightarrow> bool" where
  "cb_params_ok thr rt \<longleftrightarrow> 0 < thr \<and> in64 thr \<and> in64 rt \<and> rt < 2 ^ 63 - 1"

definition cb_wf :: "breaker \<Rightarrow> bool" where
  "cb_wf b \<longleftrightarrow> cb_params_ok (cb_threshold b) (cb_resetTimeout b) \<and> cb_halfOpenMax b = 2
     \<and> (cb_state b = Closed \<longrightarrow> 0 \<le> cb_failures b \<and> cb_failures b < cb_threshold b)
     \<and> (cb_state b = HalfOpen \<longrightarrow> cb_halfOpenOK b = 0 \<or> cb_halfOpenOK b = 1)"

lemma sat64_gt_iff: "in64 rt \<Longrightarrow> rt < 2 ^ 63 - 1 \<Longrightarrow> rt < sat64 x \<longleftrightarrow> rt < x"
  by (auto simp: sat64_def in64_def max_def min_def)

lemma wrap64_Suc: "0 \<le> n \<Longrightarrow> n < thr \<Longrightarrow> in64 thr \<Longrightarrow> wrap64 (n + 1) = n + 1"
  by (rule wrap64_id) (simp add: in64_def)

lemma cb_wf_new: "cb_params_ok thr rt \<Longrightarrow> cb_wf (newBreaker thr rt)"
  by (simp add: cb_wf_def newBreaker_def cb_params_ok_def)

lemma cb_exec_config:
  "cb_threshold (cb_exec e b) = cb_threshold b
   \<and> cb_resetTimeout (cb_exec e b) = cb_resetTimeout b
   \<and> cb_halfOpenMax (cb_exec e b) = cb_halfOpenMax b"
  by (cases e) (auto simp: cb_defs Let_def split: cb_state.splits)

section \<open>The abstract breaker\<close>

text \<open>
  What the breaker promises: a machine with three modes that carry just what the mode
  needs (consecutive failures, the instant of the last failure, successful trials).
\<close>

datatype cb_spec = SClosed nat | SOpen int | SHalf nat

definition cb_abs :: "breaker \<Rightarrow> cb_spec" where
  "cb_abs b = (case cb_state b of
      Closed \<Rightarrow> SClosed (nat (cb_failures b))
    | Open \<Rightarrow> SOpen (cb_lastFailure b)
    | HalfOpen \<Rightarrow> SHalf (nat (cb_halfOpenOK b)))"

fun spec_settle :: "int \<Rightarrow> int \<Rightarrow> cb_spec \<Rightarrow> cb_spec" where
  "spec_settle rt now (SOpen t) = (if now - t > rt then SHalf 0 else SOpen t)"
| "spec_settle rt now s = s"

fun spec_success :: "cb_spec \<Rightarrow> cb_spec" where
  "spec_success (SClosed n) = SClosed 0"
| "spec_success (SOpen t) = SOpen t"
| "spec_success (SHalf k) = (if k + 1 \<ge> 2 then SClosed 0 else SHalf (k + 1))"

fun spec_failure :: "nat \<Rightarrow> int \<Rightarrow> cb_spec \<Rightarrow> cb_spec" where
  "spec_failure thr now (SClosed n) = (if n + 1 \<ge> thr then SOpen now else SClosed (n + 1))"
| "spec_failure thr now (SOpen t) = SOpen now"
| "spec_failure thr now (SHalf k) = SOpen now"

fun spec_exec :: "int \<Rightarrow> int \<Rightarrow> cb_event \<Rightarrow> cb_spec \<Rightarrow> cb_spec" where
  "spec_exec thr rt (EvState t) s = spec_settle rt t s"
| "spec_exec thr rt (EvAllow t) s = spec_settle rt t s"
| "spec_exec thr rt (EvSuccess t) s = spec_success (spec_settle rt t s)"
| "spec_exec thr rt (EvFailure t1 t2) s = spec_failure (nat thr) t2 (spec_settle rt t1 s)"
| "spec_exec thr rt EvReset s = SClosed 0"

fun spec_run :: "int \<Rightarrow> int \<Rightarrow> cb_event list \<Rightarrow> cb_spec \<Rightarrow> cb_spec" where
  "spec_run thr rt [] s = s"
| "spec_run thr rt (e # es) s = spec_run thr rt es (spec_exec thr rt e s)"

fun spec_rejects :: "int \<Rightarrow> int \<Rightarrow> cb_spec \<Rightarrow> bool" where
  "spec_rejects rt now (SOpen t) = (now - t \<le> rt)"
| "spec_rejects rt now _ = False"

lemma currentState_sim:
  assumes "cb_wf b" and "currentState now b = (s, b')"
  shows "cb_wf b' \<and> s = cb_state b' \<and> cb_abs b' = spec_settle (cb_resetTimeout b) now (cb_abs b)
    \<and> cb_threshold b' = cb_threshold b \<and> cb_resetTimeout b' = cb_resetTimeout b"
  using assms
  by (cases "cb_state b")
    (auto simp: currentState_def cb_wf_def cb_params_ok_def cb_abs_def Let_def sat64_gt_iff)

lemma RecordSuccess_sim:
  assumes "cb_wf b"
  shows "cb_wf (RecordSuccess now b)
    \<and> cb_abs (RecordSuccess now b) = spec_success (spec_settle (cb_resetTimeout b) now (cb_abs b))"
proof -
  obtain s b' where c: "currentState now b = (s, b')" by fastforce
  from currentState_sim [OF assms c] have w: "cb_wf b'" and s: "s = cb_state b'"
    and a: "spec_settle (cb_resetTimeout b) now (cb_abs b) = cb_abs b'" by auto
  show ?thesis
    unfolding a using w s
    by (cases s)
      (auto simp: RecordSuccess_def c cb_wf_def cb_abs_def cb_params_ok_def Let_def wrap64_id in64_def)
qed

lemma RecordFailure_sim:
  assumes "cb_wf b"
  shows "cb_wf (RecordFailure t1 t2 b) \<and> cb_abs (RecordFailure t1 t2 b)
    = spec_failure (nat (cb_threshold b)) t2 (spec_settle (cb_resetTimeout b) t1 (cb_abs b))"
proof -
  obtain s b' where c: "currentState t1 b = (s, b')" by fastforce
  from currentState_sim [OF assms c] have w: "cb_wf b'" and s: "s = cb_state b'"
    and a: "spec_settle (cb_resetTimeout b) t1 (cb_abs b) = cb_abs b'"
    and t: "cb_threshold b = cb_threshold b'" by auto
  have "cb_state b' = Closed \<Longrightarrow> wrap64 (cb_failures b' + 1) = cb_failures b' + 1"
    using w by (auto simp: cb_wf_def cb_params_ok_def intro: wrap64_Suc)
  then show ?thesis
    unfolding a t using w s
    by (cases s) (auto simp: RecordFailure_def c cb_wf_def cb_abs_def cb_params_ok_def Let_def nat_add_distrib)
qed

lemma cb_exec_sim:
  assumes "cb_wf b"
  shows "cb_wf (cb_exec e b)
    \<and> cb_abs (cb_exec e b) = spec_exec (cb_threshold b) (cb_resetTimeout b) e (cb_abs b)"
proof (cases e)
  case (EvState t)
  then show ?thesis using currentState_sim [OF assms] by (auto simp: State_def prod_eq_iff)
next
  case (EvAllow t)
  obtain s b' where c: "currentState t b = (s, b')" by fastforce
  then have "snd (Allow t b) = b'" by (cases s) (auto simp: Allow_def)
  with EvAllow c show ?thesis using currentState_sim [OF assms c] by auto
next
  case (EvSuccess t)
  then show ?thesis using RecordSuccess_sim [OF assms] by simp
next
  case (EvFailure t1 t2)
  then show ?thesis using RecordFailure_sim [OF assms] by simp
next
  case EvReset
  with assms show ?thesis by (auto simp: Reset_def cb_wf_def cb_params_ok_def cb_abs_def)
qed

lemma cb_run_sim:
  "cb_wf b \<Longrightarrow> cb_wf (cb_run es b)
    \<and> cb_abs (cb_run es b) = spec_run (cb_threshold b) (cb_resetTimeout b) es (cb_abs b)"
proof (induction es arbitrary: b)
  case Nil
  then show ?case by simp
next
  case (Cons e es)
  then show ?case using cb_exec_sim [of b e] cb_exec_config [of e b] by simp
qed

lemma Allow_sim:
  assumes "cb_wf b"
  shows "fst (Allow now b) = (if spec_rejects (cb_resetTimeout b) now (cb_abs b)
    then Some ErrCircuitOpen else None)"
proof -
  obtain s b' where c: "currentState now b = (s, b')" by fastforce
  with assms show ?thesis
    by (cases "cb_state b")
      (auto simp: Allow_def currentState_def cb_wf_def cb_params_ok_def cb_abs_def Let_def sat64_gt_iff
        split: if_splits)
qed

lemma cb_reachable_wf:
  assumes "cb_params_ok thr rt" and "cb_reachable thr rt b"
  shows "cb_wf b \<and> cb_threshold b = thr \<and> cb_resetTimeout b = rt"
  using assms(2)
proof (induction rule: cb_reachable.induct)
  case cb_init
  with assms(1) show ?case by (simp add: cb_wf_new) (simp add: newBreaker_def)
next
  case (cb_step b e)
  then show ?case using cb_exec_sim [of b e] cb_exec_config [of e b] by simp
qed

section \<open>Staying open\<close>

fun ev_times :: "cb_event \<Rightarrow> int list" where
  "ev_times (EvState t) = [t]"
| "ev_times (EvAllow t) = [t]"
| "ev_times (EvSuccess t) = [t]"
| "ev_times (EvFailure t1 t2) = [t1, t2]"
| "ev_times EvReset = []"

text \<open>No reset, and every clock reading between \<open>lo\<close> and \<open>hi\<close>.\<close>

definition ev_within :: "int \<Rightarrow> int \<Rightarrow> cb_event \<Rightarrow> bool" where
  "ev_within lo hi e \<longleftrightarrow> e \<noteq> EvReset \<and> (\<forall>t \<in> set (ev_times e). lo \<le> t \<and> t \<le> hi)"

lemma spec_exec_stays_open:
  assumes "ev_within lo hi e" and "lo \<le> t" and "hi \<le> lo + rt"
  shows "\<exists>t' \<ge> lo. spec_exec thr rt e (SOpen t) = SOpen t'"
  using assms by (cases e) (auto simp: ev_within_def)

lemma spec_run_stays_open:
  assumes "\<forall>e \<in> set es. ev_within lo hi e" and "lo \<le> t" and "hi \<le> lo + rt"
  shows "\<exists>t' \<ge> lo. spec_run thr rt es (SOpen t) = SOpen t'"
  using assms(1,2)
proof (induction es arbitrary: t)
  case Nil
  then show ?case by auto
next
  case (Cons e es)
  then obtain u where "lo \<le> u" and "spec_exec thr rt e (SOpen t) = SOpen u"
    using spec_exec_stays_open [of lo hi e t rt thr] assms(3) by auto
  then show ?case using Cons.IH [of u] Cons.prems(1) by simp
qed

lemma cb_abs_open_iff [simp]: "cb_abs b = SOpen t \<longleftrightarrow> cb_state b = Open \<and> cb_lastFailure b = t"
  by (auto simp: cb_abs_def split: cb_state.splits)

fun failures_at :: "(int \<times> int) list \<Rightarrow> cb_event list" where
  "failures_at [] = []"
| "failures_at ((t1, t2) # ts) = EvFailure t1 t2 # failures_at ts"

lemma spec_run_failures_open:
  "(\<exists>t. s = SOpen t) \<Longrightarrow> \<exists>t. spec_run thr rt (failures_at ts) s = SOpen t"
proof (induction ts arbitrary: s rule: failures_at.induct)
  case (2 t1 t2 ts)
  then obtain t where s: "s = SOpen t" by blast
  have "\<exists>t'. spec_exec thr rt (EvFailure t1 t2) s = SOpen t'"
    using s by auto
  then show ?case using "2.IH" by simp
qed auto

lemma spec_run_failures:
  "n < nat thr \<Longrightarrow> (if int (n + length ts) < thr
     then spec_run thr rt (failures_at ts) (SClosed n) = SClosed (n + length ts)
     else \<exists>t. spec_run thr rt (failures_at ts) (SClosed n) = SOpen t)"
proof (induction ts arbitrary: n rule: failures_at.induct)
  case 1
  then show ?case by simp
next
  case (2 t1 t2 ts)
  show ?case
  proof (cases "n + 1 \<ge> nat thr")
    case True
    then show ?thesis using spec_run_failures_open [of "SOpen t2" thr rt ts] by auto
  next
    case False
    then show ?thesis using "2.IH" [of "n + 1"] by (auto simp: algebra_simps)
  qed
qed

section \<open>Properties\<close>

text \<open>C2. The breaker implements its abstract machine: after any sequence of method calls
  on a fresh breaker, the mode and the datum it carries are those of the abstract run, and
  \<open>Allow\<close> rejects exactly when the abstract machine is open and its timeout has not passed.\<close>

theorem breaker_refines_spec:
  assumes "cb_params_ok thr rt"
  shows "cb_abs (cb_run es (newBreaker thr rt)) = spec_run thr rt es (SClosed 0)
    \<and> (fst (Allow now (cb_run es (newBreaker thr rt))) = Some ErrCircuitOpen
       \<longleftrightarrow> spec_rejects rt now (spec_run thr rt es (SClosed 0)))"
proof -
  let ?b = "newBreaker thr rt"
  have w: "cb_wf (cb_run es ?b)" and a: "cb_abs (cb_run es ?b) = spec_run thr rt es (SClosed 0)"
    using cb_run_sim [OF cb_wf_new [OF assms], of es] by (simp_all add: newBreaker_def cb_abs_def)
  have "cb_resetTimeout (cb_run es ?b) = rt"
    using cb_reachable_wf [OF assms cb_reachable_run [OF cb_init]] by simp
  then show ?thesis using a Allow_sim [OF w, of now] by simp
qed

theorem breaker_refines_spec_witness:
  "cb_abs (cb_run [EvFailure 1 1, EvFailure 2 2, EvAllow 5] (newBreaker 2 10)) = SOpen 2"
proof -
  have "cb_params_ok 2 10" by (simp add: cb_params_ok_def in64_def)
  from breaker_refines_spec [OF this, of "[EvFailure 1 1, EvFailure 2 2, EvAllow 5]"]
  show ?thesis by simp
qed

text \<open>C17. In every reachable state the failure count of a closed breaker is below the
  threshold, a half-open breaker has counted fewer successes than it needs to close, and no
  operation changes the configuration.\<close>

theorem breaker_reachable_invariant:
  assumes "cb_params_ok thr rt" and "cb_reachable thr rt b"
  shows "cb_threshold b = thr \<and> cb_resetTimeout b = rt \<and> cb_halfOpenMax b = 2
    \<and> (cb_state b = Closed \<longrightarrow> 0 \<le> cb_failures b \<and> cb_failures b < thr)
    \<and> (cb_state b = HalfOpen \<longrightarrow> 0 \<le> cb_halfOpenOK b \<and> cb_halfOpenOK b < cb_halfOpenMax b)"
  using cb_reachable_wf [OF assms] by (auto simp: cb_wf_def)

theorem breaker_reachable_invariant_witness:
  "cb_failures (cb_exec (EvFailure 1 1) (newBreaker 5 60)) < 5"
proof -
  have p: "cb_params_ok 5 60" by (simp add: cb_params_ok_def in64_def)
  have r: "cb_reachable 5 60 (cb_exec (EvFailure 1 1) (newBreaker 5 60))"
    by (intro cb_step cb_init)
  have "cb_state (cb_exec (EvFailure 1 1) (newBreaker 5 60)) = Closed"
    by (simp add: cb_defs wrap64_def)
  then show ?thesis using breaker_reachable_invariant [OF p r] by blast
qed

text \<open>A closed breaker with a clean record opens exactly at the threshold: after \<open>n\<close>
  failures in a row, recorded at any instants, it is open if \<open>n\<close> has reached the threshold
  and closed otherwise.\<close>

theorem breaker_trips_at_threshold:
  assumes "cb_params_ok thr rt"
  shows "cb_state (cb_run (failures_at ts) (newBreaker thr rt))
    = (if int (length ts) < thr then Closed else Open)"
proof -
  have "cb_abs (cb_run (failures_at ts) (newBreaker thr rt))
      = spec_run thr rt (failures_at ts) (SClosed 0)"
    using cb_run_sim [OF cb_wf_new [OF assms], of "failures_at ts"]
    by (simp add: newBreaker_def cb_abs_def)
  moreover have "0 < nat thr" using assms by (simp add: cb_params_ok_def)
  ultimately show ?thesis
    using spec_run_failures [of 0 thr ts rt]
    by (auto simp: cb_abs_def split: cb_state.splits if_splits)
qed

theorem breaker_trips_at_threshold_witness:
  "cb_state (cb_run (failures_at [(1, 1), (2, 2), (3, 3)]) (newBreaker 3 60)) = Open"
proof -
  have "cb_params_ok 3 60" by (simp add: cb_params_ok_def in64_def)
  from breaker_trips_at_threshold [OF this, of "[(1, 1), (2, 2), (3, 3)]"] show ?thesis by simp
qed

text \<open>An open breaker rejects every call until its timeout has passed: whatever methods
  other than \<open>Reset\<close> are called meanwhile, in whatever order.\<close>

theorem breaker_open_rejects:
  assumes "cb_wf b" and "cb_state b = Open"
    and "\<forall>e \<in> set es. ev_within (cb_lastFailure b) now e"
    and "now \<le> cb_lastFailure b + cb_resetTimeout b"
  shows "fst (Allow now (cb_run es b)) = Some ErrCircuitOpen"
proof -
  let ?rt = "cb_resetTimeout b"
  have w: "cb_wf (cb_run es b)"
    and a: "cb_abs (cb_run es b) = spec_run (cb_threshold b) ?rt es (cb_abs b)"
    using cb_run_sim [OF assms(1)] by blast+
  have o: "cb_abs b = SOpen (cb_lastFailure b)" using assms(2) by simp
  obtain t where "cb_lastFailure b \<le> t" and "cb_abs (cb_run es b) = SOpen t"
    using spec_run_stays_open [OF assms(3) order_refl assms(4)] a o by metis
  then have "spec_rejects ?rt now (cb_abs (cb_run es b))"
    using assms(4) by (simp del: cb_abs_open_iff)
  moreover have "cb_resetTimeout (cb_run es b) = ?rt"
    by (induction es arbitrary: b) (auto simp: cb_exec_config)
  ultimately show ?thesis using Allow_sim [OF w, of now] by simp
qed

theorem breaker_open_rejects_witness:
  "fst (Allow 12 (cb_run [EvSuccess 5, EvFailure 6 7]
     \<lparr>cb_state = Open, cb_failures = 5, cb_threshold = 5, cb_resetTimeout = 10,
      cb_lastFailure = 2, cb_halfOpenMax = 2, cb_halfOpenOK = 0\<rparr>)) = Some ErrCircuitOpen"
  by (rule breaker_open_rejects) (simp_all add: cb_wf_def cb_params_ok_def in64_def ev_within_def)

text \<open>Recovery takes two successes: once the timeout has passed \<open>Allow\<close> admits a call
  and the breaker is half-open; a first success keeps it half-open and a second one closes
  it with a clean record, while a failure before that opens it again at the new instant.\<close>

theorem breaker_recovery:
  assumes "cb_wf b" and "cb_state b = Open" and "cb_lastFailure b + cb_resetTimeout b < t1"
  shows "let b1 = snd (Allow t1 b); b2 = RecordSuccess t2 b1; b3 = RecordSuccess t3 b2 in
    fst (Allow t1 b) = None \<and> cb_state b1 = HalfOpen \<and> cb_state b2 = HalfOpen
    \<and> cb_state b3 = Closed \<and> cb_failures b3 = 0
    \<and> cb_abs (RecordFailure t2 u b1) = SOpen u \<and> cb_abs (RecordFailure t3 u b2) = SOpen u"
proof -
  have "cb_resetTimeout b < sat64 (t1 - cb_lastFailure b)"
    using assms(1,3) by (simp add: cb_wf_def cb_params_ok_def sat64_gt_iff)
  then show ?thesis
    using assms(1,2)
    by (simp add: cb_defs Let_def cb_wf_def wrap64_def)
qed

theorem breaker_recovery_witness:
  "cb_state (RecordSuccess 15 (RecordSuccess 14 (snd (Allow 13
     \<lparr>cb_state = Open, cb_failures = 5, cb_threshold = 5, cb_resetTimeout = 10,
      cb_lastFailure = 2, cb_halfOpenMax = 2, cb_halfOpenOK = 0\<rparr>)))) = Closed"
  using breaker_recovery [of "\<lparr>cb_state = Open, cb_failures = 5, cb_threshold = 5,
     cb_resetTimeout = 10, cb_lastFailure = 2, cb_halfOpenMax = 2, cb_halfOpenOK = 0\<rparr>" 13 14 15 0]
  unfolding Let_def by (simp add: cb_wf_def cb_params_ok_def in64_def)

end
