(* ===== verification/GoFloat.thy ===== *)
theory GoFloat
  imports Prelude Complex_Main
begin

text \<open>
  Go's \<open>float64\<close>: IEEE 754 binary64 with round-to-nearest-even, as an executable model.
  A finite value is a rational (\<open>Fin q\<close>; \<open>Fin 0\<close> is +0), negative zero is a value of its
  own, and every operation computes exactly and rounds once, as the standard requires (the
  target does not fuse multiplications and additions). The operations are those of the Go
  language and of package \<open>math\<close> that the program uses. The lemmas show that rounding is
  monotone and exact on the integers up to \<open>2 ^ 53\<close>, which is all the components need.
\<close>

section \<open>Rounding a rational\<close>

text \<open>\<open>blen n\<close> is the number of binary digits of \<open>n\<close>; \<open>ilog2 q\<close> is \<open>\<lfloor>log\<^sub>2 q\<rfloor>\<close> for positive \<open>q\<close>.\<close>

function blen :: "int \<Rightarrow> nat" where
  "blen n = (if n \<le> 0 then 0 else Suc (blen (n div 2)))"
  by pat_completeness auto
termination
  by (relation "measure nat") auto

declare blen.simps [simp del]

definition ilog2 :: "rat \<Rightarrow> int" where
  "ilog2 q = (let (n, d) = quotient_of q; e = int (blen n) - int (blen d)
              in if 2 powi e \<le> q then e else e - 1)"

definition round_even :: "rat \<Rightarrow> int" where
  "round_even q = (let f = \<lfloor>q\<rfloor>; d = q - of_int f
     in if d < 1 / 2 then f else if 1 / 2 < d then f + 1 else if even f then f else f + 1)"

text \<open>The unit in the last place of a positive rational, with gradual underflow.\<close>

definition ulp :: "rat \<Rightarrow> rat" where
  "ulp q = 2 powi (max (ilog2 q - 52) (- 1074))"

definition rnd :: "rat \<Rightarrow> rat" where
  "rnd q = (if q = 0 then 0
            else of_int (round_even (q / ulp \<bar>q\<bar>)) * ulp \<bar>q\<bar>)"

section \<open>Values\<close>

datatype f64 = NaN | PInf | NInf | NZero | Fin rat

text \<open>Rounding to a value; \<open>neg\<close> is the sign of a zero result.\<close>

definition fl :: "bool \<Rightarrow> rat \<Rightarrow> f64" where
  "fl neg q = (let r = rnd q in
     if 2 ^ 1024 \<le> r then PInf else if r \<le> - (2 ^ 1024) then NInf
     else if r = 0 then (if neg then NZero else Fin 0) else Fin r)"

fun fval :: "f64 \<Rightarrow> rat" where
  "fval (Fin q) = q"
| "fval _ = 0"

fun fneg_bit :: "f64 \<Rightarrow> bool" where
  "fneg_bit (Fin q) = (q < 0)"
| "fneg_bit NInf = True"
| "fneg_bit NZero = True"
| "fneg_bit _ = False"

fun is_nan :: "f64 \<Rightarrow> bool" where
  "is_nan NaN = True"
| "is_nan _ = False"

fun is_inf :: "f64 \<Rightarrow> bool" where
  "is_inf PInf = True"
| "is_inf NInf = True"
| "is_inf _ = False"

fun is_finite :: "f64 \<Rightarrow> bool" where
  "is_finite (Fin _) = True"
| "is_finite NZero = True"
| "is_finite _ = False"

section \<open>Arithmetic\<close>

fun fneg :: "f64 \<Rightarrow> f64" where
  "fneg NaN = NaN"
| "fneg PInf = NInf"
| "fneg NInf = PInf"
| "fneg NZero = Fin 0"
| "fneg (Fin q) = (if q = 0 then NZero else Fin (- q))"

definition fsigned_inf :: "bool \<Rightarrow> f64" where
  "fsigned_inf neg = (if neg then NInf else PInf)"

definition fsigned_zero :: "bool \<Rightarrow> f64" where
  "fsigned_zero neg = (if neg then NZero else Fin 0)"

definition fadd :: "f64 \<Rightarrow> f64 \<Rightarrow> f64" where
  "fadd a b =
     (if is_nan a \<or> is_nan b then NaN
      else if is_inf a then (if is_inf b \<and> a \<noteq> b then NaN else a)
      else if is_inf b then b
      else if a = NZero \<and> b = NZero then NZero
      else fl False (fval a + fval b))"

definition fsub :: "f64 \<Rightarrow> f64 \<Rightarrow> f64" where
  "fsub a b = fadd a (fneg b)"

definition fmul :: "f64 \<Rightarrow> f64 \<Rightarrow> f64" where
  "fmul a b =
     (let neg = (fneg_bit a \<noteq> fneg_bit b) in
      if is_nan a \<or> is_nan b then NaN
      else if is_inf a \<or> is_inf b
      then (if (is_finite a \<and> fval a = 0) \<or> (is_finite b \<and> fval b = 0) then NaN
            else fsigned_inf neg)
      else fl neg (fval a * fval b))"

definition fdiv :: "f64 \<Rightarrow> f64 \<Rightarrow> f64" where
  "fdiv a b =
     (let neg = (fneg_bit a \<noteq> fneg_bit b) in
      if is_nan a \<or> is_nan b then NaN
      else if is_inf a then (if is_inf b then NaN else fsigned_inf neg)
      else if is_inf b then fsigned_zero neg
      else if fval b = 0 then (if fval a = 0 then NaN else fsigned_inf neg)
      else fl neg (fval a / fval b))"

section \<open>Comparisons\<close>

fun flt :: "f64 \<Rightarrow> f64 \<Rightarrow> bool" where
  "flt NaN _ = False"
| "flt _ NaN = False"
| "flt PInf _ = False"
| "flt _ NInf = False"
| "flt NInf _ = True"
| "flt _ PInf = True"
| "flt a b = (fval a < fval b)"

definition fle :: "f64 \<Rightarrow> f64 \<Rightarrow> bool" where
  "fle a b \<longleftrightarrow> \<not> is_nan a \<and> \<not> is_nan b \<and> \<not> flt b a"

definition feq :: "f64 \<Rightarrow> f64 \<Rightarrow> bool" where
  "feq a b \<longleftrightarrow> fle a b \<and> fle b a"

section \<open>Package \<open>math\<close> and conversions\<close>

definition fmin :: "f64 \<Rightarrow> f64 \<Rightarrow> f64" where
  "fmin a b =
     (if a = NInf \<or> b = NInf then NInf
      else if is_nan a \<or> is_nan b then NaN
      else if is_finite a \<and> fval a = 0 \<and> is_finite b \<and> fval b = 0
      then (if fneg_bit a then a else b)
      else if flt a b then a else b)"

definition fmax :: "f64 \<Rightarrow> f64 \<Rightarrow> f64" where
  "fmax a b =
     (if a = PInf \<or> b = PInf then PInf
      else if is_nan a \<or> is_nan b then NaN
      else if is_finite a \<and> fval a = 0 \<and> is_finite b \<and> fval b = 0
      then (if fneg_bit a then b else a)
      else if flt b a then a else b)"

fun fabs :: "f64 \<Rightarrow> f64" where
  "fabs NInf = PInf"
| "fabs NZero = Fin 0"
| "fabs (Fin q) = Fin \<bar>q\<bar>"
| "fabs x = x"

text \<open>\<open>math.Round\<close>: to the nearest integer, halves away from zero, the sign kept.\<close>

definition round_away :: "rat \<Rightarrow> int" where
  "round_away q = (if 0 \<le> q then \<lfloor>q + 1 / 2\<rfloor> else - \<lfloor>- q + 1 / 2\<rfloor>)"

fun fround :: "f64 \<Rightarrow> f64" where
  "fround (Fin q) =
     (if round_away q = 0 then fsigned_zero (q < 0) else Fin (of_int (round_away q)))"
| "fround x = x"

definition of_int64 :: "int \<Rightarrow> f64" where
  "of_int64 n = fl False (of_int n)"

text \<open>A floating-point constant of the source.\<close>

definition flit :: "rat \<Rightarrow> f64" where
  "flit q = fl False q"

definition trunc_rat :: "rat \<Rightarrow> int" where
  "trunc_rat q = (if 0 \<le> q then \<lfloor>q\<rfloor> else \<lceil>q\<rceil>)"

text \<open>
  \<open>int(f)\<close> and \<open>int64(f)\<close> drop the fraction. Outside the range of the type (and on NaN)
  the language leaves the result to the implementation: that is the parameter \<open>impl\<close>.
\<close>

definition f2i :: "(f64 \<Rightarrow> int) \<Rightarrow> f64 \<Rightarrow> int" where
  "f2i impl x = (if is_finite x \<and> in64 (trunc_rat (fval x)) then trunc_rat (fval x)
                 else wrap64 (impl x))"

definition Float64frombits :: "64 word \<Rightarrow> f64" where
  "Float64frombits w =
     (let neg = bit w 63;
          e = uint (take_bit 11 (drop_bit 52 w));
          m = uint (take_bit 52 w);
          sgn = (if neg then - 1 else 1 :: rat)
      in if e = 2047 then (if m = 0 then fsigned_inf neg else NaN)
         else if e = 0
         then (if m = 0 then fsigned_zero neg else Fin (sgn * of_int m * 2 powi (- 1074)))
         else Fin (sgn * of_int (2 ^ 52 + m) * 2 powi (e - 1075)))"

text \<open>Go's integer division and remainder truncate towards zero.\<close>

definition go_div :: "int \<Rightarrow> int \<Rightarrow> int" where
  "go_div a b = sgn a * sgn b * (\<bar>a\<bar> div \<bar>b\<bar>)"

definition go_mod :: "int \<Rightarrow> int \<Rightarrow> int" where
  "go_mod a b = a - b * go_div a b"

text \<open>\<open>Duration.Seconds\<close> and \<open>Duration.Hours\<close> of a number of nanoseconds.\<close>

definition duration_seconds :: "int \<Rightarrow> f64" where
  "duration_seconds d = fadd (of_int64 (go_div d 1000000000))
     (fdiv (of_int64 (go_mod d 1000000000)) (flit 1000000000))"

definition duration_hours :: "int \<Rightarrow> f64" where
  "duration_hours d = fadd (of_int64 (go_div d 3600000000000))
     (fdiv (of_int64 (go_mod d 3600000000000)) (flit 3600000000000))"

section \<open>Rounding is monotone\<close>

lemma blen_bounds: "0 < n \<Longrightarrow> 2 ^ blen n \<le> 2 * n \<and> n < 2 ^ blen n"
proof (induction n rule: blen.induct)
  case (1 n)
  show ?case
  proof (cases "n div 2 \<le> 0")
    case True
    with "1.prems" have "n = 1" by presburger
    then show ?thesis by (simp add: blen.simps)
  next
    case False
    with "1.prems" have IH: "2 ^ blen (n div 2) \<le> 2 * (n div 2) \<and> n div 2 < 2 ^ blen (n div 2)"
      by (intro "1.IH") auto
    have "blen n = Suc (blen (n div 2))" using "1.prems" by (subst blen.simps) simp
    then show ?thesis using IH by auto
  qed
qed

lemma powi_pos [simp]: "0 < (2 :: rat) powi e"
  by simp

lemma powi_mono: "a \<le> b \<Longrightarrow> (2 :: rat) powi a \<le> 2 powi b"
  by (simp add: power_int_increasing)

lemma powi_less_iff: "(2 :: rat) powi a < 2 powi b \<longleftrightarrow> a < b"
proof (cases "a < b")
  case True
  then show ?thesis using power_int_strict_increasing [of a b "2 :: rat"] by simp
next
  case False
  then show ?thesis using powi_mono [of b a] by auto
qed

lemma powi_add: "(2 :: rat) powi (a + b) = 2 powi a * 2 powi b"
  by (simp add: power_int_add)

lemma powi_nat: "(2 :: rat) powi (int n) = 2 ^ n"
  by simp

lemma blen_rat:
  assumes "0 < n"
  shows "2 powi int (blen n) \<le> 2 * (of_int n :: rat) \<and> (of_int n :: rat) < 2 powi int (blen n)"
proof -
  have b: "2 ^ blen n \<le> 2 * n" "n < 2 ^ blen n" using blen_bounds [OF assms] by auto
  have "(of_int (2 ^ blen n) :: rat) \<le> of_int (2 * n)" using b(1) by (simp only: of_int_le_iff)
  moreover have "(of_int n :: rat) < of_int (2 ^ blen n)" using b(2) by (simp only: of_int_less_iff)
  ultimately show ?thesis unfolding powi_nat by simp
qed

lemma ilog2_bounds:
  assumes "0 < q"
  shows "2 powi ilog2 q \<le> q \<and> q < 2 powi (ilog2 q + 1)"
proof -
  obtain n d where nd: "quotient_of q = (n, d)" by fastforce
  then have q: "q = of_int n / of_int d" and d: "0 < d"
    by (simp_all add: quotient_of_div quotient_of_denom_pos)
  with assms have n: "0 < n" by (simp add: zero_less_divide_iff)
  define i j where "i = int (blen n)" and "j = int (blen d)"
  have N: "2 powi i \<le> 2 * (of_int n :: rat)" "(of_int n :: rat) < 2 powi i"
    and D: "2 powi j \<le> 2 * (of_int d :: rat)" "(of_int d :: rat) < 2 powi j"
    using blen_rat [OF n] blen_rat [OF d] by (simp_all add: i_def j_def)
  have lo: "2 powi (i - j - 1) \<le> q"
  proof -
    have "(2 :: rat) powi (i - j - 1) * of_int d \<le> 2 powi (i - j - 1) * 2 powi j"
      using D by (intro mult_left_mono) auto
    also have "\<dots> = 2 powi (i - 1)"
      by (simp flip: powi_add)
    also have "\<dots> = 2 powi i / 2"
      by (simp add: power_int_diff)
    also have "\<dots> \<le> of_int n"
      using N by simp
    finally show ?thesis using d by (simp add: q le_divide_eq)
  qed
  have hi: "q < 2 powi (i - j + 1)"
  proof -
    have "of_int n < (2 powi i :: rat)" by (rule N)
    also have "\<dots> = 2 powi (i - j + 1) * (2 powi j / 2)"
      by (simp flip: powi_add add: power_int_diff power_int_add)
    also have "\<dots> \<le> 2 powi (i - j + 1) * of_int d"
      using D by (intro mult_left_mono) auto
    finally show ?thesis using d by (simp add: q divide_less_eq)
  qed
  show ?thesis
    using lo hi unfolding ilog2_def nd by (simp add: i_def j_def Let_def add.commute)
qed


lemma ilog2_mono:
  assumes "0 < q" and "q \<le> r"
  shows "ilog2 q \<le> ilog2 r"
proof (rule ccontr)
  assume "\<not> ilog2 q \<le> ilog2 r"
  then have "(2 :: rat) powi (ilog2 r + 1) \<le> 2 powi ilog2 q" by (intro powi_mono) simp
  with ilog2_bounds [of q] ilog2_bounds [of r] assms show False by linarith
qed

lemma round_even_cases:
  "round_even q = \<lfloor>q\<rfloor> \<and> q - of_int \<lfloor>q\<rfloor> \<le> 1 / 2
   \<or> round_even q = \<lfloor>q\<rfloor> + 1 \<and> 1 / 2 \<le> q - of_int \<lfloor>q\<rfloor>"
  by (simp add: round_even_def Let_def not_less)

lemma round_even_of_int [simp]: "round_even (of_int n) = n"
  by (simp add: round_even_def)

lemma round_even_mono:
  assumes "q \<le> r"
  shows "round_even q \<le> round_even r"
proof (cases "\<lfloor>q\<rfloor> = \<lfloor>r\<rfloor>")
  case True
  with assms show ?thesis by (auto simp: round_even_def Let_def)
next
  case False
  then have "\<lfloor>q\<rfloor> + 1 \<le> \<lfloor>r\<rfloor>" using floor_mono [OF assms] by linarith
  then show ?thesis using round_even_cases [of q] round_even_cases [of r] by linarith
qed

lemma round_even_le_int: "q \<le> of_int n \<Longrightarrow> round_even q \<le> n"
  using round_even_mono [of q "of_int n"] by simp

lemma round_even_ge_int: "of_int n \<le> q \<Longrightarrow> n \<le> round_even q"
  using round_even_mono [of "of_int n" q] by simp

lemma round_even_minus: "round_even (- q) = - round_even q"
proof (cases "q = of_int \<lfloor>q\<rfloor>")
  case True
  then show ?thesis by (metis of_int_minus round_even_of_int)
next
  case False
  then have "\<lfloor>- q\<rfloor> = - \<lfloor>q\<rfloor> - 1"
    by (simp add: floor_minus ceiling_altdef)
  then show ?thesis by (auto simp: round_even_def Let_def)
qed

lemma ulp_pos [simp]: "0 < ulp q"
  by (simp add: ulp_def)

lemma ulp_mono: "0 < q \<Longrightarrow> q \<le> r \<Longrightarrow> ulp q \<le> ulp r"
  using ilog2_mono [of q r] by (simp add: ulp_def power_int_increasing)

text \<open>A power of two at or above the unit in the last place is a multiple of it.\<close>

lemma powi_multiple:
  assumes "max (ilog2 q - 52) (- 1074) \<le> e"
  shows "\<exists>n. (2 :: rat) powi e = of_int n * ulp q"
proof -
  define k where "k = nat (e - max (ilog2 q - 52) (- 1074))"
  have "e = int k + max (ilog2 q - 52) (- 1074)" using assms by (simp add: k_def)
  then have "(2 :: rat) powi e = of_int (2 ^ k) * ulp q"
    by (simp add: ulp_def powi_add)
  then show ?thesis by blast
qed

lemma rnd_le_multiple:
  assumes "0 < q" and "q \<le> of_int n * ulp q"
  shows "rnd q \<le> of_int n * ulp q"
proof -
  have "q / ulp q \<le> of_int n" using assms by (simp add: divide_le_eq)
  then have "of_int (round_even (q / ulp q)) \<le> (of_int n :: rat)"
    by (simp add: round_even_le_int)
  then show ?thesis using assms by (simp add: rnd_def)
qed

lemma rnd_ge_multiple:
  assumes "0 < q" and "of_int n * ulp q \<le> q"
  shows "of_int n * ulp q \<le> rnd q"
proof -
  have "of_int n \<le> q / ulp q" using assms by (simp add: le_divide_eq)
  then have "(of_int n :: rat) \<le> of_int (round_even (q / ulp q))"
    by (simp add: round_even_ge_int)
  then show ?thesis using assms by (simp add: rnd_def)
qed

lemma rnd_0 [simp]: "rnd 0 = 0"
  by (simp add: rnd_def)

lemma rnd_minus: "rnd (- q) = - rnd q"
  by (simp add: rnd_def round_even_minus)

lemma rnd_nonneg: "0 \<le> q \<Longrightarrow> 0 \<le> rnd q"
  using rnd_ge_multiple [of q 0] by (cases "q = 0") auto

lemma rnd_mono_pos:
  assumes "0 < q" and "q \<le> r"
  shows "rnd q \<le> rnd r"
proof (cases "ulp q = ulp r")
  case True
  have "q / ulp q \<le> r / ulp q" using assms by (simp add: divide_right_mono less_imp_le)
  then have "(of_int (round_even (q / ulp q)) :: rat) \<le> of_int (round_even (r / ulp q))"
    by (simp add: round_even_mono)
  then show ?thesis using assms True by (simp add: rnd_def)
next
  case False
  let ?e = "ilog2 r"
  have "ilog2 q \<noteq> ?e" using False by (auto simp: ulp_def)
  then have less: "ilog2 q + 1 \<le> ?e" using ilog2_mono [OF assms] by simp
  have big: "- 1074 < ?e - 52"
    using ilog2_mono [OF assms] False by (auto simp: ulp_def max_def split: if_splits)
  have "q < (2 :: rat) powi (ilog2 q + 1)" using ilog2_bounds assms(1) by blast
  also have "\<dots> \<le> 2 powi ?e" by (rule powi_mono [OF less])
  finally have q: "q \<le> 2 powi ?e" by simp
  obtain m where m: "(2 :: rat) powi ?e = of_int m * ulp q"
    using powi_multiple [of q ?e] less big by auto
  obtain n where n: "(2 :: rat) powi ?e = of_int n * ulp r"
    using powi_multiple [of r ?e] big by auto
  have "rnd q \<le> 2 powi ?e" using rnd_le_multiple [of q m] q m assms by simp
  also have "\<dots> \<le> rnd r" using rnd_ge_multiple [of r n] n assms ilog2_bounds [of r] by simp
  finally show ?thesis .
qed

lemma rnd_mono: "q \<le> r \<Longrightarrow> rnd q \<le> rnd r"
proof -
  assume le: "q \<le> r"
  consider "0 < q" | "q \<le> 0" "0 \<le> r" | "r < 0" using le by linarith
  then show ?thesis
  proof cases
    case 1
    then show ?thesis using le by (rule rnd_mono_pos)
  next
    case 2
    then show ?thesis using rnd_nonneg [of r] rnd_nonneg [of "- q"] by (simp add: rnd_minus)
  next
    case 3
    then show ?thesis using rnd_mono_pos [of "- r" "- q"] le by (simp add: rnd_minus)
  qed
qed

section \<open>Rounding is exact on small integers\<close>

lemma rnd_exact:
  assumes "q = of_int n * ulp \<bar>q\<bar>"
  shows "rnd q = q"
proof (cases "q = 0")
  case False
  have "q / ulp \<bar>q\<bar> = of_int n" using assms by (metis divide_eq_eq less_irrefl ulp_pos)
  then show ?thesis using assms False by (simp add: rnd_def)
qed simp

lemma ilog2_powi: "ilog2 (2 powi e) = e"
proof -
  have "(2 :: rat) powi ilog2 (2 powi e) \<le> 2 powi e" "(2 :: rat) powi e < 2 powi (ilog2 (2 powi e) + 1)"
    using ilog2_bounds [of "2 powi e"] by simp_all
  then show ?thesis
    using powi_less_iff [of e "ilog2 (2 powi e)"] powi_less_iff [of e "ilog2 (2 powi e) + 1"] by linarith
qed

lemma rnd_powi:
  assumes "- 1074 \<le> e"
  shows "rnd (2 powi e) = 2 powi e"
proof -
  obtain m where "(2 :: rat) powi e = of_int m * ulp (2 powi e)"
    using powi_multiple [of "2 powi e" e] assms by (auto simp: ilog2_powi)
  then show ?thesis by (intro rnd_exact [of _ m]) simp
qed

lemma rnd_int_pos:
  assumes "0 < n" and "n \<le> 2 ^ 53"
  shows "rnd (of_int n) = of_int n"
proof (cases "n = 2 ^ 53")
  case True
  then show ?thesis using rnd_powi [of 53] by simp
next
  case False
  then have n: "n < 2 ^ 53" using assms by simp
  let ?q = "of_int n :: rat"
  have "(2 :: rat) powi ilog2 ?q \<le> ?q" using ilog2_bounds [of ?q] assms by simp
  also have "\<dots> < of_int (2 ^ 53)" using n by (simp only: of_int_less_iff)
  also have "\<dots> = 2 powi 53" by simp
  finally have "ilog2 ?q < 53" by (simp only: powi_less_iff)
  then obtain m where "(2 :: rat) powi 0 = of_int m * ulp ?q"
    using powi_multiple [of ?q 0] by auto
  then have "?q = of_int (n * m) * ulp \<bar>?q\<bar>" using assms by simp
  then show ?thesis by (rule rnd_exact)
qed

lemma rnd_int: "\<bar>n\<bar> \<le> 2 ^ 53 \<Longrightarrow> rnd (of_int n) = of_int n"
  using rnd_int_pos [of n] rnd_int_pos [of "- n"] rnd_minus [of "of_int n"]
  by (cases n "0 :: int" rule: linorder_cases) auto

section \<open>The order on values\<close>

named_theorems f64_simps \<open>characteristic facts of the value operations\<close>

lemma fl_False_not_NZero [simp]: "fl False q \<noteq> NZero"
  by (auto simp: fl_def Let_def)

lemma not_nan_fl [simp]: "\<not> is_nan (fl s q)"
  by (simp add: fl_def Let_def)

lemma fle_refl [simp]: "fle a a \<longleftrightarrow> \<not> is_nan a"
  by (cases a) (auto simp: fle_def)

lemma fle_trans: "fle a b \<Longrightarrow> fle b c \<Longrightarrow> fle a c"
  by (cases a; cases b; cases c) (auto simp: fle_def)

lemma fle_total: "\<not> is_nan a \<Longrightarrow> \<not> is_nan b \<Longrightarrow> fle a b \<or> fle b a"
  by (cases a; cases b) (auto simp: fle_def)

lemma not_flt_iff: "\<not> is_nan a \<Longrightarrow> \<not> is_nan b \<Longrightarrow> \<not> flt a b \<longleftrightarrow> fle b a"
  by (simp add: fle_def)

lemma flt_not_nan: "flt a b \<Longrightarrow> \<not> is_nan a \<and> \<not> is_nan b"
  by (cases a; cases b) auto

lemma flt_imp_fle: "flt a b \<Longrightarrow> fle a b"
  by (cases a; cases b) (auto simp: fle_def)

lemma fle_flt_trans: "fle a b \<Longrightarrow> flt b c \<Longrightarrow> flt a c"
  by (cases a; cases b; cases c) (auto simp: fle_def)

lemma flt_fle_trans: "flt a b \<Longrightarrow> fle b c \<Longrightarrow> flt a c"
  by (cases a; cases b; cases c) (auto simp: fle_def)

lemma fle_fval: "is_finite a \<Longrightarrow> is_finite b \<Longrightarrow> fle a b \<longleftrightarrow> fval a \<le> fval b"
  by (cases a; cases b) (auto simp: fle_def)

lemma flt_fval: "is_finite a \<Longrightarrow> is_finite b \<Longrightarrow> flt a b \<longleftrightarrow> fval a < fval b"
  by (cases a; cases b) auto

lemma is_finite_not_nan: "is_finite a \<Longrightarrow> \<not> is_nan a \<and> \<not> is_inf a"
  by (cases a) auto

lemma fl_finite_iff [f64_simps]: "is_finite (fl s q) \<longleftrightarrow> - (2 ^ 1024) < rnd q \<and> rnd q < 2 ^ 1024"
  by (auto simp: fl_def Let_def not_le)

lemma fval_fl [f64_simps]: "is_finite (fl s q) \<Longrightarrow> fval (fl s q) = rnd q"
  by (auto simp: fl_def Let_def split: if_splits)

text \<open>Rounding to a value is monotone, whatever the signs of zeros.\<close>

lemma fl_mono: "q \<le> r \<Longrightarrow> fle (fl s q) (fl t r)"
  using rnd_mono [of q r] by (auto simp: fl_def fle_def Let_def)

lemma rnd_bounded:
  assumes "\<bar>q\<bar> \<le> of_int n" and "n \<le> 2 ^ 53"
  shows "\<bar>rnd q\<bar> \<le> of_int n"
proof -
  have "0 \<le> n" using assms(1) by (metis abs_ge_zero of_int_0_le_iff order_trans)
  then have e: "rnd (of_int n) = of_int n" "rnd (of_int (- n)) = of_int (- n)"
    using assms(2) by (auto intro!: rnd_int simp del: of_int_minus)
  have "rnd q \<le> rnd (of_int n)" and "rnd (of_int (- n)) \<le> rnd q"
    using assms(1) by (auto intro!: rnd_mono)
  then show ?thesis unfolding e by (simp add: abs_le_iff)
qed

lemma fl_int: "\<bar>n\<bar> \<le> 2 ^ 53 \<Longrightarrow> n \<noteq> 0 \<Longrightarrow> fl s (of_int n) = Fin (of_int n)"
proof -
  assume n: "\<bar>n\<bar> \<le> 2 ^ 53" "n \<noteq> 0"
  then have "(of_int \<bar>n\<bar> :: rat) \<le> of_int (2 ^ 53)" by (simp only: of_int_le_iff)
  also have "\<dots> < 2 ^ 1024" by simp
  finally have "\<bar>of_int n :: rat\<bar> < 2 ^ 1024" by simp
  then show ?thesis using n by (auto simp: fl_def Let_def rnd_int abs_less_iff)
qed

lemma of_int64_exact [f64_simps]: "\<bar>n\<bar> \<le> 2 ^ 53 \<Longrightarrow> of_int64 n = Fin (of_int n)"
  using fl_int [of n False] by (cases "n = 0") (simp_all add: of_int64_def fl_def)

lemma not_nan_of_int64 [simp]: "\<not> is_nan (of_int64 n)"
  by (simp add: of_int64_def)

lemma of_int64_mono: "m \<le> n \<Longrightarrow> fle (of_int64 m) (of_int64 n)"
  by (simp add: of_int64_def fl_mono)

lemma flit_of_int: "flit (of_int n) = of_int64 n"
  by (simp add: flit_def of_int64_def)

text \<open>Sums and differences of finite values round the exact result.\<close>

lemma fval_NZero_add: "a = NZero \<and> b = NZero \<Longrightarrow> fval a + fval b = 0"
  by auto

lemma fadd_finite [f64_simps]:
  "is_finite a \<Longrightarrow> is_finite b \<Longrightarrow> \<not> (a = NZero \<and> b = NZero)
    \<Longrightarrow> fadd a b = fl False (fval a + fval b)"
  by (cases a; cases b) (auto simp: fadd_def)

lemma fneg_finite [simp]: "is_finite (fneg a) = is_finite a"
  by (cases a) auto

lemma fval_fneg [simp]: "is_finite a \<Longrightarrow> fval (fneg a) = - fval a"
  by (cases a) auto

lemma fval_fsub_int:
  assumes "a = Fin (of_int m)" and "b = Fin (of_int n)" and "\<bar>m - n\<bar> \<le> 2 ^ 53" and "n \<noteq> 0"
  shows "fsub a b = Fin (of_int (m - n))"
proof -
  have "fsub a b = fl False (of_int (m - n))"
    using assms by (simp add: fsub_def fadd_def)
  then show ?thesis using of_int64_exact [OF assms(3)] by (simp add: of_int64_def)
qed

section \<open>Signs and durations\<close>

lemma go_div_nonneg: "0 \<le> a \<Longrightarrow> 0 < b \<Longrightarrow> go_div a b = a div b"
  by (cases "a = 0") (simp_all add: go_div_def)

lemma go_mod_nonneg: "0 \<le> a \<Longrightarrow> 0 < b \<Longrightarrow> go_mod a b = a mod b"
  by (simp add: go_mod_def go_div_nonneg minus_mult_div_eq_mod)

lemma fle_zero_fadd:
  assumes "fle (Fin 0) a" and "fle (Fin 0) b"
  shows "fle (Fin 0) (fadd a b)"
proof -
  have "fle (fl False 0) (fl False (fval a + fval b))" if "is_finite a" "is_finite b"
    using assms that by (intro fl_mono) (simp add: fle_fval)
  then show ?thesis
    using assms by (cases a; cases b) (auto simp: fadd_def fle_def fl_def)
qed

lemma fle_zero_fdiv:
  assumes "fle (Fin 0) a" and "is_finite a" and "0 < q"
  shows "fle (Fin 0) (fdiv a (Fin q))"
proof -
  have "fle (fl False 0) (fl s (fval a / q))" for s
    using assms by (intro fl_mono) (simp add: fle_fval)
  then show ?thesis
    using assms by (cases a) (auto simp: fdiv_def fle_def fl_def Let_def)
qed

lemma fmul_finite:
  "is_finite a \<Longrightarrow> is_finite b \<Longrightarrow> fmul a b = fl (fneg_bit a \<noteq> fneg_bit b) (fval a * fval b)"
  using is_finite_not_nan [of a] is_finite_not_nan [of b] by (simp add: fmul_def)

lemma fle_zero_fmul:
  assumes "fle (Fin 0) a" and "is_finite a" and "fle (Fin 0) b" and "is_finite b"
  shows "fle (Fin 0) (fmul a b)"
proof -
  have "fle (fl False 0) (fl s (fval a * fval b))" for s
    using assms by (intro fl_mono) (simp add: fle_fval)
  then show ?thesis
    using assms by (simp add: fmul_finite fl_def Let_def)
qed

lemma of_int64_nonneg: "0 \<le> n \<Longrightarrow> fle (Fin 0) (of_int64 n)"
  using of_int64_mono [of 0 n] by (simp add: of_int64_exact)

lemma rnd_2_63: "rnd (of_int (2 ^ 63)) = of_int (2 ^ 63)"
  using rnd_powi [of 63] by simp

lemma of_int64_finite:
  assumes "in64 n"
  shows "is_finite (of_int64 n)"
proof -
  have "n \<le> 2 ^ 63" and "- (2 ^ 63) \<le> n" using assms by (simp_all add: in64_def)
  then have "rnd (of_int n) \<le> rnd (of_int (2 ^ 63))"
    and "rnd (- of_int (2 ^ 63)) \<le> rnd (of_int n)"
    by (intro rnd_mono; simp only: of_int_le_iff flip: of_int_minus)+
  then have "\<bar>rnd (of_int n)\<bar> \<le> of_int (2 ^ 63)"
    by (simp only: rnd_minus rnd_2_63 abs_le_iff minus_le_iff)
  also have "\<dots> = 2 ^ 63" by simp
  also have "(2 :: rat) ^ 63 < 2 ^ 1024" by (rule power_strict_increasing) simp_all
  finally show ?thesis by (simp only: of_int64_def fl_finite_iff abs_less_iff minus_less_iff)
qed

lemma fadd_not_nan:
  "is_finite a \<Longrightarrow> \<not> is_nan b \<Longrightarrow> \<not> is_nan (fadd a b)"
  by (cases a; cases b) (auto simp: fadd_def)

lemma flit_1: "flit 1 = Fin 1"
  using of_int64_exact [of 1] flit_of_int [of 1] by simp

lemma fsub_one_nonneg:
  assumes "fle (Fin 1) a"
  shows "fle (Fin 0) (fsub a (flit 1))"
proof -
  have "fle (fl False 0) (fl False (fval a - 1))" if "is_finite a"
    using assms that by (intro fl_mono) (simp add: fle_fval)
  then have "fle (Fin 0) (fl False (fval a - 1))" if "is_finite a"
    using that by (simp add: fl_def)
  then show ?thesis
    using assms by (cases a) (auto simp: fsub_def fadd_def fle_def flit_1)
qed

lemma fsub_one_finite: "is_finite a \<Longrightarrow> fsub a (flit 1) = fl False (fval a - 1)"
  by (cases a) (auto simp: flit_1 fsub_def fadd_def)

lemma fsub_one_le:
  assumes "fle a (of_int64 n)" and "is_finite a" and "\<bar>n\<bar> \<le> 2 ^ 53"
  shows "fle (fsub a (flit 1)) (of_int64 n)"
proof -
  have "fval a \<le> of_int n" using assms by (simp add: of_int64_exact fle_fval)
  then show ?thesis
    using assms(2) by (auto simp: fsub_one_finite of_int64_def intro!: fl_mono)
qed

lemma fle_between_finite:
  "fle a x \<Longrightarrow> fle x b \<Longrightarrow> is_finite a \<Longrightarrow> is_finite b \<Longrightarrow> is_finite x"
  by (cases x; cases a; cases b) (auto simp: fle_def)

lemma fl_bounded:
  assumes "\<bar>q\<bar> \<le> of_int n" and "n \<le> 2 ^ 53"
  shows "is_finite (fl s q) \<and> \<bar>fval (fl s q)\<bar> \<le> of_int n"
proof -
  have r: "\<bar>rnd q\<bar> \<le> of_int n" by (rule rnd_bounded [OF assms])
  also have "(of_int n :: rat) \<le> of_int (2 ^ 53)" using assms(2) by (simp only: of_int_le_iff)
  also have "\<dots> = 2 ^ 53" by simp
  also have "(2 :: rat) ^ 53 < 2 ^ 1024" by (rule power_strict_increasing) simp_all
  finally have "is_finite (fl s q)" by (simp only: fl_finite_iff abs_less_iff minus_less_iff)
  with r show ?thesis by (simp add: fval_fl)
qed

lemma flit_1e9: "flit 1000000000 = Fin 1000000000"
  using of_int64_exact [of 1000000000] flit_of_int [of 1000000000] by simp

lemma duration_seconds_0 [simp]: "duration_seconds 0 = Fin 0"
  by (simp add: duration_seconds_def go_div_def go_mod_def flit_1e9 of_int64_exact fdiv_def
      fadd_def fl_def)

lemma duration_seconds_bounds:
  assumes "0 \<le> d" and "in64 d"
  shows "is_finite (duration_seconds d) \<and> fle (Fin 0) (duration_seconds d)"
proof -
  define k m where "k = go_div d 1000000000" and "m = go_mod d 1000000000"
  have k: "0 \<le> k" "k \<le> 2 ^ 34" and m: "0 \<le> m" "m < 1000000000"
    using assms by (simp_all add: k_def m_def go_div_nonneg go_mod_nonneg in64_def pos_imp_zdiv_nonneg_iff)
  have q: "fdiv (of_int64 m) (flit 1000000000) = fl False (of_int m / 1000000000)"
    using m by (simp add: flit_1e9 of_int64_exact fdiv_def)
  have "\<bar>of_int m / 1000000000 :: rat\<bar> \<le> of_int 1" using m by simp
  then have f: "is_finite (fl False (of_int m / 1000000000))"
    "\<bar>fval (fl False (of_int m / 1000000000))\<bar> \<le> 1"
    using fl_bounded [of "of_int m / 1000000000" 1 False] by simp_all
  let ?r = "fl False (of_int m / 1000000000)"
  have "(of_int k :: rat) \<le> of_int (2 ^ 34)" using k by (simp only: of_int_le_iff)
  then have "\<bar>of_int k + fval ?r\<bar> \<le> of_int (2 ^ 34 + 1)"
    using f(2) k(1) by simp
  then have "is_finite (fl False (of_int k + fval ?r))"
    using fl_bounded [of "of_int k + fval ?r" "2 ^ 34 + 1" False] by simp
  moreover have e: "duration_seconds d = fadd (Fin (of_int k)) ?r"
    using k q by (simp add: duration_seconds_def k_def [symmetric] m_def [symmetric] of_int64_exact)
  ultimately have "is_finite (duration_seconds d)" using f(1) by (simp add: fadd_finite)
  moreover have "fle (Fin 0) (duration_seconds d)"
    unfolding e using k(1) m fle_zero_fdiv [of "of_int64 m" 1000000000] q
    by (intro fle_zero_fadd) (simp_all add: fle_def of_int64_exact flit_1e9)
  ultimately show ?thesis by blast
qed

text \<open>An equation for evaluation that compares binary exponents instead of \<open>2 ^ 1024\<close>.\<close>

lemma ilog2_ge_iff: "0 < q \<Longrightarrow> e \<le> ilog2 q \<longleftrightarrow> 2 powi e \<le> q"
proof
  assume "0 < q" and "e \<le> ilog2 q"
  then show "2 powi e \<le> q" using powi_mono [of e "ilog2 q"] ilog2_bounds [of q] by linarith
next
  assume q: "0 < q" and "2 powi e \<le> q"
  then have "(2 :: rat) powi e < 2 powi (ilog2 q + 1)" using ilog2_bounds [of q] by linarith
  then show "e \<le> ilog2 q" by (simp only: powi_less_iff)
qed

lemma fl_code [code]:
  "fl neg q = (let r = rnd q in
     if r = 0 then (if neg then NZero else Fin 0)
     else if 1024 \<le> ilog2 \<bar>r\<bar> then (if r < 0 then NInf else PInf) else Fin r)"
proof -
  have e: "(2 :: rat) ^ 1024 = 2 powi 1024" by (simp only: powi_nat [symmetric] of_nat_numeral)
  show ?thesis
  proof (cases "rnd q = 0")
    case True
    then show ?thesis by (simp add: fl_def)
  next
    case False
    then have i: "1024 \<le> ilog2 \<bar>rnd q\<bar> \<longleftrightarrow> 2 ^ 1024 \<le> \<bar>rnd q\<bar>"
      unfolding e by (intro ilog2_ge_iff) simp
    have p: "(0 :: rat) < 2 ^ 1024" by (rule zero_less_power) simp
    show ?thesis
      unfolding fl_def Let_def i using False p by (auto simp only: abs_if split: if_splits)
  qed
qed

end
