(* ===== verification/GoString.thy ===== *)
theory GoString
  imports GoFloat
begin

text \<open>
  Go strings are byte sequences; so is \<open>string\<close> (a \<open>char\<close> is 8 bits). This theory models
  the functions of packages \<open>strings\<close>, \<open>strconv\<close>, \<open>unicode/utf8\<close> and \<open>fmt\<close> that
  the program uses, and proves what the components need of them. The only parameter is the
  Unicode case table: \<open>strings.ToLower\<close> on a string with a non-ASCII byte goes through
  \<open>uni_lower\<close>.
\<close>

section \<open>Bytes\<close>

abbreviation byte :: "char \<Rightarrow> nat" where
  "byte c \<equiv> of_char c"

abbreviation chr :: "nat \<Rightarrow> char" where
  "chr n \<equiv> char_of n"

definition is_ascii :: "string \<Rightarrow> bool" where
  "is_ascii s \<longleftrightarrow> (\<forall>c \<in> set s. byte c < 128)"

definition is_digit :: "char \<Rightarrow> bool" where
  "is_digit c \<longleftrightarrow> 48 \<le> byte c \<and> byte c \<le> 57"

definition digit_val :: "char \<Rightarrow> int" where
  "digit_val c = int (byte c) - 48"

section \<open>Package \<open>strings\<close>\<close>

definition HasPrefix :: "string \<Rightarrow> string \<Rightarrow> bool" where
  "HasPrefix s p \<longleftrightarrow> take (length p) s = p"

definition HasSuffix :: "string \<Rightarrow> string \<Rightarrow> bool" where
  "HasSuffix s p \<longleftrightarrow> length p \<le> length s \<and> drop (length s - length p) s = p"

definition TrimPrefix :: "string \<Rightarrow> string \<Rightarrow> string" where
  "TrimPrefix s p = (if HasPrefix s p then drop (length p) s else s)"

definition TrimSuffix :: "string \<Rightarrow> string \<Rightarrow> string" where
  "TrimSuffix s p = (if HasSuffix s p then take (length s - length p) s else s)"

fun Contains :: "string \<Rightarrow> string \<Rightarrow> bool" where
  "Contains [] p = (p = [])"
| "Contains (c # s) p = (HasPrefix (c # s) p \<or> Contains s p)"

text \<open>\<open>IndexByte\<close>: the first position of the byte, -1 if there is none.\<close>

fun IndexByte :: "string \<Rightarrow> char \<Rightarrow> int" where
  "IndexByte [] c = - 1"
| "IndexByte (d # s) c =
     (if d = c then 0 else let i = IndexByte s c in if i < 0 then - 1 else i + 1)"

text \<open>\<open>Split\<close> and \<open>SplitN\<close> on a one-byte separator; \<open>n\<close> is the most parts wanted.\<close>

fun Split :: "string \<Rightarrow> char \<Rightarrow> string list" where
  "Split [] sep = [[]]"
| "Split (c # s) sep =
     (if c = sep then [] # Split s sep
      else case Split s sep of p # ps \<Rightarrow> (c # p) # ps | [] \<Rightarrow> [[c]])"

fun SplitN :: "string \<Rightarrow> char \<Rightarrow> nat \<Rightarrow> string list" where
  "SplitN s sep 0 = []"
| "SplitN s sep (Suc 0) = [s]"
| "SplitN s sep (Suc (Suc n)) =
     (let i = IndexByte s sep in
      if i < 0 then [s] else take (nat i) s # SplitN (drop (nat i + 1) s) sep (Suc n))"

fun Join :: "string list \<Rightarrow> string \<Rightarrow> string" where
  "Join [] sep = []"
| "Join [p] sep = p"
| "Join (p # q # ps) sep = p @ sep @ Join (q # ps) sep"

definition ReplaceByte :: "string \<Rightarrow> char \<Rightarrow> char \<Rightarrow> string" where
  "ReplaceByte s old new = map (\<lambda>c. if c = old then new else c) s"

definition TrimByte :: "string \<Rightarrow> char \<Rightarrow> string" where
  "TrimByte s c = rev (dropWhile (\<lambda>d. d = c) (rev (dropWhile (\<lambda>d. d = c) s)))"

definition TrimRightByte :: "string \<Rightarrow> char \<Rightarrow> string" where
  "TrimRightByte s c = rev (dropWhile (\<lambda>d. d = c) (rev s))"

text \<open>
  The UTF-8 encodings of the runes with \<open>unicode.IsSpace\<close>. A lead byte never occurs inside
  another rune, so cutting at these byte sequences is cutting at space runes.
\<close>

definition space_runes :: "string list" where
  "space_runes = map (map chr)
     ([[9], [10], [11], [12], [13], [32], [0xC2, 0x85], [0xC2, 0xA0], [0xE1, 0x9A, 0x80]]
      @ map (\<lambda>k. [0xE2, 0x80, 0x80 + k]) [0..<11]
      @ [[0xE2, 0x80, 0xA8], [0xE2, 0x80, 0xA9], [0xE2, 0x80, 0xAF],
         [0xE2, 0x81, 0x9F], [0xE3, 0x80, 0x80]])"

text \<open>The length of the space rune at the front (at the back) of a string, 0 if there is none.\<close>

definition front_space :: "string \<Rightarrow> nat" where
  "front_space s = (case find (HasPrefix s) space_runes of None \<Rightarrow> 0 | Some p \<Rightarrow> length p)"

definition back_space :: "string \<Rightarrow> nat" where
  "back_space s = (case find (HasSuffix s) space_runes of None \<Rightarrow> 0 | Some p \<Rightarrow> length p)"

function TrimLeftSpace :: "string \<Rightarrow> string" where
  "TrimLeftSpace s =
     (if s = [] \<or> front_space s = 0 then s else TrimLeftSpace (drop (front_space s) s))"
  by pat_completeness auto
termination
  by (relation "measure length") (auto intro: drop_length_less)

function TrimRightSpace :: "string \<Rightarrow> string" where
  "TrimRightSpace s =
     (if s = [] \<or> back_space s = 0 then s
      else TrimRightSpace (take (length s - back_space s) s))"
  by pat_completeness auto
termination
  by (relation "measure length") (auto simp: min_def simp flip: length_greater_0_conv)

declare TrimLeftSpace.simps [simp del] TrimRightSpace.simps [simp del]

definition TrimSpace :: "string \<Rightarrow> string" where
  "TrimSpace s = TrimRightSpace (TrimLeftSpace s)"

text \<open>\<open>Fields\<close>: the maximal runs without a space rune; \<open>acc\<close> is the run being read, reversed.\<close>

function fields_from :: "string \<Rightarrow> string \<Rightarrow> string list" where
  "fields_from acc s =
     (let out = (if acc = [] then [] else [rev acc]) in
      case s of
        [] \<Rightarrow> out
      | c # s' \<Rightarrow>
          (if front_space s = 0 then fields_from (c # acc) s'
           else out @ fields_from [] (drop (front_space s) s)))"
  by pat_completeness auto
termination
  by (relation "measure (\<lambda>(acc, s). length s)") (auto simp: Let_def)

declare fields_from.simps [simp del]

definition Fields :: "string \<Rightarrow> string list" where
  "Fields s = fields_from [] s"

definition ascii_lower :: "char \<Rightarrow> char" where
  "ascii_lower c = (if 65 \<le> byte c \<and> byte c \<le> 90 then chr (byte c + 32) else c)"

definition ToLower :: "(string \<Rightarrow> string) \<Rightarrow> string \<Rightarrow> string" where
  "ToLower uni_lower s = (if is_ascii s then map ascii_lower s else uni_lower s)"

section \<open>Package \<open>unicode/utf8\<close>\<close>

definition is_cont :: "nat \<Rightarrow> bool" where
  "is_cont b \<longleftrightarrow> 0x80 \<le> b \<and> b \<le> 0xBF"

definition RuneError :: nat where
  "RuneError = 0xFFFD"

text \<open>
  \<open>decode_rune\<close> is \<open>utf8.DecodeRuneInString\<close> on bytes: the rune and its width; an
  ill-formed sequence (a stray byte, an overlong form, a surrogate) is one byte of error.
\<close>

fun decode_rune :: "nat list \<Rightarrow> nat \<times> nat" where
  "decode_rune [] = (RuneError, 0)"
| "decode_rune (a # s) =
     (if a < 0x80 then (a, 1)
      else if 0xC2 \<le> a \<and> a \<le> 0xDF then
        (case s of b # _ \<Rightarrow>
           if is_cont b then ((a - 0xC0) * 64 + (b - 0x80), 2) else (RuneError, 1)
         | _ \<Rightarrow> (RuneError, 1))
      else if 0xE0 \<le> a \<and> a \<le> 0xEF then
        (case s of b # c # _ \<Rightarrow>
           if (if a = 0xE0 then 0xA0 else 0x80) \<le> b \<and> b \<le> (if a = 0xED then 0x9F else 0xBF)
              \<and> is_cont c
           then ((a - 0xE0) * 4096 + (b - 0x80) * 64 + (c - 0x80), 3) else (RuneError, 1)
         | _ \<Rightarrow> (RuneError, 1))
      else if 0xF0 \<le> a \<and> a \<le> 0xF4 then
        (case s of b # c # d # _ \<Rightarrow>
           if (if a = 0xF0 then 0x90 else 0x80) \<le> b \<and> b \<le> (if a = 0xF4 then 0x8F else 0xBF)
              \<and> is_cont c \<and> is_cont d
           then ((a - 0xF0) * 262144 + (b - 0x80) * 4096 + (c - 0x80) * 64 + (d - 0x80), 4)
           else (RuneError, 1)
         | _ \<Rightarrow> (RuneError, 1))
      else (RuneError, 1))"

definition encode_rune :: "nat \<Rightarrow> string" where
  "encode_rune r = map chr
     (if r < 0x80 then [r]
      else if r < 0x800 then [0xC0 + r div 64, 0x80 + r mod 64]
      else if r < 0x10000 then [0xE0 + r div 4096, 0x80 + r div 64 mod 64, 0x80 + r mod 64]
      else [0xF0 + r div 262144, 0x80 + r div 4096 mod 64, 0x80 + r div 64 mod 64,
            0x80 + r mod 64])"

lemma decode_rune_width: "s \<noteq> [] \<Longrightarrow> 0 < snd (decode_rune s)"
  by (cases s rule: decode_rune.cases) (auto split: list.splits)

text \<open>\<open>for _, ch := range s\<close>: the runes of a string.\<close>

function runes :: "nat list \<Rightarrow> nat list" where
  "runes s = (if s = [] then []
     else fst (decode_rune s) # runes (drop (snd (decode_rune s)) s))"
  by pat_completeness auto
termination
  by (relation "measure length") (auto intro: diff_less decode_rune_width)

declare runes.simps [simp del]

definition string_runes :: "string \<Rightarrow> nat list" where
  "string_runes s = runes (map byte s)"

section \<open>Numbers as text\<close>

fun nat_digits :: "nat \<Rightarrow> string" where
  "nat_digits n = (if n < 10 then [chr (48 + n)] else nat_digits (n div 10) @ [chr (48 + n mod 10)])"

declare nat_digits.simps [simp del]

text \<open>The verb \<open>%d\<close>.\<close>

definition itoa :: "int \<Rightarrow> string" where
  "itoa n = (if n < 0 then ''-'' @ nat_digits (nat (- n)) else nat_digits (nat n))"

text \<open>The verb \<open>%.kf\<close>: the exact value rounded half-even to \<open>k\<close> decimals.\<close>

definition fixed_digits :: "nat \<Rightarrow> nat \<Rightarrow> string" where
  "fixed_digits k n =
     (if k = 0 then nat_digits n
      else nat_digits (n div 10 ^ k) @ ''.''
           @ replicate (k - length (nat_digits (n mod 10 ^ k))) (CHR ''0'')
           @ nat_digits (n mod 10 ^ k))"

fun fmt_fixed :: "nat \<Rightarrow> f64 \<Rightarrow> string" where
  "fmt_fixed k NaN = ''NaN''"
| "fmt_fixed k PInf = ''+Inf''"
| "fmt_fixed k NInf = ''-Inf''"
| "fmt_fixed k x = (if fneg_bit x then ''-'' else [])
     @ fixed_digits k (nat (round_even (\<bar>fval x\<bar> * 10 ^ k)))"

fun digits_val :: "int \<Rightarrow> string \<Rightarrow> int" where
  "digits_val acc [] = acc"
| "digits_val acc (c # s) = digits_val (acc * 10 + digit_val c) s"

text \<open>\<open>strconv.Atoi\<close>: an optional sign and decimal digits, in the range of \<open>int\<close>.\<close>

definition Atoi :: "string \<Rightarrow> int option" where
  "Atoi s =
     (let neg = HasPrefix s ''-'';
          ds = (if HasPrefix s ''-'' \<or> HasPrefix s ''+'' then tl s else s);
          v = (if neg then - digits_val 0 ds else digits_val 0 ds)
      in if ds = [] \<or> \<not> list_all is_digit ds \<or> \<not> in64 v then None else Some v)"

section \<open>Facts about strings\<close>

lemma HasPrefix_iff: "HasPrefix s p \<longleftrightarrow> (\<exists>t. s = p @ t)"
  by (metis HasPrefix_def append_eq_conv_conj append_take_drop_id)

lemma HasSuffix_iff: "HasSuffix s p \<longleftrightarrow> (\<exists>t. s = t @ p)"
proof
  assume "HasSuffix s p"
  then have "s = take (length s - length p) s @ p"
    by (metis HasSuffix_def append_take_drop_id)
  then show "\<exists>t. s = t @ p" by blast
next
  assume "\<exists>t. s = t @ p"
  then show "HasSuffix s p" by (auto simp: HasSuffix_def)
qed

lemma HasPrefix_Nil [simp]: "HasPrefix s []"
  by (simp add: HasPrefix_def)

lemma HasPrefix_Cons [simp]: "HasPrefix (c # s) (d # p) \<longleftrightarrow> c = d \<and> HasPrefix s p"
  by (auto simp: HasPrefix_def)

lemma HasPrefix_Nil_left [simp]: "HasPrefix [] p \<longleftrightarrow> p = []"
  by (auto simp: HasPrefix_def)

lemma Contains_iff: "Contains s p \<longleftrightarrow> (\<exists>u v. s = u @ p @ v)"
proof (induction s)
  case Nil
  then show ?case by auto
next
  case (Cons c s)
  have "(\<exists>u v. c # s = u @ p @ v) \<longleftrightarrow> (\<exists>v. c # s = p @ v) \<or> (\<exists>u v. s = u @ p @ v)"
  proof (intro iffI, elim exE)
    fix u v assume uv: "c # s = u @ p @ v"
    show "(\<exists>v. c # s = p @ v) \<or> (\<exists>u v. s = u @ p @ v)"
      using uv by (cases u) auto
  next
    assume "(\<exists>v. c # s = p @ v) \<or> (\<exists>u v. s = u @ p @ v)"
    then show "\<exists>u v. c # s = u @ p @ v"
    proof
      assume "\<exists>v. c # s = p @ v"
      then obtain v where "c # s = [] @ p @ v" by auto
      then show ?thesis by blast
    next
      assume "\<exists>u v. s = u @ p @ v"
      then obtain u v where "c # s = (c # u) @ p @ v" by auto
      then show ?thesis by blast
    qed
  qed
  with Cons show ?case by (simp add: HasPrefix_iff)
qed

lemma Split_not_Nil [simp]: "Split s sep \<noteq> []"
  by (cases s) (auto split: list.splits)

text \<open>Splitting loses nothing, and no part contains the separator.\<close>

lemma Join_Cons: "ps \<noteq> [] \<Longrightarrow> Join (p # ps) sep = p @ sep @ Join ps sep"
  by (cases ps) auto

lemma Join_Split: "Join (Split s sep) [sep] = s"
proof (induction s)
  case Nil
  then show ?case by simp
next
  case (Cons c s)
  obtain p ps where "Split s sep = p # ps" by (meson Split_not_Nil neq_Nil_conv)
  with Cons show ?case by (cases ps) (auto simp: Join_Cons)
qed

lemma Split_no_sep: "p \<in> set (Split s sep) \<Longrightarrow> sep \<notin> set p"
  by (induction s arbitrary: p) (auto split: if_splits list.splits)

lemma IndexByte_neg_iff: "IndexByte s c < 0 \<longleftrightarrow> c \<notin> set s"
  by (induction s) (auto simp: Let_def)

lemma IndexByte_bound: "IndexByte s c < int (length s)"
  by (induction s) (auto simp: Let_def)

lemma IndexByte_split:
  "c \<in> set s \<Longrightarrow> s = take (nat (IndexByte s c)) s @ c # drop (nat (IndexByte s c) + 1) s
    \<and> c \<notin> set (take (nat (IndexByte s c)) s)"
proof (induction s)
  case Nil
  then show ?case by simp
next
  case (Cons d s)
  then show ?case
    using IndexByte_neg_iff [of s c] by (auto simp: Let_def nat_add_distrib)
qed

lemma front_space_le: "front_space s \<le> length s"
proof (cases "find (HasPrefix s) space_runes")
  case (Some p)
  then have "HasPrefix s p" by (simp add: find_Some_iff) blast
  then show ?thesis using Some by (auto simp: front_space_def HasPrefix_iff)
qed (simp add: front_space_def)

lemma TrimLeftSpace_suffix: "\<exists>u. s = u @ TrimLeftSpace s"
proof (induction s rule: TrimLeftSpace.induct)
  case (1 s)
  show ?case
  proof (cases "s = [] \<or> front_space s = 0")
    case True
    then show ?thesis by (simp add: TrimLeftSpace.simps)
  next
    case False
    with "1" obtain u where "drop (front_space s) s = u @ TrimLeftSpace (drop (front_space s) s)"
      by blast
    moreover have "TrimLeftSpace (drop (front_space s) s) = TrimLeftSpace s"
      using False by (simp add: TrimLeftSpace.simps [of s])
    ultimately have "s = (take (front_space s) s @ u) @ TrimLeftSpace s"
      by (metis append.assoc append_take_drop_id)
    then show ?thesis by blast
  qed
qed

lemma TrimRightSpace_prefix: "\<exists>u. s = TrimRightSpace s @ u"
proof (induction s rule: TrimRightSpace.induct)
  case (1 s)
  show ?case
  proof (cases "s = [] \<or> back_space s = 0")
    case True
    then show ?thesis by (simp add: TrimRightSpace.simps)
  next
    case False
    let ?t = "take (length s - back_space s) s"
    have "TrimRightSpace ?t = TrimRightSpace s"
      using False by (simp add: TrimRightSpace.simps [of s])
    moreover obtain u where "?t = TrimRightSpace ?t @ u" using "1" [OF False] by blast
    ultimately have "s = TrimRightSpace s @ (u @ drop (length s - back_space s) s)"
      by (metis append.assoc append_take_drop_id)
    then show ?thesis by blast
  qed
qed

lemma TrimSpace_set: "set (TrimSpace s) \<subseteq> set s"
proof -
  have "set (TrimLeftSpace t) \<subseteq> set t" for t
    using TrimLeftSpace_suffix [of t] by (metis set_append sup_ge2)
  moreover have "set (TrimRightSpace t) \<subseteq> set t" for t
    using TrimRightSpace_prefix [of t] by (metis set_append sup_ge1)
  ultimately show ?thesis unfolding TrimSpace_def by blast
qed

lemma byte_chr [simp]: "n < 256 \<Longrightarrow> byte (chr n) = n"
  by (simp add: take_bit_eq_mod)

lemma nat_digits_digits: "list_all is_digit (nat_digits n) \<and> nat_digits n \<noteq> []"
proof (induction n rule: nat_digits.induct)
  case (1 n)
  have d: "is_digit (chr (48 + k))" if "k < 10" for k
    using that by (simp add: is_digit_def)
  show ?case
    using "1" by (cases "n < 10") (auto simp: nat_digits.simps [of n] d)
qed

lemma digits_val_append: "digits_val a (s @ t) = digits_val (digits_val a s) t"
  by (induction s arbitrary: a) auto

lemma digits_val_nat_digits: "digits_val 0 (nat_digits n) = int n"
proof (induction n rule: nat_digits.induct)
  case (1 n)
  have "int (n div 10) * 10 + int (n mod 10) = int n" by presburger
  with "1" show ?case
    by (cases "n < 10") (auto simp: nat_digits.simps [of n] digits_val_append digit_val_def)
qed

text \<open>Printing a number and reading it back.\<close>

lemma Atoi_itoa:
  assumes "in64 n"
  shows "Atoi (itoa n) = Some n"
proof -
  have ne: "\<not> HasPrefix (nat_digits k) ''-'' \<and> \<not> HasPrefix (nat_digits k) ''+''" for k
    using nat_digits_digits [of k] by (cases "nat_digits k") (auto simp: is_digit_def)
  show ?thesis
    using assms ne nat_digits_digits
    by (cases "n < 0") (simp_all add: Atoi_def itoa_def Let_def digits_val_nat_digits)
qed

lemma itoa_inj: "in64 m \<Longrightarrow> in64 n \<Longrightarrow> itoa m = itoa n \<Longrightarrow> m = n"
  by (metis Atoi_itoa option.inject)

lemma itoa_ascii_digits: "0 \<le> n \<Longrightarrow> list_all is_digit (itoa n)"
  by (simp add: itoa_def nat_digits_digits)

end
