(* ===== verification/RateLimit.thy ===== *)
theory RateLimit
  imports GoString
begin

text \<open>
  The per-IP token bucket of \<open>internal/middleware/ratelimit.go\<close> (its HTTP wrapper is in
  \<open>Http\<close>). Tokens are \<open>float64\<close> values; clock readings are nanoseconds. \<open>Allow\<close> and
  the clean-up tick hold the mutex, so a run is a sequence of the two.
\<close>

section \<open>State and operations\<close>

record bucket =
  bk_tokens :: f64
  bk_lastSeen :: int

record rate_limiter =
  rl_visitors :: "string \<rightharpoonup> bucket"
  rl_rate :: f64
  rl_burst :: int
  rl_cleanup :: int

definition NewRateLimiter :: "f64 \<Rightarrow> int \<Rightarrow> rate_limiter" where
  "NewRateLimiter rate burst =
     \<lparr>rl_visitors = Map.empty, rl_rate = rate, rl_burst = burst, rl_cleanup = 180000000000\<rparr>"

definition rl_Allow :: "int \<Rightarrow> string \<Rightarrow> rate_limiter \<Rightarrow> bool \<times> rate_limiter" where
  "rl_Allow now ip rl =
     (case rl_visitors rl ip of
        None \<Rightarrow>
          (True, rl\<lparr>rl_visitors := (rl_visitors rl)(ip \<mapsto>
             \<lparr>bk_tokens = fsub (of_int64 (rl_burst rl)) (flit 1), bk_lastSeen = now\<rparr>)\<rparr>)
      | Some b \<Rightarrow>
          (let elapsed = duration_seconds (sat64 (now - bk_lastSeen b));
               t1 = fadd (bk_tokens b) (fmul elapsed (rl_rate rl));
               t2 = (if flt (of_int64 (rl_burst rl)) t1 then of_int64 (rl_burst rl) else t1);
               ok = fle (flit 1) t2;
               t3 = (if ok then fsub t2 (flit 1) else t2)
           in (ok, rl\<lparr>rl_visitors := (rl_visitors rl)(ip \<mapsto>
                 \<lparr>bk_tokens = t3, bk_lastSeen = now\<rparr>)\<rparr>)))"

text \<open>One tick of \<open>cleanupLoop\<close>.\<close>

definition rl_cleanup_tick :: "int \<Rightarrow> rate_limiter \<Rightarrow> rate_limiter" where
  "rl_cleanup_tick now rl =
     (let cutoff = now - rl_cleanup rl in
      rl\<lparr>rl_visitors := (\<lambda>ip. case rl_visitors rl ip of
           None \<Rightarrow> None
         | Some b \<Rightarrow> if bk_lastSeen b < cutoff then None else Some b)\<rparr>)"

section \<open>Runs\<close>

datatype rl_event = ReqFrom string int | CleanupAt int

fun rl_exec :: "rl_event \<Rightarrow> rate_limiter \<Rightarrow> rate_limiter" where
  "rl_exec (ReqFrom ip now) rl = snd (rl_Allow now ip rl)"
| "rl_exec (CleanupAt now) rl = rl_cleanup_tick now rl"

text \<open>The answers given to \<open>ip\<close> in a run.\<close>

fun rl_answers :: "string \<Rightarrow> rl_event list \<Rightarrow> rate_limiter \<Rightarrow> bool list" where
  "rl_answers ip [] rl = []"
| "rl_answers ip (CleanupAt now # es) rl = rl_answers ip es (rl_cleanup_tick now rl)"
| "rl_answers ip (ReqFrom jp now # es) rl =
     (let (ok, rl') = rl_Allow now jp rl in
      if jp = ip then ok # rl_answers ip es rl' else rl_answers ip es rl')"

fun ev_time :: "rl_event \<Rightarrow> int" where
  "ev_time (ReqFrom ip now) = now"
| "ev_time (CleanupAt now) = now"

text \<open>The states the limiter can be in at an instant, its clock never running backwards.\<close>

inductive rl_reachable :: "f64 \<Rightarrow> int \<Rightarrow> int \<Rightarrow> rate_limiter \<Rightarrow> bool" for rate burst where
  rl_init: "rl_reachable rate burst t (NewRateLimiter rate burst)"
| rl_step: "rl_reachable rate burst t rl \<Longrightarrow> t \<le> ev_time e
    \<Longrightarrow> rl_reachable rate burst (ev_time e) (rl_exec e rl)"


section \<open>Buckets stay within their bounds\<close>

definition rl_params_ok :: "f64 \<Rightarrow> int \<Rightarrow> bool" where
  "rl_params_ok rate burst \<longleftrightarrow> is_finite rate \<and> fle (Fin 0) rate \<and> 1 \<le> burst \<and> burst \<le> 2 ^ 53"

definition bucket_ok :: "int \<Rightarrow> int \<Rightarrow> bucket \<Rightarrow> bool" where
  "bucket_ok burst t b \<longleftrightarrow> is_finite (bk_tokens b) \<and> fle (Fin 0) (bk_tokens b)
     \<and> fle (bk_tokens b) (of_int64 burst) \<and> bk_lastSeen b \<le> t"

definition limiter_ok :: "f64 \<Rightarrow> int \<Rightarrow> int \<Rightarrow> rate_limiter \<Rightarrow> bool" where
  "limiter_ok rate burst t rl \<longleftrightarrow> rl_rate rl = rate \<and> rl_burst rl = burst
     \<and> (\<forall>ip b. rl_visitors rl ip = Some b \<longrightarrow> bucket_ok burst t b)"

lemma bucket_ok_later: "bucket_ok burst t b \<Longrightarrow> t \<le> t' \<Longrightarrow> bucket_ok burst t' b"
  by (simp add: bucket_ok_def)

lemma fmul_not_nan: "is_finite a \<Longrightarrow> is_finite b \<Longrightarrow> \<not> is_nan (fmul a b)"
  by (simp add: fmul_finite)

text \<open>The refill: never negative, never above the burst.\<close>

definition refill :: "int \<Rightarrow> f64 \<Rightarrow> int \<Rightarrow> f64 \<Rightarrow> f64" where
  "refill burst rate d tokens =
     (let t1 = fadd tokens (fmul (duration_seconds d) rate)
      in if flt (of_int64 burst) t1 then of_int64 burst else t1)"

lemma refill_bounds:
  assumes "rl_params_ok rate burst" and "0 \<le> d" and "in64 d"
    and "is_finite tokens" and "fle (Fin 0) tokens"
  shows "is_finite (refill burst rate d tokens) \<and> fle (Fin 0) (refill burst rate d tokens)
    \<and> fle (refill burst rate d tokens) (of_int64 burst)"
proof -
  let ?x = "fmul (duration_seconds d) rate" and ?B = "of_int64 burst"
  let ?t1 = "fadd tokens ?x"
  have p: "is_finite rate" "fle (Fin 0) rate" "1 \<le> burst" "burst \<le> 2 ^ 53"
    using assms(1) by (simp_all add: rl_params_ok_def)
  have d: "is_finite (duration_seconds d)" "fle (Fin 0) (duration_seconds d)"
    using duration_seconds_bounds [OF assms(2,3)] by simp_all
  have B: "?B = Fin (of_int burst)" using p by (simp add: of_int64_exact)
  have nn: "\<not> is_nan ?t1" using assms(4) fmul_not_nan [OF d(1) p(1)] by (rule fadd_not_nan)
  have pos: "fle (Fin 0) ?t1" using assms(5) fle_zero_fmul [OF d(2,1) p(2,1)] by (rule fle_zero_fadd)
  show ?thesis
  proof (cases "flt ?B ?t1")
    case True
    then show ?thesis using p B by (simp add: refill_def Let_def fle_def)
  next
    case False
    then have "fle ?t1 ?B" using nn B by (simp add: not_flt_iff)
    moreover from this have "is_finite ?t1"
      using fle_between_finite [OF pos, of ?B] B by simp
    ultimately show ?thesis using False pos by (simp add: refill_def Let_def)
  qed
qed

lemma rl_Allow_seen:
  assumes "rl_visitors rl ip = Some b"
  shows "rl_Allow now ip rl =
    (let t = refill (rl_burst rl) (rl_rate rl) (sat64 (now - bk_lastSeen b)) (bk_tokens b);
         ok = fle (Fin 1) t
     in (ok, rl\<lparr>rl_visitors := (rl_visitors rl)(ip \<mapsto>
          \<lparr>bk_tokens = (if ok then fsub t (flit 1) else t), bk_lastSeen = now\<rparr>)\<rparr>))"
  using assms by (simp add: rl_Allow_def refill_def Let_def flit_1)

lemma rl_Allow_new:
  assumes "rl_visitors rl ip = None"
  shows "rl_Allow now ip rl = (True, rl\<lparr>rl_visitors := (rl_visitors rl)(ip \<mapsto>
      \<lparr>bk_tokens = fsub (of_int64 (rl_burst rl)) (flit 1), bk_lastSeen = now\<rparr>)\<rparr>)"
  using assms by (simp add: rl_Allow_def)

lemma taken_bucket_ok:
  assumes "burst \<le> 2 ^ 53" and "1 \<le> burst" and "is_finite t" and "fle (Fin 1) t"
    and "fle t (of_int64 burst)"
  shows "bucket_ok burst now \<lparr>bk_tokens = fsub t (flit 1), bk_lastSeen = now\<rparr>"
proof -
  have le: "fle (fsub t (flit 1)) (of_int64 burst)"
    using assms by (intro fsub_one_le) simp_all
  have pos: "fle (Fin 0) (fsub t (flit 1))" using assms(4) by (rule fsub_one_nonneg)
  have "is_finite (of_int64 burst)" using assms by (simp add: of_int64_exact)
  then have "is_finite (fsub t (flit 1))" using fle_between_finite [OF pos le] by simp
  then show ?thesis using le pos by (simp add: bucket_ok_def)
qed

lemma rl_Allow_ok:
  assumes "rl_params_ok rate burst" and "limiter_ok rate burst t rl" and "t \<le> now"
  shows "limiter_ok rate burst now (snd (rl_Allow now ip rl))"
proof -
  have old: "bucket_ok burst now b" if "rl_visitors rl jp = Some b" for jp b
    using assms(2,3) that bucket_ok_later unfolding limiter_ok_def by blast
  have cfg: "rl_rate rl = rate" "rl_burst rl = burst" using assms(2) by (simp_all add: limiter_ok_def)
  have p: "1 \<le> burst" "burst \<le> 2 ^ 53" using assms(1) by (simp_all add: rl_params_ok_def)
  show ?thesis
  proof (cases "rl_visitors rl ip")
    case None
    have "bucket_ok burst now \<lparr>bk_tokens = fsub (of_int64 burst) (flit 1), bk_lastSeen = now\<rparr>"
      using p by (intro taken_bucket_ok) (simp_all add: of_int64_exact fle_def)
    with old show ?thesis by (auto simp: limiter_ok_def rl_Allow_new [OF None] cfg)
  next
    case (Some b)
    let ?d = "sat64 (now - bk_lastSeen b)"
    let ?t = "refill burst rate ?d (bk_tokens b)"
    have b: "is_finite (bk_tokens b)" "fle (Fin 0) (bk_tokens b)" "bk_lastSeen b \<le> now"
      using old [OF Some] by (simp_all add: bucket_ok_def)
    then have r: "is_finite ?t" "fle (Fin 0) ?t" "fle ?t (of_int64 burst)"
      using refill_bounds [OF assms(1), of ?d "bk_tokens b"] by simp_all
    have "bucket_ok burst now \<lparr>bk_tokens = (if fle (Fin 1) ?t then fsub ?t (flit 1) else ?t),
        bk_lastSeen = now\<rparr>"
      using r taken_bucket_ok [OF p(2,1) r(1) _ r(3)] by (auto simp: bucket_ok_def)
    with old show ?thesis by (auto simp: limiter_ok_def rl_Allow_seen [OF Some] cfg Let_def)
  qed
qed

lemma rl_cleanup_ok:
  assumes "limiter_ok rate burst t rl" and "t \<le> now"
  shows "limiter_ok rate burst now (rl_cleanup_tick now rl)"
  using assms bucket_ok_later
  by (fastforce simp: limiter_ok_def rl_cleanup_tick_def Let_def split: option.splits if_splits)

lemma rl_reachable_ok:
  assumes "rl_params_ok rate burst" and "rl_reachable rate burst t rl"
  shows "limiter_ok rate burst t rl"
  using assms(2)
proof (induction rule: rl_reachable.induct)
  case (rl_init t)
  then show ?case by (simp add: limiter_ok_def NewRateLimiter_def)
next
  case (rl_step t rl e)
  then show ?case using rl_Allow_ok [OF assms(1)] rl_cleanup_ok by (cases e) auto
qed

section \<open>A burst at one instant\<close>

lemma refill_now:
  assumes "rl_params_ok rate burst" and "0 \<le> n" and "n \<le> burst"
  shows "refill burst rate 0 (Fin (of_int n)) = Fin (of_int n)"
proof -
  have p: "is_finite rate" "burst \<le> 2 ^ 53" using assms(1) by (simp_all add: rl_params_ok_def)
  have z: "is_finite (fmul (Fin 0) rate)" "fval (fmul (Fin 0) rate) = 0"
    using p(1) by (simp_all add: fmul_finite fl_def)
  have "fadd (Fin (of_int n)) (fmul (Fin 0) rate) = fl False (of_int n)"
    using z by (simp add: fadd_finite)
  then have "fadd (Fin (of_int n)) (fmul (Fin 0) rate) = Fin (of_int n)"
    using of_int64_exact [of n] assms p(2) by (simp add: of_int64_def)
  then show ?thesis using assms p(2) by (simp add: refill_def of_int64_exact)
qed

text \<open>A bucket with \<open>n\<close> whole tokens, asked \<open>m\<close> times at the instant of its last refill.\<close>

lemma rl_answers_same_instant:
  assumes "rl_params_ok rate burst" and "0 \<le> n" and "n \<le> burst"
    and "rl_rate rl = rate" and "rl_burst rl = burst"
    and "rl_visitors rl ip = Some \<lparr>bk_tokens = Fin (of_int n), bk_lastSeen = t\<rparr>"
  shows "rl_answers ip (replicate m (ReqFrom ip t)) rl = map (\<lambda>k. int k < n) [0..<m]"
  using assms(2-)
proof (induction m arbitrary: n rl)
  case 0
  then show ?case by simp
next
  case (Suc m)
  have r: "refill burst rate (sat64 (t - t)) (Fin (of_int n)) = Fin (of_int n)"
    using refill_now [OF assms(1) Suc.prems(1,2)] by (simp add: sat64_def)
  have burst: "burst \<le> 2 ^ 53" using assms(1) by (simp add: rl_params_ok_def)
  define rl' where "rl' = snd (rl_Allow t ip rl)"
  have ans: "fst (rl_Allow t ip rl) = (0 < n)"
    and vis: "rl_visitors rl' ip = Some \<lparr>bk_tokens = Fin (of_int (if 0 < n then n - 1 else n)),
      bk_lastSeen = t\<rparr>"
    and cfg: "rl_rate rl' = rate" "rl_burst rl' = burst"
    using Suc.prems r burst fval_fsub_int [of "Fin (of_int n)" n "Fin 1" 1]
    by (auto simp: rl'_def rl_Allow_seen Let_def fle_def flit_1)
  have "rl_answers ip (replicate m (ReqFrom ip t)) rl'
      = map (\<lambda>k. int k < (if 0 < n then n - 1 else n)) [0..<m]"
    using Suc.prems cfg vis by (intro Suc.IH) auto
  also have "\<dots> = map (\<lambda>k. int (Suc k) < n) [0..<m]"
    using Suc.prems(1) by (intro map_cong) auto
  finally show ?case
    using ans Suc.prems(1)
    by (simp add: case_prod_beta rl'_def [symmetric] map_upt_Suc del: upt_Suc)
qed

section \<open>Isolation between addresses\<close>

definition concerns :: "string \<Rightarrow> rl_event \<Rightarrow> bool" where
  "concerns ip e = (case e of ReqFrom jp _ \<Rightarrow> jp = ip | CleanupAt _ \<Rightarrow> True)"

text \<open>Two limiters that agree on one address.\<close>

definition agree_on :: "string \<Rightarrow> rate_limiter \<Rightarrow> rate_limiter \<Rightarrow> bool" where
  "agree_on ip r1 r2 \<longleftrightarrow> rl_visitors r1 ip = rl_visitors r2 ip \<and> rl_rate r1 = rl_rate r2
     \<and> rl_burst r1 = rl_burst r2 \<and> rl_cleanup r1 = rl_cleanup r2"

lemma agree_on_other: "jp \<noteq> ip \<Longrightarrow> agree_on ip r1 r2 \<Longrightarrow> agree_on ip (snd (rl_Allow now jp r1)) r2"
  by (auto simp: agree_on_def rl_Allow_def Let_def split: option.splits)

lemma agree_on_self:
  "agree_on ip r1 r2 \<Longrightarrow> fst (rl_Allow now ip r1) = fst (rl_Allow now ip r2)
    \<and> agree_on ip (snd (rl_Allow now ip r1)) (snd (rl_Allow now ip r2))"
  by (auto simp: agree_on_def rl_Allow_def Let_def split: option.splits)

lemma agree_on_cleanup:
  "agree_on ip r1 r2 \<Longrightarrow> agree_on ip (rl_cleanup_tick now r1) (rl_cleanup_tick now r2)"
  by (simp add: agree_on_def rl_cleanup_tick_def Let_def)

lemma rl_answers_filter:
  "agree_on ip r1 r2 \<Longrightarrow> rl_answers ip es r1 = rl_answers ip (filter (concerns ip) es) r2"
proof (induction ip es r1 arbitrary: r2 rule: rl_answers.induct)
  case (1 ip rl)
  then show ?case by simp
next
  case (2 ip now es rl)
  then show ?case using agree_on_cleanup by (simp add: concerns_def)
next
  case (3 ip jp now es rl)
  obtain ok rl' where a: "rl_Allow now jp rl = (ok, rl')" by fastforce
  show ?case
  proof (cases "jp = ip")
    case True
    obtain ok2 r2' where b: "rl_Allow now ip r2 = (ok2, r2')" by fastforce
    have "ok = ok2" and "agree_on ip rl' r2'"
      using agree_on_self [OF "3.prems", of now] a b True by simp_all
    then show ?thesis using "3.IH"(1) [OF a [symmetric] _ True] a b True by (simp add: concerns_def)
  next
    case False
    have "agree_on ip rl' r2" using agree_on_other [OF False "3.prems", of now] a by simp
    then show ?thesis using "3.IH"(2) [OF a [symmetric] _ False] a False by (simp add: concerns_def)
  qed
qed

section \<open>Properties\<close>

text \<open>C16. In every state the limiter can reach, whatever the interleaving of requests and
  clean-ups, every bucket holds a finite number of tokens between 0 and the burst: rounding,
  overflow of the refill and repeated rejection never leave the bounds.\<close>

theorem limiter_tokens_bounded:
  assumes "rl_params_ok rate burst" and "rl_reachable rate burst t rl"
    and "rl_visitors rl ip = Some b"
  shows "is_finite (bk_tokens b) \<and> 0 \<le> fval (bk_tokens b) \<and> fval (bk_tokens b) \<le> of_int burst
    \<and> bk_lastSeen b \<le> t"
proof -
  have "bucket_ok burst t b"
    using rl_reachable_ok [OF assms(1,2)] assms(3) by (auto simp: limiter_ok_def)
  moreover have "of_int64 burst = Fin (of_int burst)"
    using assms(1) by (simp add: rl_params_ok_def of_int64_exact)
  ultimately show ?thesis by (auto simp: bucket_ok_def fle_fval)
qed

theorem limiter_tokens_bounded_witness:
  "is_finite (bk_tokens (the (rl_visitors
     (rl_exec (ReqFrom ''a'' 5) (NewRateLimiter (Fin 2) 5)) ''a'')))"
proof -
  have p: "rl_params_ok (Fin 2) 5" by (simp add: rl_params_ok_def fle_def)
  have r: "rl_reachable (Fin 2) 5 5 (rl_exec (ReqFrom ''a'' 5) (NewRateLimiter (Fin 2) 5))"
    using rl_step [OF rl_init [of "Fin 2" 5 0], of "ReqFrom ''a'' 5"] by simp
  have "rl_visitors (rl_exec (ReqFrom ''a'' 5) (NewRateLimiter (Fin 2) 5)) ''a''
      = Some \<lparr>bk_tokens = fsub (of_int64 5) (flit 1), bk_lastSeen = 5\<rparr>"
    by (simp add: rl_Allow_def NewRateLimiter_def)
  from limiter_tokens_bounded [OF p r this] this show ?thesis by simp
qed

text \<open>A new client that sends \<open>m\<close> requests at one instant gets exactly its burst: the
  first \<open>burst\<close> of them are admitted and every later one is refused.\<close>

theorem limiter_burst_exact:
  assumes "rl_params_ok rate burst"
  shows "rl_answers ip (replicate m (ReqFrom ip t)) (NewRateLimiter rate burst)
    = map (\<lambda>k. int k < burst) [0..<m]"
proof (cases m)
  case (Suc n)
  define rl' where "rl' = snd (rl_Allow t ip (NewRateLimiter rate burst))"
  have p: "1 \<le> burst" "burst \<le> 2 ^ 53" using assms by (simp_all add: rl_params_ok_def)
  have "fsub (of_int64 burst) (flit 1) = Fin (of_int (burst - 1))"
    using fval_fsub_int [of "of_int64 burst" burst "flit 1" 1] p
    by (simp add: of_int64_exact flit_1)
  then have "rl_answers ip (replicate n (ReqFrom ip t)) rl' = map (\<lambda>k. int k < burst - 1) [0..<n]"
    using p by (intro rl_answers_same_instant [OF assms])
      (simp_all add: rl'_def rl_Allow_def NewRateLimiter_def)
  moreover have "fst (rl_Allow t ip (NewRateLimiter rate burst))"
    by (simp add: rl_Allow_def NewRateLimiter_def)
  ultimately show ?thesis
    using Suc p by (simp add: case_prod_beta rl'_def [symmetric] map_upt_Suc algebra_simps del: upt_Suc)
qed simp

theorem limiter_burst_exact_witness:
  "rl_answers ''a'' (replicate 4 (ReqFrom ''a'' 7)) (NewRateLimiter (Fin 1) 3)
    = [True, True, True, False]"
proof -
  have "rl_params_ok (Fin 1) 3" by (simp add: rl_params_ok_def fle_def)
  from limiter_burst_exact [OF this, of "''a''" 4 7] show ?thesis by (simp add: upt_rec)
qed

text \<open>C12. Addresses are isolated: the answers an address gets in a run with any other
  traffic are those it gets when only its own requests and the clean-ups happen.\<close>

theorem limiter_isolation:
  "rl_answers ip es rl = rl_answers ip (filter (concerns ip) es) rl"
  by (rule rl_answers_filter) (simp add: agree_on_def)

text \<open>A refused client is let in again: once the time since its last request is worth
  at least one token at the configured rate, its next request is admitted.\<close>

theorem limiter_readmits:
  assumes "rl_params_ok rate burst" and "rl_reachable rate burst t rl" and "t \<le> now"
    and "rl_visitors rl ip = Some b"
    and "fle (Fin 1) (fmul (duration_seconds (sat64 (now - bk_lastSeen b))) rate)"
  shows "fst (rl_Allow now ip rl)"
proof -
  let ?d = "sat64 (now - bk_lastSeen b)"
  let ?x = "fmul (duration_seconds ?d) rate"
  have ok: "limiter_ok rate burst t rl" using assms(1,2) by (rule rl_reachable_ok)
  then have b: "is_finite (bk_tokens b)" "fle (Fin 0) (bk_tokens b)"
    using assms(4) by (auto simp: limiter_ok_def bucket_ok_def)
  have B: "of_int64 burst = Fin (of_int burst)" "1 \<le> burst"
    using assms(1) by (simp_all add: rl_params_ok_def of_int64_exact)
  have "fle (fl False 1) (fl False (fval (bk_tokens b) + fval ?x))" if "is_finite ?x"
    using b assms(5) that by (intro fl_mono) (simp add: fle_fval)
  then have one: "fle (Fin 1) (fadd (bk_tokens b) ?x)"
    using b assms(5) flit_1 by (cases ?x; cases "bk_tokens b") (auto simp: fadd_def fle_def flit_def)
  then have "fle (Fin 1) (refill burst rate ?d (bk_tokens b))"
    using B by (simp add: refill_def Let_def fle_def)
  then show ?thesis
    using ok by (simp add: rl_Allow_seen [OF assms(4)] Let_def limiter_ok_def)
qed

theorem limiter_readmits_witness:
  "fst (rl_Allow 2000000000 ''a'' (rl_exec (ReqFrom ''a'' 0) (NewRateLimiter (Fin 1) 1)))"
proof -
  have p: "rl_params_ok (Fin 1) 1" by (simp add: rl_params_ok_def fle_def)
  have r: "rl_reachable (Fin 1) 1 0 (rl_exec (ReqFrom ''a'' 0) (NewRateLimiter (Fin 1) 1))"
    using rl_step [OF rl_init [of "Fin 1" 1 0], of "ReqFrom ''a'' 0"] by simp
  have v: "rl_visitors (rl_exec (ReqFrom ''a'' 0) (NewRateLimiter (Fin 1) 1)) ''a''
      = Some \<lparr>bk_tokens = fsub (of_int64 1) (flit 1), bk_lastSeen = 0\<rparr>"
    by (simp add: rl_Allow_def NewRateLimiter_def)
  have "fle (Fin 1) (fmul (duration_seconds (sat64 (2000000000 - 0))) (Fin 1))"
    by code_simp
  with v show ?thesis by (intro limiter_readmits [OF p r _ v]) simp_all
qed

end
