(* ===== verification/WireFormat.thy ===== *)
theory WireFormat
  imports GoString
begin

unbundle bit_operations_syntax

text \<open>
  The protobuf decoder of \<open>internal/remotewrite/handler.go\<close>: varints and tags, the field
  skipper and the four message loops (label, sample, time series, write request). Bytes are
  \<open>8 word\<close>, varints \<open>64 word\<close>. A slice expression whose bounds are out of range is
  \<open>Panic\<close>. The loops share the contract \<open>field_loop\<close>, in which the facts about
  concatenated messages are proved once.
\<close>

type_synonym bytes = "8 word list"

section \<open>Varints, tags and skipping\<close>

fun decodeVarint_from :: "nat \<Rightarrow> 64 word \<Rightarrow> nat \<Rightarrow> bytes \<Rightarrow> 64 word \<times> nat" where
  "decodeVarint_from i x s [] = (0, 0)"
| "decodeVarint_from i x s (b # data) =
     (if 10 \<le> i then (0, 0)
      else if b < 0x80 then (x OR push_bit s (ucast b), i + 1)
      else decodeVarint_from (i + 1) (x OR push_bit s (ucast (b AND 0x7f))) (s + 7) data)"

definition decodeVarint :: "bytes \<Rightarrow> 64 word \<times> nat" where
  "decodeVarint data = decodeVarint_from 0 0 0 data"

text \<open>The field number, the wire type and the number of bytes read.\<close>

definition decodeTag :: "bytes \<Rightarrow> int \<times> int \<times> nat" where
  "decodeTag data =
     (let (v, n) = decodeVarint data in
      if n = 0 then (0, 0, 0) else (uint (drop_bit 3 v), uint (v AND 7), n))"

definition skipField :: "int \<Rightarrow> bytes \<Rightarrow> int outcome" where
  "skipField wireType data =
     (if wireType = 0 then
        (let (v, n) = decodeVarint data in
         if n = 0 then Err ''invalid varint skip'' else Ok (int n))
      else if wireType = 1 then
        (if length data < 8 then Err ''truncated fixed64'' else Ok 8)
      else if wireType = 2 then
        (let (l, n) = decodeVarint data in
         if n = 0 then Err ''invalid length skip'' else Ok (wrap64 (int n + sint l)))
      else if wireType = 5 then
        (if length data < 4 then Err ''truncated fixed32'' else Ok 4)
      else Err (''unknown wire type '' @ itoa wireType))"

text \<open>\<open>data[k:]\<close> and \<open>data[:k]\<close>; the second is read with an unsigned bound.\<close>

definition slice_from :: "int \<Rightarrow> bytes \<Rightarrow> bytes outcome" where
  "slice_from k data = (if 0 \<le> k \<and> k \<le> int (length data) then Ok (drop (nat k) data) else Panic)"

definition skip_step :: "int \<Rightarrow> bytes \<Rightarrow> bytes outcome" where
  "skip_step wireType data = bind_outcome (skipField wireType data) (\<lambda>k. slice_from k data)"

text \<open>
  The code every message loop starts a length-delimited field with: read the length, check
  it as a signed number, cut the payload with it as an unsigned one. The two error texts
  are those of the loop.
\<close>

definition read_delimited :: "string \<Rightarrow> string \<Rightarrow> bytes \<Rightarrow> (bytes \<times> bytes) outcome" where
  "read_delimited bad_len short data =
     (let (msgLen, n) = decodeVarint data in
      if n = 0 then Err bad_len
      else let data = drop n data in
        if sint msgLen > int (length data) then Err short
        else if uint msgLen > int (length data) then Panic
        else Ok (take (unat msgLen) data, drop (unat msgLen) data))"

section \<open>Messages\<close>

record prSample =
  TimestampMs :: int
  SampleValue :: f64

record prLabel =
  LabelName :: string
  LabelValue :: string

record prTimeSeries =
  Labels :: "prLabel list"
  Samples :: "prSample list"

definition bytes_to_string :: "bytes \<Rightarrow> string" where
  "bytes_to_string = map (\<lambda>b. chr (unat b))"

fun le_uint64 :: "bytes \<Rightarrow> 64 word" where
  "le_uint64 [] = 0"
| "le_uint64 (b # bs) = ucast b OR push_bit 8 (le_uint64 bs)"

text \<open>Each loop body is a step: the message so far and the bytes left.\<close>

definition label_step :: "prLabel \<Rightarrow> bytes \<Rightarrow> (prLabel \<times> bytes) outcome" where
  "label_step l data =
     (let (fieldNum, wireType, n) = decodeTag data in
      if n = 0 then Err ''invalid tag in label''
      else let data = drop n data in
        if wireType = 2 then
          bind_outcome (read_delimited ''invalid string length'' ''truncated string'' data)
            (\<lambda>(payload, rest).
              Ok (if fieldNum = 1 then l\<lparr>LabelName := bytes_to_string payload\<rparr>
                  else if fieldNum = 2 then l\<lparr>LabelValue := bytes_to_string payload\<rparr>
                  else l, rest))
        else bind_outcome (skip_step wireType data) (\<lambda>rest. Ok (l, rest)))"

definition sample_step :: "prSample \<Rightarrow> bytes \<Rightarrow> (prSample \<times> bytes) outcome" where
  "sample_step s data =
     (let (fieldNum, wireType, n) = decodeTag data in
      if n = 0 then Err ''invalid tag in sample''
      else let data = drop n data in
        if fieldNum = 1 \<and> wireType = 1 then
          (if length data < 8 then Err ''truncated double''
           else Ok (s\<lparr>SampleValue := Float64frombits (le_uint64 (take 8 data))\<rparr>, drop 8 data))
        else if fieldNum = 2 \<and> wireType = 0 then
          (let (v, n) = decodeVarint data in
           if n = 0 then Err ''invalid varint for timestamp''
           else Ok (s\<lparr>TimestampMs := sint v\<rparr>, drop n data))
        else bind_outcome (skip_step wireType data) (\<lambda>rest. Ok (s, rest)))"

lemma decodeVarint_from_bound:
  "decodeVarint_from i x s data = (v, n) \<Longrightarrow> n = 0 \<or> (i < n \<and> n \<le> i + length data \<and> n \<le> 10)"
  by (induction i x s data rule: decodeVarint_from.induct) (fastforce split: if_splits)+

lemma decodeVarint_bound: "decodeVarint data = (v, n) \<Longrightarrow> n \<le> length data \<and> n \<le> 10"
  using decodeVarint_from_bound [of 0 0 0 data v n] by (auto simp: decodeVarint_def)

lemma decodeTag_bound: "decodeTag data = (f, w, n) \<Longrightarrow> n \<le> length data"
  by (auto simp: decodeTag_def split: prod.splits if_splits dest: decodeVarint_bound)

lemma slice_from_length [outcome_simps]:
  "slice_from k data = Ok rest \<Longrightarrow> length rest \<le> length data"
  by (auto simp: slice_from_def split: if_splits)

lemma skip_step_length: "skip_step w data = Ok rest \<Longrightarrow> length rest \<le> length data"
  by (auto simp: skip_step_def outcome_simps)

lemma read_delimited_length:
  "read_delimited e1 e2 data = Ok (p, rest) \<Longrightarrow> length rest \<le> length data"
  by (auto simp: read_delimited_def Let_def split: prod.splits if_splits)

text \<open>Whatever follows it, a tag consumes at least one byte: every loop makes progress.\<close>

lemma after_tag_length:
  assumes "decodeTag data = (f, w, n)" and "n \<noteq> 0" and "length rest \<le> length (drop n data)"
  shows "length rest < length data"
  using assms decodeTag_bound [OF assms(1)] by simp

lemma label_step_progress: "label_step l data = Ok (l', rest) \<Longrightarrow> length rest < length data"
  by (auto simp: label_step_def Let_def outcome_simps split: prod.splits if_splits
      dest!: read_delimited_length skip_step_length intro: after_tag_length)

lemma sample_step_progress: "sample_step s data = Ok (s', rest) \<Longrightarrow> length rest < length data"
  by (auto simp: sample_step_def Let_def outcome_simps split: prod.splits if_splits
      dest!: skip_step_length intro: after_tag_length)

function label_loop :: "prLabel \<Rightarrow> bytes \<Rightarrow> prLabel outcome" where
  "label_loop l data =
     (if data = [] then Ok l
      else case label_step l data of
        Ok (l', rest) \<Rightarrow> label_loop l' rest | Err e \<Rightarrow> Err e | Panic \<Rightarrow> Panic)"
  by pat_completeness auto
termination
  by (relation "measure (\<lambda>(l, data). length data)") (auto dest: label_step_progress)

function sample_loop :: "prSample \<Rightarrow> bytes \<Rightarrow> prSample outcome" where
  "sample_loop s data =
     (if data = [] then Ok s
      else case sample_step s data of
        Ok (s', rest) \<Rightarrow> sample_loop s' rest | Err e \<Rightarrow> Err e | Panic \<Rightarrow> Panic)"
  by pat_completeness auto
termination
  by (relation "measure (\<lambda>(s, data). length data)") (auto dest: sample_step_progress)

definition parseLabel :: "bytes \<Rightarrow> prLabel outcome" where
  "parseLabel data = label_loop \<lparr>LabelName = [], LabelValue = []\<rparr> data"

definition parseSample :: "bytes \<Rightarrow> prSample outcome" where
  "parseSample data = sample_loop \<lparr>TimestampMs = 0, SampleValue = Fin 0\<rparr> data"

definition series_step :: "prTimeSeries \<Rightarrow> bytes \<Rightarrow> (prTimeSeries \<times> bytes) outcome" where
  "series_step ts data =
     (let (fieldNum, wireType, n) = decodeTag data in
      if n = 0 then Err ''invalid tag in timeseries''
      else let data = drop n data in
        if wireType = 2 then
          bind_outcome (read_delimited ''invalid length in timeseries''
              ''truncated timeseries field'' data)
            (\<lambda>(payload, rest).
              if fieldNum = 1 then
                bind_outcome (parseLabel payload)
                  (\<lambda>l. Ok (ts\<lparr>Labels := Labels ts @ [l]\<rparr>, rest))
              else if fieldNum = 2 then
                bind_outcome (parseSample payload)
                  (\<lambda>s. Ok (ts\<lparr>Samples := Samples ts @ [s]\<rparr>, rest))
              else Ok (ts, rest))
        else bind_outcome (skip_step wireType data) (\<lambda>rest. Ok (ts, rest)))"

lemma series_step_progress: "series_step ts data = Ok (ts', rest) \<Longrightarrow> length rest < length data"
  by (auto simp: series_step_def Let_def outcome_simps split: prod.splits if_splits
      dest!: read_delimited_length skip_step_length intro: after_tag_length)

function series_loop :: "prTimeSeries \<Rightarrow> bytes \<Rightarrow> prTimeSeries outcome" where
  "series_loop ts data =
     (if data = [] then Ok ts
      else case series_step ts data of
        Ok (ts', rest) \<Rightarrow> series_loop ts' rest | Err e \<Rightarrow> Err e | Panic \<Rightarrow> Panic)"
  by pat_completeness auto
termination
  by (relation "measure (\<lambda>(ts, data). length data)") (auto dest: series_step_progress)

definition parseTimeSeries :: "bytes \<Rightarrow> prTimeSeries outcome" where
  "parseTimeSeries data = series_loop \<lparr>Labels = [], Samples = []\<rparr> data"

definition request_step :: "prTimeSeries list \<Rightarrow> bytes \<Rightarrow> (prTimeSeries list \<times> bytes) outcome" where
  "request_step result data =
     (let (fieldNum, wireType, n) = decodeTag data in
      if n = 0 then Err ''invalid tag''
      else let data = drop n data in
        if fieldNum = 1 \<and> wireType = 2 then
          bind_outcome (read_delimited ''invalid length'' ''truncated message'' data)
            (\<lambda>(payload, rest).
              bind_outcome (parseTimeSeries payload) (\<lambda>ts. Ok (result @ [ts], rest)))
        else bind_outcome (skip_step wireType data) (\<lambda>rest. Ok (result, rest)))"

lemma request_step_progress: "request_step r data = Ok (r', rest) \<Longrightarrow> length rest < length data"
  by (auto simp: request_step_def Let_def outcome_simps split: prod.splits if_splits
      dest!: read_delimited_length skip_step_length intro: after_tag_length)

function request_loop :: "prTimeSeries list \<Rightarrow> bytes \<Rightarrow> prTimeSeries list outcome" where
  "request_loop result data =
     (if data = [] then Ok result
      else case request_step result data of
        Ok (result', rest) \<Rightarrow> request_loop result' rest | Err e \<Rightarrow> Err e | Panic \<Rightarrow> Panic)"
  by pat_completeness auto
termination
  by (relation "measure (\<lambda>(r, data). length data)") (auto dest: request_step_progress)

definition parseWriteRequest :: "bytes \<Rightarrow> prTimeSeries list outcome" where
  "parseWriteRequest data = request_loop [] data"

declare label_loop.simps [simp del] sample_loop.simps [simp del]
  series_loop.simps [simp del] request_loop.simps [simp del]

section \<open>The contract of the message loops\<close>

text \<open>
  A message loop runs a step until no byte is left. The step consumes a non-empty prefix
  and does not look behind it: bytes appended to the input are passed through.
\<close>

locale field_loop =
  fixes step :: "'s \<Rightarrow> bytes \<Rightarrow> ('s \<times> bytes) outcome"
    and loop :: "'s \<Rightarrow> bytes \<Rightarrow> 's outcome"
  assumes loop_unfold: "loop st data =
      (if data = [] then Ok st
       else case step st data of
         Ok (st', rest) \<Rightarrow> loop st' rest | Err e \<Rightarrow> Err e | Panic \<Rightarrow> Panic)"
    and progress: "step st data = Ok (st', rest) \<Longrightarrow> length rest < length data"
    and stable: "step st data = Ok (st', rest) \<Longrightarrow> step st (data @ post) = Ok (st', rest @ post)"
begin

lemma loop_Nil [simp]: "loop st [] = Ok st"
  by (simp add: loop_unfold)

lemma loop_step: "step st data = Ok (st', rest) \<Longrightarrow> loop st data = loop st' rest"
  using progress [of st data st' rest] by (auto simp: loop_unfold [of st data])

lemma loop_OkE:
  assumes "loop st data = Ok r" and "data \<noteq> []"
  obtains st' rest where "step st data = Ok (st', rest)" and "loop st' rest = Ok r"
  using assms by (cases "step st data") (auto simp: loop_unfold [of st data])

text \<open>A message followed by a message: the second goes on where the first stopped.\<close>

lemma loop_append: "loop st a = Ok st' \<Longrightarrow> loop st (a @ b) = loop st' b"
proof (induction "length a" arbitrary: st a rule: less_induct)
  case less
  show ?case
  proof (cases "a = []")
    case True
    with less.prems show ?thesis by simp
  next
    case False
    then obtain u rest where u: "step st a = Ok (u, rest)" and l: "loop u rest = Ok st'"
      using loop_OkE [OF less.prems] by blast
    have "loop st (a @ b) = loop u (rest @ b)" by (rule loop_step [OF stable [OF u]])
    also have "\<dots> = loop st' b" using progress [OF u] l by (rule less.hyps)
    finally show ?thesis .
  qed
qed

text \<open>A sequence of encoded fields is read field by field.\<close>

lemma loop_fields:
  assumes "\<And>f st rest. f \<in> set fs \<Longrightarrow> step st (enc f @ rest) = Ok (upd f st, rest)"
  shows "loop st (concat (map enc fs)) = Ok (fold upd fs st)"
  using assms
proof (induction fs arbitrary: st)
  case Nil
  then show ?case by simp
next
  case (Cons f fs)
  have "loop st (concat (map enc (f # fs))) = loop (upd f st) (concat (map enc fs))"
    using Cons.prems [of f] by (simp add: loop_step)
  with Cons show ?case by simp
qed

end

text \<open>A loop that only appends to a list of results.\<close>

locale accumulating_loop = field_loop step loop
  for step :: "'a list \<Rightarrow> bytes \<Rightarrow> ('a list \<times> bytes) outcome"
    and loop :: "'a list \<Rightarrow> bytes \<Rightarrow> 'a list outcome" +
  assumes shift: "step xs data =
      (case step [] data of Ok (ys, rest) \<Rightarrow> Ok (xs @ ys, rest) | Err e \<Rightarrow> Err e | Panic \<Rightarrow> Panic)"
begin

lemma loop_shift:
  "loop xs data = (case loop [] data of Ok ys \<Rightarrow> Ok (xs @ ys) | Err e \<Rightarrow> Err e | Panic \<Rightarrow> Panic)"
proof (induction "length data" arbitrary: data xs rule: less_induct)
  case less
  show ?case
  proof (cases "data = []")
    case False
    show ?thesis
    proof (cases "step [] data")
      case (Ok r)
      then obtain zs rest where z: "step [] data = Ok (zs, rest)" by (cases r) auto
      then have "step xs data = Ok (xs @ zs, rest)" using shift [of xs data] by simp
      then show ?thesis
        using less.hyps [OF progress [OF z], of zs] less.hyps [OF progress [OF z], of "xs @ zs"] z
        by (simp add: loop_step split: outcome.splits)
    qed (use False shift [of xs data] in \<open>simp_all add: loop_unfold [of _ data]\<close>)
  qed simp
qed

end


lemma bind_outcome_case:
  "bind_outcome m f = (case m of Ok x \<Rightarrow> f x | Err e \<Rightarrow> Err e | Panic \<Rightarrow> Panic)"
  by (cases m) auto

section \<open>The four loops satisfy the contract\<close>

lemma decodeVarint_from_stable:
  "decodeVarint_from i x s data = (v, n) \<Longrightarrow> n \<noteq> 0 \<Longrightarrow> decodeVarint_from i x s (data @ post) = (v, n)"
  by (induction i x s data rule: decodeVarint_from.induct) (auto split: if_splits)

lemma decodeVarint_stable:
  "decodeVarint data = (v, n) \<Longrightarrow> n \<noteq> 0 \<Longrightarrow> decodeVarint (data @ post) = (v, n)"
  by (simp add: decodeVarint_def decodeVarint_from_stable)

lemma decodeTag_stable:
  "decodeTag data = (f, w, n) \<Longrightarrow> n \<noteq> 0
    \<Longrightarrow> decodeTag (data @ post) = (f, w, n) \<and> drop n (data @ post) = drop n data @ post"
  using decodeTag_bound [of data f w n]
  by (auto simp: decodeTag_def split: prod.splits if_splits dest: decodeVarint_stable [of _ _ _ post])

lemma read_delimited_OkD:
  assumes "read_delimited e1 e2 data = Ok (p, rest)"
  obtains v n where "decodeVarint data = (v, n)" and "n \<noteq> 0" and "n \<le> length data"
    and "sint v \<le> int (length (drop n data))" and "uint v \<le> int (length (drop n data))"
    and "p = take (unat v) (drop n data)" and "rest = drop (unat v) (drop n data)"
proof -
  obtain v n where vn: "decodeVarint data = (v, n)" by fastforce
  from assms vn decodeVarint_bound [OF vn] show ?thesis
    by (intro that [of v n]) (auto simp: read_delimited_def Let_def not_less split: if_splits)
qed

lemma read_delimited_OkI:
  assumes "decodeVarint data = (v, n)" and "n \<noteq> 0"
    and "sint v \<le> int (length (drop n data))" and "uint v \<le> int (length (drop n data))"
  shows "read_delimited e1 e2 data = Ok (take (unat v) (drop n data), drop (unat v) (drop n data))"
  using assms by (simp add: read_delimited_def Let_def not_less)

lemma read_delimited_stable:
  assumes "read_delimited e1 e2 data = Ok (p, rest)"
  shows "read_delimited e1 e2 (data @ post) = Ok (p, rest @ post)"
proof -
  obtain v n where v: "decodeVarint data = (v, n)" "n \<noteq> 0" "n \<le> length data"
    and l: "sint v \<le> int (length (drop n data))" "uint v \<le> int (length (drop n data))"
    and pr: "p = take (unat v) (drop n data)" "rest = drop (unat v) (drop n data)"
    using assms by (rule read_delimited_OkD)
  have d: "drop n (data @ post) = drop n data @ post" using v(3) by simp
  have "int (unat v) \<le> int (length (drop n data))" using l(2) by simp
  then have "unat v \<le> length (drop n data)" by (simp only: of_nat_le_iff)
  then have t: "take (unat v) (drop n data @ post) = p" "drop (unat v) (drop n data @ post) = rest @ post"
    unfolding pr by (simp_all only: take_append drop_append diff_is_0_eq' take_0 drop_0 append_Nil2)
  have "read_delimited e1 e2 (data @ post) = Ok (take (unat v) (drop n (data @ post)),
      drop (unat v) (drop n (data @ post)))"
  proof (rule read_delimited_OkI)
    show "decodeVarint (data @ post) = (v, n)" using v(1,2) by (rule decodeVarint_stable)
    show "sint v \<le> int (length (drop n (data @ post)))" "uint v \<le> int (length (drop n (data @ post)))"
      unfolding d length_append using l by linarith+
  qed (rule v(2))
  then show ?thesis by (simp only: d t)
qed

lemma skip_step_stable:
  assumes "skip_step w data = Ok rest"
  shows "skip_step w (data @ post) = Ok (rest @ post)"
proof -
  obtain k where k: "skipField w data = Ok k" and s: "slice_from k data = Ok rest"
    using assms by (auto simp: skip_step_def outcome_simps)
  then have "slice_from k (data @ post) = Ok (rest @ post)"
    by (auto simp: slice_from_def split: if_splits)
  moreover have "skipField w (data @ post) = Ok k"
    using k by (auto simp: skipField_def Let_def split: if_splits prod.splits
        dest: decodeVarint_stable [of data _ _ post])
  ultimately show ?thesis by (simp add: skip_step_def)
qed

text \<open>The proof that a loop body does not look behind what it consumes, once for all four.\<close>

lemmas stable_intros = read_delimited_stable skip_step_stable

lemma label_step_stable:
  assumes "label_step l data = Ok (l', rest)"
  shows "label_step l (data @ post) = Ok (l', rest @ post)"
proof -
  obtain f w n where t: "decodeTag data = (f, w, n)" by (cases "decodeTag data")
  then have n: "n \<noteq> 0" using assms by (auto simp: label_step_def split: if_splits)
  from decodeTag_stable [OF t n, of post] show ?thesis
    using assms t n
    by (auto simp: label_step_def Let_def outcome_simps stable_intros simp del: drop_append
        split: if_splits prod.splits intro!: exI)
qed

lemma sample_step_stable:
  assumes "sample_step s data = Ok (s', rest)"
  shows "sample_step s (data @ post) = Ok (s', rest @ post)"
proof -
  obtain f w n where t: "decodeTag data = (f, w, n)" by (cases "decodeTag data")
  then have n: "n \<noteq> 0" using assms by (auto simp: sample_step_def split: if_splits)
  have v: "decodeVarint (drop n data @ post) = (v, k) \<and> drop k (drop n data @ post) = drop k (drop n data) @ post"
    if "decodeVarint (drop n data) = (v, k)" "k \<noteq> 0" for v k
    using decodeVarint_stable [OF that] decodeVarint_bound [OF that(1)] by simp
  have d: "take 8 (drop n data @ post) = take 8 (drop n data)
      \<and> drop 8 (drop n data @ post) = drop 8 (drop n data) @ post" if "8 \<le> length (drop n data)"
    using that by simp
  from decodeTag_stable [OF t n, of post] show ?thesis
    using assms t n d
    by (auto simp: sample_step_def Let_def outcome_simps stable_intros v simp del: drop_append drop_drop
        split: if_splits prod.splits)
qed

lemma series_step_stable:
  assumes "series_step ts data = Ok (ts', rest)"
  shows "series_step ts (data @ post) = Ok (ts', rest @ post)"
proof -
  obtain f w n where t: "decodeTag data = (f, w, n)" by (cases "decodeTag data")
  then have n: "n \<noteq> 0" using assms by (auto simp: series_step_def split: if_splits)
  from decodeTag_stable [OF t n, of post] show ?thesis
    using assms t n
    by (auto simp: series_step_def Let_def outcome_simps stable_intros simp del: drop_append
        split: if_splits prod.splits intro!: exI)
qed

lemma request_step_stable:
  assumes "request_step r data = Ok (r', rest)"
  shows "request_step r (data @ post) = Ok (r', rest @ post)"
proof -
  obtain f w n where t: "decodeTag data = (f, w, n)" by (cases "decodeTag data")
  then have n: "n \<noteq> 0" using assms by (auto simp: request_step_def split: if_splits)
  from decodeTag_stable [OF t n, of post] show ?thesis
    using assms t n
    by (auto simp: request_step_def Let_def outcome_simps stable_intros simp del: drop_append
        split: if_splits prod.splits)
qed

interpretation lab: field_loop label_step label_loop
proof unfold_locales
  show "label_loop st data = (if data = [] then Ok st else case label_step st data of
      Ok (st', rest) \<Rightarrow> label_loop st' rest | Err e \<Rightarrow> Err e | Panic \<Rightarrow> Panic)" for st data
    by (rule label_loop.simps)
qed (rule label_step_progress label_step_stable, assumption)+

interpretation smp: field_loop sample_step sample_loop
proof unfold_locales
  show "sample_loop st data = (if data = [] then Ok st else case sample_step st data of
      Ok (st', rest) \<Rightarrow> sample_loop st' rest | Err e \<Rightarrow> Err e | Panic \<Rightarrow> Panic)" for st data
    by (rule sample_loop.simps)
qed (rule sample_step_progress sample_step_stable, assumption)+

interpretation ser: field_loop series_step series_loop
proof unfold_locales
  show "series_loop st data = (if data = [] then Ok st else case series_step st data of
      Ok (st', rest) \<Rightarrow> series_loop st' rest | Err e \<Rightarrow> Err e | Panic \<Rightarrow> Panic)" for st data
    by (rule series_loop.simps)
qed (rule series_step_progress series_step_stable, assumption)+

interpretation req: accumulating_loop request_step request_loop
proof unfold_locales
  show "request_loop st data = (if data = [] then Ok st else case request_step st data of
      Ok (st', rest) \<Rightarrow> request_loop st' rest | Err e \<Rightarrow> Err e | Panic \<Rightarrow> Panic)" for st data
    by (rule request_loop.simps)
  show "request_step xs data = (case request_step [] data of
      Ok (ys, rest) \<Rightarrow> Ok (xs @ ys, rest) | Err e \<Rightarrow> Err e | Panic \<Rightarrow> Panic)" for xs data
    by (simp add: request_step_def Let_def bind_outcome_case split: prod.splits outcome.splits)
qed (rule request_step_progress request_step_stable, assumption)+

section \<open>The encoding the decoder is for\<close>

text \<open>The protobuf wire format, as a sender produces it (the tests build payloads this way).\<close>

function enc_varint :: "64 word \<Rightarrow> bytes" where
  "enc_varint v = (if v < 0x80 then [ucast v] else (ucast v OR 0x80) # enc_varint (drop_bit 7 v))"
  by pat_completeness auto
termination
proof (relation "measure unat", goal_cases)
  case (2 v)
  then have "128 \<le> unat v" by (simp add: word_le_nat_alt not_less)
  then show ?case by (simp add: unat_drop_bit_eq) (simp add: drop_bit_eq_div)
qed simp

declare enc_varint.simps [simp del]

definition enc_tag :: "int \<Rightarrow> int \<Rightarrow> bytes" where
  "enc_tag f w = enc_varint (word_of_int (8 * f + w))"

definition enc_delim :: "int \<Rightarrow> bytes \<Rightarrow> bytes" where
  "enc_delim f payload = enc_tag f 2 @ enc_varint (of_nat (length payload)) @ payload"

definition string_to_bytes :: "string \<Rightarrow> bytes" where
  "string_to_bytes = map (\<lambda>c. of_nat (byte c))"

fun le_bytes :: "nat \<Rightarrow> 64 word \<Rightarrow> bytes" where
  "le_bytes 0 w = []"
| "le_bytes (Suc k) w = ucast w # le_bytes k (drop_bit 8 w)"

definition enc_label :: "string \<times> string \<Rightarrow> bytes" where
  "enc_label l = enc_delim 1 (string_to_bytes (fst l)) @ enc_delim 2 (string_to_bytes (snd l))"

definition enc_sample :: "64 word \<times> int \<Rightarrow> bytes" where
  "enc_sample s = enc_tag 1 1 @ le_bytes 8 (fst s) @ enc_tag 2 0 @ enc_varint (word_of_int (snd s))"

type_synonym raw_series = "(string \<times> string) list \<times> (64 word \<times> int) list"

definition enc_series :: "raw_series \<Rightarrow> bytes" where
  "enc_series r = concat (map (\<lambda>l. enc_delim 1 (enc_label l)) (fst r))
     @ concat (map (\<lambda>s. enc_delim 2 (enc_sample s)) (snd r))"

definition enc_request :: "raw_series list \<Rightarrow> bytes" where
  "enc_request rs = concat (map (\<lambda>r. enc_delim 1 (enc_series r)) rs)"

definition series_of :: "raw_series \<Rightarrow> prTimeSeries" where
  "series_of r =
     \<lparr>Labels = map (\<lambda>(n, v). \<lparr>LabelName = n, LabelValue = v\<rparr>) (fst r),
      Samples = map (\<lambda>(w, t). \<lparr>TimestampMs = t, SampleValue = Float64frombits w\<rparr>) (snd r)\<rparr>"

subsection \<open>Varints\<close>

lemma enc_varint_small: "v < 0x80 \<Longrightarrow> enc_varint v = [ucast v]"
  by (simp add: enc_varint.simps)

lemma enc_varint_big: "\<not> v < 0x80 \<Longrightarrow> enc_varint v = (ucast v OR 0x80) # enc_varint (drop_bit 7 v)"
  by (simp add: enc_varint.simps)

lemma enc_varint_not_Nil [simp]: "enc_varint v \<noteq> []"
  by (cases "v < 0x80") (simp_all add: enc_varint_small enc_varint_big)

lemma unat_drop7: "unat (v :: 64 word) < 2 ^ (7 * Suc k) \<Longrightarrow> unat (drop_bit 7 v) < 2 ^ (7 * k)"
proof -
  assume a: "unat v < 2 ^ (7 * Suc k)"
  have "unat (drop_bit 7 v) = unat v div 128" by (simp only: unat_drop_bit_eq) (simp add: drop_bit_eq_div)
  also have "\<dots> < 2 ^ (7 * k)"
    by (rule less_mult_imp_div_less) (use a in \<open>simp add: power_add\<close>)
  finally show ?thesis .
qed

lemma bit_0x80: "bit (0x80 :: 8 word) k \<longleftrightarrow> k = 7"
proof -
  have "bit (2 ^ 7 :: 8 word) k \<longleftrightarrow> k = 7" by (subst bit_exp_iff) auto
  then show ?thesis by simp
qed

lemma bit_0x7f: "bit (0x7f :: 8 word) k \<longleftrightarrow> k < 7"
proof -
  have "bit (mask 7 :: 8 word) k \<longleftrightarrow> k < 7" by (subst bit_mask_iff) auto
  then show ?thesis by (simp add: mask_eq_exp_minus_1)
qed

lemma even_div_128: "(n::nat) < 256 \<Longrightarrow> n < 128 \<longleftrightarrow> even (n div 128)"
proof (cases "n < 128")
  case False
  moreover assume "n < 256"
  ultimately have "n div 128 = 1" by (intro div_nat_eqI) simp_all
  with False show ?thesis by simp
qed simp

lemma less_0x80_iff: "(b :: 8 word) < 0x80 \<longleftrightarrow> \<not> bit b 7"
proof -
  have l: "unat b < 256" using unsigned_less [of b, where ?'a = nat] by simp
  have "bit b 7 = bit (unat b) 7" by (simp only: bit_unsigned_iff possible_bit_nat) simp
  also have "\<dots> \<longleftrightarrow> odd (unat b div 2 ^ 7)" by (simp only: bit_iff_odd)
  also have "(2::nat) ^ 7 = 128" by simp
  finally have "bit b 7 \<longleftrightarrow> \<not> unat b < 128" by (simp only: even_div_128 [OF l])
  moreover have "b < 0x80 \<longleftrightarrow> unat b < 128" by (simp only: word_less_nat_alt) simp
  ultimately show ?thesis by blast
qed

lemma low7: "ucast ((ucast (v :: 64 word) OR 0x80) AND (0x7f :: 8 word)) = (take_bit 7 v :: 64 word)"
proof (rule bit_eqI)
  fix n
  show "bit (ucast ((ucast v OR 0x80) AND (0x7f :: 8 word)) :: 64 word) n \<longleftrightarrow> bit (take_bit 7 v) n"
    by (cases "n < 7") (simp_all only: bit_and_iff bit_or_iff bit_unsigned_iff bit_take_bit_iff bit_0x80 bit_0x7f, simp_all)
qed

lemma varint_low_bits:
  "push_bit s (ucast ((ucast v OR 0x80) AND (0x7f :: 8 word))) OR push_bit (s + 7) (drop_bit 7 v)
    = push_bit s (v :: 64 word)"
proof -
  have 2: "take_bit 7 v OR push_bit 7 (drop_bit 7 v) = v"
  proof (rule bit_eqI)
    fix n assume "possible_bit TYPE(64 word) n"
    then show "bit (take_bit 7 v OR push_bit 7 (drop_bit 7 v)) n \<longleftrightarrow> bit v n"
      by (cases "n < 7") (simp_all add: bit_or_iff bit_take_bit_iff bit_push_bit_iff bit_drop_bit_eq)
  qed
  have "push_bit (s + 7) (drop_bit 7 v) = push_bit s (push_bit 7 (drop_bit 7 v))"
   by (simp only: push_bit_push_bit)
  then show ?thesis by (simp only: low7 push_bit_or [symmetric] 2)
qed

lemma varint_last: "v < 0x80 \<Longrightarrow> (ucast v :: 8 word) < 0x80 \<and> ucast (ucast v :: 8 word) = (v :: 64 word)"
proof -
  assume "v < 0x80"
  then have u: "unat v < 128" by (simp add: word_less_nat_alt)
  have t: "take_bit 8 (unat v) = unat v" "take_bit 64 (unat v) = unat v"
    by (simp_all only: take_bit_nat_def) (use u in simp_all)
  have l: "LENGTH(8) = 8" "LENGTH(64) = 64" by simp_all
  have 1: "unat (ucast v :: 8 word) = unat v" by (simp only: unsigned_ucast_eq l t)
  have 2: "unat (ucast (ucast v :: 8 word) :: 64 word) = unat v"
    by (rule trans [OF unsigned_ucast_eq]) (simp only: 1 l t)
  have "(ucast v :: 8 word) < 0x80" unfolding word_less_nat_alt 1 using u by simp
  with 2 show ?thesis unfolding word_unat_eq_iff by blast
qed

lemma length_enc_varint: "unat v < 2 ^ (7 * k) \<Longrightarrow> 0 < k \<Longrightarrow> length (enc_varint v) \<le> k"
proof (induction k arbitrary: v)
  case (Suc k)
  show ?case
  proof (cases "v < 0x80")
    case False
    then have "128 \<le> unat v" by (simp add: word_le_nat_alt not_less)
    then have "k \<noteq> 0" using Suc.prems by (intro notI) simp
    moreover have "unat (drop_bit 7 v) < 2 ^ (7 * k)"
      using Suc.prems(1) by (rule unat_drop7)
    ultimately show ?thesis using Suc.IH [of "drop_bit 7 v"] False by (simp add: enc_varint_big)
  qed (simp add: enc_varint_small)
qed simp

lemma length_enc_varint_10: "length (enc_varint v) \<le> 10"
proof (rule length_enc_varint)
  have "unat v < 2 ^ 64" using unsigned_less [of v, where ?'a = nat] by simp
  then show "unat v < 2 ^ (7 * 10)" by simp
qed simp

lemma varint_more: "\<not> (ucast (v :: 64 word) OR 0x80 :: 8 word) < 0x80"
  by (simp add: less_0x80_iff bit_or_iff bit_0x80)

lemma decode_enc_varint_from:
  "i + length (enc_varint v) \<le> 10
    \<Longrightarrow> decodeVarint_from i x s (enc_varint v @ rest)
      = (x OR push_bit s v, i + length (enc_varint v))"
proof (induction v arbitrary: i x s rule: enc_varint.induct)
  case (1 v)
  show ?case
  proof (cases "v < 0x80")
    case True
    then show ?thesis using "1.prems" varint_last [OF True] by (simp add: enc_varint_small)
  next
    case False
    then show ?thesis
      using "1.prems" "1.IH" [OF False, of "i + 1"] varint_low_bits [of s v] varint_more [of v]
      by (simp add: enc_varint_big or.assoc)
  qed
qed

lemma decode_enc_varint: "decodeVarint (enc_varint v @ rest) = (v, length (enc_varint v))"
  using decode_enc_varint_from [of 0 v 0 0 rest] length_enc_varint_10 [of v]
  by (simp add: decodeVarint_def)


subsection \<open>Fields\<close>

lemma enc_tags:
  "enc_tag 1 1 = [0x09]" "enc_tag 1 2 = [0x0a]" "enc_tag 2 0 = [0x10]" "enc_tag 2 2 = [0x12]"
  by (simp_all add: enc_tag_def enc_varint_small)

lemma decode_tags:
  "decodeTag (0x09 # rest) = (1, 1, 1)" "decodeTag (0x0a # rest) = (1, 2, 1)"
  "decodeTag (0x10 # rest) = (2, 0, 1)" "decodeTag (0x12 # rest) = (2, 2, 1)"
  by (simp_all add: decodeTag_def decodeVarint_def)

lemma of_nat_word64:
  assumes "n < 2 ^ 63"
  shows "unat (of_nat n :: 64 word) = n" "uint (of_nat n :: 64 word) = int n" "sint (of_nat n :: 64 word) = int n"
proof -
  have n: "n < 2 ^ 64" using assms by simp
  then show 1: "unat (of_nat n :: 64 word) = n"  by (simp add: unsigned_of_nat take_bit_nat_eq_self)
  show "uint (of_nat n :: 64 word) = int n" using n by (simp add: unsigned_of_nat take_bit_nat_eq_self flip: of_nat_take_bit) 
  have "signed_take_bit 63 (int n) = int n" using assms by (simp add: signed_take_bit_int_eq_self)
  then show "sint (of_nat n :: 64 word) = int n" by (simp add: signed_of_nat)
qed

lemma ucast_ucast_low: "ucast (ucast (w :: 64 word) :: 8 word) = (take_bit 8 w :: 64 word)"
proof (rule bit_eqI)
  fix n
  show "bit (ucast (ucast w :: 8 word) :: 64 word) n \<longleftrightarrow> bit (take_bit 8 w) n"
    by (cases "n < 8") (simp_all only: bit_unsigned_iff bit_take_bit_iff, simp_all)
qed

lemma chr_of_byte_word: "chr (unat (of_nat (byte c) :: 8 word)) = c"
proof -
  have "byte c < 256" by (rule of_char_mod_256 [THEN subst]) simp
  then have "unat (of_nat (byte c) :: 8 word) = byte c" by (simp add: unsigned_of_nat take_bit_nat_eq_self)
  then show ?thesis by simp
qed

lemma sint_word: "in64 i \<Longrightarrow> sint (word_of_int i :: 64 word) = i"
  unfolding in64_def by (simp add: signed_of_int signed_take_bit_int_eq_self)

lemma read_delimited_enc:
  assumes "length p < 2 ^ 63"
  shows "read_delimited e1 e2 (enc_varint (of_nat (length p)) @ p @ rest) = Ok (p, rest)"
proof -
  let ?v = "of_nat (length p) :: 64 word"
  show ?thesis
    using read_delimited_OkI [OF decode_enc_varint [of ?v "p @ rest"], of e1 e2] by (simp add: of_nat_word64 [OF assms])
qed

lemma length_le_bytes [simp]: "length (le_bytes k w) = k"
  by (induction k arbitrary: w) simp_all

lemma le_uint64_bytes: "le_uint64 (le_bytes k w) = take_bit (8 * k) w"
proof (induction k arbitrary: w)
  case (Suc k)
  have "take_bit 8 w OR push_bit 8 (take_bit (8 * k) (drop_bit 8 w)) = take_bit (8 + 8 * k) w"
  proof (rule bit_eqI)
    fix n assume "possible_bit TYPE(64 word) n"
    then show "bit (take_bit 8 w OR push_bit 8 (take_bit (8 * k) (drop_bit 8 w))) n
        \<longleftrightarrow> bit (take_bit (8 + 8 * k) w) n"
      by (cases "n < 8") (auto simp: bit_or_iff bit_take_bit_iff bit_push_bit_iff bit_drop_bit_eq)
  qed
  then show ?case by (simp only: le_bytes.simps le_uint64.simps ucast_ucast_low Suc.IH mult_Suc_right)
qed simp

lemma le_uint64_8: "le_uint64 (le_bytes 8 w) = w"
  by (simp add: le_uint64_bytes take_bit_word_eq_self)

lemma string_bytes [simp]: "bytes_to_string (string_to_bytes s) = s"
  by (induction s) (simp_all add: bytes_to_string_def string_to_bytes_def chr_of_byte_word del: unsigned_of_nat)

subsection \<open>Messages, read back\<close>

lemma enc_delim_1: "enc_delim 1 p = 0x0a # enc_varint (of_nat (length p)) @ p"
  and enc_delim_2: "enc_delim 2 p = 0x12 # enc_varint (of_nat (length p)) @ p"
  by (simp_all add: enc_delim_def enc_tags)

lemmas read_field = enc_delim_1 enc_delim_2 decode_tags read_delimited_enc

lemma length_enc_delim: "length p < length (enc_delim f p)"
  by (simp add: enc_delim_def enc_tag_def)

lemma parseLabel_enc:
  assumes "length (enc_label l) < 2 ^ 63"
  shows "parseLabel (enc_label l) = Ok \<lparr>LabelName = fst l, LabelValue = snd l\<rparr>"
proof -
  let ?a = "string_to_bytes (fst l)" and ?b = "string_to_bytes (snd l)"
  have a: "length ?a < 2 ^ 63" and b: "length ?b < 2 ^ 63"
    using assms length_enc_delim [of ?a 1] length_enc_delim [of ?b 2] by (simp_all add: enc_label_def)
  have 1: "label_step x (enc_delim 1 ?a @ rest) = Ok (x\<lparr>LabelName := fst l\<rparr>, rest)" for x rest
    using a by (simp add: label_step_def read_field)
  have 2: "label_step x (enc_delim 2 ?b @ rest) = Ok (x\<lparr>LabelValue := snd l\<rparr>, rest)" for x rest
    using b by (simp add: label_step_def read_field)
  show ?thesis
    by (simp add: parseLabel_def enc_label_def lab.loop_step [OF 1] lab.loop_step [OF 2 [where rest = "[]", simplified]])
qed

lemma parseSample_enc:
  assumes "in64 (snd s)"
  shows "parseSample (enc_sample s) = Ok \<lparr>TimestampMs = snd s, SampleValue = Float64frombits (fst s)\<rparr>"
proof -
  have 1: "sample_step x (enc_tag 1 1 @ le_bytes 8 (fst s) @ rest)
      = Ok (x\<lparr>SampleValue := Float64frombits (fst s)\<rparr>, rest)" for x rest
    by (simp add: sample_step_def enc_tags decode_tags le_uint64_8)
  have 2: "sample_step x (enc_tag 2 0 @ enc_varint (word_of_int (snd s)))
      = Ok (x\<lparr>TimestampMs := snd s\<rparr>, [])" for x
    using decode_enc_varint [of "word_of_int (snd s)" "[]"] sint_word [OF assms]
    by (simp add: sample_step_def enc_tags decode_tags del: signed_of_int)
  show ?thesis
    by (simp add: parseSample_def enc_sample_def smp.loop_step [OF 1] smp.loop_step [OF 2])
qed

definition label_of :: "string \<times> string \<Rightarrow> prLabel" where
  "label_of l = \<lparr>LabelName = fst l, LabelValue = snd l\<rparr>"

definition sample_of :: "64 word \<times> int \<Rightarrow> prSample" where
  "sample_of s = \<lparr>TimestampMs = snd s, SampleValue = Float64frombits (fst s)\<rparr>"

lemma length_in_concat: "f \<in> set fs \<Longrightarrow> length (enc f) \<le> length (concat (map enc fs))"
  by (induction fs) auto

lemma fold_Labels: "fold (\<lambda>l ts. ts\<lparr>Labels := Labels ts @ [g l]\<rparr>) ls ts = ts\<lparr>Labels := Labels ts @ map g ls\<rparr>"
  by (induction ls arbitrary: ts) simp_all

lemma fold_Samples: "fold (\<lambda>s ts. ts\<lparr>Samples := Samples ts @ [g s]\<rparr>) ss ts = ts\<lparr>Samples := Samples ts @ map g ss\<rparr>"
  by (induction ss arbitrary: ts) simp_all

lemma fold_append_one: "fold (\<lambda>x xs. xs @ [g x]) ys xs = xs @ map g ys"
  by (induction ys arbitrary: xs) simp_all

lemma parseTimeSeries_enc:
  assumes "length (enc_series r) < 2 ^ 63" and "\<forall>s \<in> set (snd r). in64 (snd s)"
  shows "parseTimeSeries (enc_series r) = Ok (series_of r)"
proof -
  let ?L = "concat (map (\<lambda>l. enc_delim 1 (enc_label l)) (fst r))"
  let ?S = "concat (map (\<lambda>s. enc_delim 2 (enc_sample s)) (snd r))"
  have l: "series_loop x ?L = Ok (x\<lparr>Labels := Labels x @ map label_of (fst r)\<rparr>)" for x
    unfolding fold_Labels [symmetric]
  proof (rule ser.loop_fields)
    fix l st rest assume "l \<in> set (fst r)"
    then have "length (enc_label l) < 2 ^ 63"
      using length_in_concat [of l "fst r" "\<lambda>l. enc_delim 1 (enc_label l)"]
        length_enc_delim [of "enc_label l" 1] assms(1) by (simp add: enc_series_def)
    then show "series_step st (enc_delim 1 (enc_label l) @ rest)
        = Ok (st\<lparr>Labels := Labels st @ [label_of l]\<rparr>, rest)"
      by (simp add: series_step_def read_field parseLabel_enc label_of_def)
  qed
  have s: "series_loop x ?S = Ok (x\<lparr>Samples := Samples x @ map sample_of (snd r)\<rparr>)" for x
    unfolding fold_Samples [symmetric]
  proof (rule ser.loop_fields)
    fix s st rest assume s: "s \<in> set (snd r)"
    then have "length (enc_sample s) < 2 ^ 63"
      using length_in_concat [of s "snd r" "\<lambda>s. enc_delim 2 (enc_sample s)"]
        length_enc_delim [of "enc_sample s" 2] assms(1) by (simp add: enc_series_def)
    then show "series_step st (enc_delim 2 (enc_sample s) @ rest)
        = Ok (st\<lparr>Samples := Samples st @ [sample_of s]\<rparr>, rest)"
      using s assms(2) by (simp add: series_step_def read_field parseSample_enc sample_of_def)
  qed
  show ?thesis
    using ser.loop_append [OF l, of "\<lparr>Labels = [], Samples = []\<rparr>" ?S] s
    by (simp add: parseTimeSeries_def enc_series_def series_of_def label_of_def sample_of_def
        case_prod_beta)
qed

lemma parseWriteRequest_enc:
  assumes "length (enc_request rs) < 2 ^ 63"
    and "\<forall>r \<in> set rs. \<forall>s \<in> set (snd r). in64 (snd s)"
  shows "parseWriteRequest (enc_request rs) = Ok (map series_of rs)"
proof -
  have "request_loop x (enc_request rs) = Ok (x @ map series_of rs)" for x
    unfolding fold_append_one [symmetric] enc_request_def
  proof (rule req.loop_fields)
    fix r st rest assume r: "r \<in> set rs"
    then have "length (enc_series r) < 2 ^ 63"
      using length_in_concat [of r rs "\<lambda>r. enc_delim 1 (enc_series r)"]
        length_enc_delim [of "enc_series r" 1] assms(1) by (simp add: enc_request_def)
    then show "request_step st (enc_delim 1 (enc_series r) @ rest) = Ok (st @ [series_of r], rest)"
      using r assms(2) by (simp add: request_step_def read_field parseTimeSeries_enc)
  qed
  then show ?thesis by (simp add: parseWriteRequest_def)
qed

text \<open>C3. The decoder reads back what a sender encodes: every label and every sample of every
  series, in order, the value by its 64 bits and the timestamp as a signed 64-bit number.\<close>

theorem write_request_roundtrip:
  assumes "length (enc_request rs) < 2 ^ 63"
    and "\<forall>r \<in> set rs. \<forall>s \<in> set (snd r). in64 (snd s)"
  shows "parseWriteRequest (enc_request rs) = Ok (map series_of rs)"
  using assms by (rule parseWriteRequest_enc)

theorem write_request_roundtrip_witness:
  "parseWriteRequest (enc_request [([(''a'', ''b'')], [(0x3ff0000000000000, 1700000000000)])])
    = Ok (map series_of [([(''a'', ''b'')], [(0x3ff0000000000000, 1700000000000)])])"
proof (rule write_request_roundtrip)
  have "length (enc_request [([(''a'', ''b'')], [(0x3ff0000000000000, 1700000000000)])]) = 28"
    by code_simp
  then show "length (enc_request [([(''a'', ''b'')], [(0x3ff0000000000000, 1700000000000)])]) < 2 ^ 63"
    by simp
qed (simp add: in64_def)

text \<open>A payload followed by a payload is read as the series of the first and then those of
  the second: parsing is a homomorphism from concatenation of bytes to concatenation of lists.\<close>

theorem write_request_concat:
  assumes "parseWriteRequest a = Ok xs" and "parseWriteRequest b = Ok ys"
  shows "parseWriteRequest (a @ b) = Ok (xs @ ys)"
proof -
  have "request_loop xs b = Ok (xs @ ys)"
    using assms(2) req.loop_shift [of xs b] by (simp add: parseWriteRequest_def)
  with assms(1) show ?thesis
    unfolding parseWriteRequest_def by (simp add: req.loop_append)
qed

theorem write_request_concat_witness:
  "parseWriteRequest ([0x0a, 0x00] @ [0x18, 0x01, 0x0a, 0x00])
    = Ok ([\<lparr>Labels = [], Samples = []\<rparr>] @ [\<lparr>Labels = [], Samples = []\<rparr>])"
  by (rule write_request_concat) code_simp+

section \<open>The arithmetic of varints\<close>

fun base128 :: "bytes \<Rightarrow> nat" where
  "base128 [] = 0"
| "base128 (b # bs) = unat b mod 128 + 128 * base128 bs"

lemma or_push_bit: "take_bit s x = x \<Longrightarrow> x OR push_bit s y = x + push_bit s (y :: 64 word)"
proof -
  assume t: "take_bit s x = x"
  have "x AND push_bit s y = 0"
  proof (rule bit_eqI)
    fix n
    have "bit x n \<Longrightarrow> n < s" using t by (metis bit_take_bit_iff)
    then show "bit (x AND push_bit s y) n = bit 0 n" by (auto simp: bit_and_iff bit_push_bit_iff)
  qed
  then show ?thesis by (rule disjunctive_add_eq_or [symmetric])
qed

lemma take_or_push:
  assumes "take_bit s x = x" and "take_bit 7 y = y"
  shows "take_bit (s + 7) (x OR push_bit s y) = x OR push_bit s (y :: 64 word)"
proof -
  have "bit x n \<Longrightarrow> n < s" "bit y n \<Longrightarrow> n < 7" for n
    using assms by (metis bit_take_bit_iff)+
  then have "bit (x OR push_bit s y) n \<Longrightarrow> n < s + 7" for n
    by (simp only: bit_or_iff bit_push_bit_iff) (metis add.commute add_lessD1 less_diff_conv2 nat_add_left_cancel_less le_add_diff_inverse)
  then show ?thesis by (intro bit_eqI) (metis bit_take_bit_iff)
qed

lemma unat_low_bits: "unat (b AND 0x7f) = unat (b :: 8 word) mod 128"
proof -
  have "(0x7f :: 8 word) = mask 7" by (simp add: mask_eq_exp_minus_1)
  then have "b AND 0x7f = take_bit 7 b" by (simp only: take_bit_eq_mask)
  then show ?thesis by (simp only: unsigned_take_bit_eq take_bit_nat_def) simp
qed

lemma low_bits_value: "(ucast (b AND 0x7f) :: 64 word) = of_nat (unat (b :: 8 word) mod 128)"
  by (metis of_nat_unat unat_low_bits)

lemma low_bits_take: "take_bit 7 (ucast (b AND 0x7f) :: 64 word) = ucast (b AND 0x7f :: 8 word)"
  unfolding low_bits_value by (simp add: of_nat_take_bit [symmetric] take_bit_nat_def del: of_nat_mod) 

lemma low_bits_less: "b < 0x80 \<Longrightarrow> b AND 0x7f = (b :: 8 word)"
  using unat_low_bits [of b] by (simp only: word_unat_eq_iff word_less_nat_alt) simp

lemma decodeVarint_from_last:
  "decodeVarint_from i x s data = (v, n) \<Longrightarrow> n \<noteq> 0
    \<Longrightarrow> \<forall>j < n - i. unat (data ! j) < 128 \<longleftrightarrow> j = n - i - 1"
proof (induction i x s data rule: decodeVarint_from.induct)
  case (2 i x s b data)
  show ?case
  proof (cases "b < 0x80")
    case True
    then show ?thesis using 2 by (auto simp: word_less_nat_alt split: if_splits)
  next
    case False
    then have l: "\<not> 10 \<le> i" using 2 by (auto split: if_splits)
    with 2 False have d: "decodeVarint_from (i + 1) (x OR push_bit s (ucast (b AND 0x7f))) (s + 7) data = (v, n)"
      by auto
    have "n - i = Suc (n - (i + 1))" and "n - (i + 1) \<noteq> 0"
      using decodeVarint_from_bound [OF d] \<open>n \<noteq> 0\<close> by auto
    with "2.IH" [OF l False d \<open>n \<noteq> 0\<close>] False show ?thesis
      by (auto simp: less_Suc_eq_0_disj word_less_nat_alt)
  qed
qed simp

lemma decodeVarint_from_value:
  "take_bit s x = x \<Longrightarrow> decodeVarint_from i x s data = (v, n) \<Longrightarrow> n \<noteq> 0
    \<Longrightarrow> v = x + push_bit s (of_nat (base128 (take (n - i) data)))"
proof (induction i x s data rule: decodeVarint_from.induct)
  case (2 i x s b data)
  let ?c = "ucast (b AND 0x7f) :: 64 word"
  have x: "x OR push_bit s ?c = x + push_bit s ?c" by (rule or_push_bit) fact
  show ?case
  proof (cases "b < 0x80")
    case True
    then show ?thesis using 2 x low_bits_less [OF True] low_bits_value [of b]
      by (auto split: if_splits)
  next
    case False
    then have l: "\<not> 10 \<le> i" using 2 by (auto split: if_splits)
    have d: "decodeVarint_from (i + 1) (x OR push_bit s ?c) (s + 7) data = (v, n)"
      using 2 False l by auto
    have n: "n - i = Suc (n - (i + 1))" using decodeVarint_from_bound [OF d] \<open>n \<noteq> 0\<close> by auto
    have "v = x + push_bit s ?c + push_bit (s + 7) (of_nat (base128 (take (n - (i + 1)) data)))"
      using "2.IH" [OF l False take_or_push [OF 2(2) low_bits_take] d \<open>n \<noteq> 0\<close>] x by simp
    also have "\<dots> = x + push_bit s (?c + 128 * of_nat (base128 (take (n - (i + 1)) data)))"
      by (simp add: push_bit_eq_mult power_add algebra_simps)
    finally show ?thesis unfolding n low_bits_value by simp
  qed
qed simp

text \<open>What a varint means: an accepted varint has at most ten bytes, all of them in the
  input, and its value is the base-128 number its low seven bits spell, least significant digit
  first, reduced modulo 2^64.\<close>

theorem decodeVarint_value:
  assumes "decodeVarint data = (v, n)" and "n \<noteq> 0"
  shows "n \<le> 10 \<and> n \<le> length data \<and> unat v = base128 (take n data) mod 2 ^ 64
    \<and> (\<forall>i < n. unat (data ! i) < 128 \<longleftrightarrow> i = n - 1)"
proof -
  have d: "decodeVarint_from 0 0 0 data = (v, n)" using assms(1) by (simp add: decodeVarint_def)
  have "v = of_nat (base128 (take n data))"
    using decodeVarint_from_value [OF _ d assms(2)] by simp
  then have "unat v = base128 (take n data) mod 2 ^ 64" by (simp add: unat_of_nat)
  moreover have "\<forall>i < n. unat (data ! i) < 128 \<longleftrightarrow> i = n - 1"
    using decodeVarint_from_last [OF d assms(2)] by simp
  ultimately show ?thesis using decodeVarint_bound [OF assms(1)] by blast
qed

theorem decodeVarint_value_witness:
  "let (v, n) = decodeVarint [0xac, 0x02, 0x55] in
     n = 2 \<and> n \<le> 10 \<and> n \<le> length [0xac, 0x02, 0x55 :: 8 word] \<and> unat v = base128 (take n [0xac, 0x02, 0x55]) mod 2 ^ 64
    \<and> (\<forall>i < n. unat ([0xac, 0x02, 0x55 :: 8 word] ! i) < 128 \<longleftrightarrow> i = n - 1)"
proof -
  have d: "decodeVarint [0xac, 0x02, 0x55] = (300, 2)" by code_simp
  show ?thesis using decodeVarint_value [OF d] by (simp only: d prod.case Let_def) simp
qed

section \<open>Length fields that do not fit\<close>

lemma signed_take_bit_63: "0 \<le> (k::int) \<Longrightarrow> k < 2 ^ 64 \<Longrightarrow> signed_take_bit 63 k = (if k < 2 ^ 63 then k else k - 2 ^ 64)"
proof -
  assume k: "0 \<le> k" "k < 2 ^ 64"
  have "signed_take_bit 63 k = (k + 2 ^ 63) mod 2 ^ 64 - 2 ^ 63"
    unfolding signed_take_bit_eq_take_bit_shift take_bit_int_def by simp
  also have "(k + 2 ^ 63) mod 2 ^ 64 = (if k < 2 ^ 63 then k + 2 ^ 63 else k + 2 ^ 63 - 2 ^ 64)"
    using k by (auto simp: mod_pos_pos_trivial intro: int_mod_pos_eq)
  finally show ?thesis by simp
qed
lemma uint_of_unat: "unat l = m \<Longrightarrow> uint l = int m"
  by (simp only: uint_nat)

lemma sint_of_unat: "unat (l :: 64 word) = m \<Longrightarrow> sint l = (if m < 2 ^ 63 then int m else int m - 2 ^ 64)"
proof -
  assume m: "unat l = m"
  have b: "m < 2 ^ 64" using unsigned_less [of l, where ?'a = nat] by (simp add: m)
  have "sint l = signed_take_bit 63 (int m)" by (simp add: sint_uint uint_of_unat [OF m])
  also have "\<dots> = (if int m < 2 ^ 63 then int m else int m - 2 ^ 64)"
    by (rule signed_take_bit_63) (use b in simp_all)
  finally show ?thesis by simp
qed

lemma read_delimited_long:
  assumes m: "unat l = m" and "length rest < m"
  shows "read_delimited e1 e2 (enc_varint l @ rest) = (if m < 2 ^ 63 then Err e2 else Panic)"
proof -
  have b: "m < 2 ^ 64" using unsigned_less [of l, where ?'a = nat] by (simp add: m)
  show ?thesis
    unfolding read_delimited_def decode_enc_varint Let_def prod.case
    using sint_of_unat [OF m] uint_of_unat [OF m] assms(2) b by auto
qed

text \<open>C20. Length checks of the request loop, at any point of a payload that is well-formed so far. A series (field 1,
  length-delimited) whose length runs past the payload is refused with \<open>truncated message\<close> when the length is
  below \<open>2^63\<close>; from there on it is negative as an \<open>int\<close>, passes the check and the slice panics. A
  length-delimited field of any other number, which the loop skips, has no check at all: the slice panics
  for every length below \<open>2^63 - 10\<close> that runs past the payload.\<close>

theorem request_length_checks:
  assumes "parseWriteRequest pre = Ok xs" and "body = enc_varint l @ rest" and "length rest < unat l"
    and "decodeTag (tag @ body) = (f, 2, length tag)" and "tag \<noteq> []"
  shows "(f = 1 \<and> unat l < 2 ^ 63 \<longrightarrow> parseWriteRequest (pre @ tag @ body) = Err ''truncated message'')
    \<and> (f = 1 \<and> 2 ^ 63 \<le> unat l \<longrightarrow> parseWriteRequest (pre @ tag @ body) = Panic)
    \<and> (f \<noteq> 1 \<and> unat l < 2 ^ 63 - 10 \<longrightarrow> parseWriteRequest (pre @ tag @ body) = Panic)"
proof -
  have p: "parseWriteRequest (pre @ tag @ body) = request_loop xs (tag @ body)"
    using assms(1) unfolding parseWriteRequest_def by (simp add: req.loop_append)
  have fail: "request_loop xs (tag @ body) = (case request_step xs (tag @ body) of Ok (r, d) \<Rightarrow> request_loop r d
      | Err e \<Rightarrow> Err e | Panic \<Rightarrow> Panic)"
    using assms(5) by (subst request_loop.simps) simp
  have series: "request_step xs (tag @ body) = (if unat l < 2 ^ 63 then Err ''truncated message'' else Panic)" if "f = 1"
    using that assms(4,5) read_delimited_long [OF refl assms(3)]
    by (simp add: request_step_def assms(2) outcome_simps)
  have skip: "request_step xs (tag @ body) = Panic" if f: "f \<noteq> 1" and b: "unat l < 2 ^ 63 - 10"
  proof -
    obtain m k where m: "unat l = m" and k: "length (enc_varint l) = k" by blast
    have mb: "length rest < m" "m < 2 ^ 63 - 10" "k \<le> 10"
      using assms(3) b length_enc_varint_10 [of l] by (simp_all only: m k)
    have s: "sint l = int m" using mb(2) by (simp add: sint_of_unat [OF m])
    have "wrap64 (int k + int m) = int k + int m" using mb by (intro wrap64_id) (simp add: in64_def)
    then have "skip_step 2 body = Panic"
      using mb(1) k enc_varint_not_Nil [of l]
      by (simp add: skip_step_def skipField_def decode_enc_varint slice_from_def s assms(2) del: enc_varint_not_Nil flip: length_greater_0_conv)
    then show ?thesis using f assms(4,5) by (simp add: request_step_def)
  qed
  show ?thesis unfolding p fail using series skip by simp
qed

text \<open>After a series of its own, a series of five bytes that has two, one of \<open>2^64 - 1\<close> bytes, and a field 2 of five.\<close>

theorem request_length_checks_witness:
  "parseWriteRequest ([0x0a, 0x00] @ [0x0a] @ enc_varint 5 @ [1, 2]) = Err ''truncated message''
    \<and> parseWriteRequest ([0x0a, 0x00] @ [0x0a] @ enc_varint (- 1) @ [1, 2]) = Panic
    \<and> parseWriteRequest ([0x0a, 0x00] @ [0x12] @ enc_varint 5 @ [1, 2]) = Panic"
proof -
  have pre: "parseWriteRequest [0x0a, 0x00] = Ok [\<lparr>Labels = [], Samples = []\<rparr>]" by code_simp
  have top: "unat (- 1 :: 64 word) = 2 ^ 64 - 1" by (simp add: unsigned_minus_1_eq_mask mask_eq_exp_minus_1)
  show ?thesis
    using request_length_checks [OF pre refl, of "[1, 2]" 5 "[0x0a]" 1]
      request_length_checks [OF pre refl, of "[1, 2]" "- 1" "[0x0a]" 1]
      request_length_checks [OF pre refl, of "[1, 2]" 5 "[0x12]" 2]
    by (simp add: decode_tags top)
qed

end
