(* ===== verification/Sql.thy ===== *)
theory Sql
  imports GoString
begin

text \<open>
  What the Go code hands to the database driver: the text of a statement and the list of its
  arguments. The driver and PostgreSQL are not part of the repository: they are a record of
  operations, a parameter of every definition that talks to the database. The scanner
  \<open>placeholders\<close> reads the \<open>$n\<close> parameters back from a statement's text, so that the builders
  can be checked against the arguments they pass.
\<close>

section \<open>Statements and arguments\<close>

type_synonym labels = "(string \<times> string) list"

datatype sql_arg =
  AText string | AInt int | AFloat f64 | ATime int | ALabels labels | ATexts "string list"

text \<open>
  The driver: a pool \<open>'db\<close> and the transactions \<open>'tx\<close> opened on it. A call returns its error text
  or its result, and the state after it. \<open>QueryBool\<close> is \<open>QueryRow(...).Scan(&b)\<close>.
\<close>

record ('db, 'tx) pg =
  Begin :: "'db \<Rightarrow> string + 'tx"
  TxExec :: "'tx \<Rightarrow> string \<Rightarrow> sql_arg list \<Rightarrow> (string + int) \<times> 'tx"
  Commit :: "'tx \<Rightarrow> string option \<times> 'db"
  Rollback :: "'tx \<Rightarrow> 'db"
  Exec :: "'db \<Rightarrow> string \<Rightarrow> sql_arg list \<Rightarrow> (string + int) \<times> 'db"
  QueryBool :: "'db \<Rightarrow> string \<Rightarrow> sql_arg list \<Rightarrow> string + bool"

section \<open>Reading the parameters of a statement\<close>

fun scan_ph :: "int option \<Rightarrow> string \<Rightarrow> int list" where
  "scan_ph None [] = []"
| "scan_ph (Some n) [] = [n]"
| "scan_ph None (c # cs) = (if c = CHR ''$'' then scan_ph (Some 0) cs else scan_ph None cs)"
| "scan_ph (Some n) (c # cs) =
     (if is_digit c then scan_ph (Some (10 * n + digit_val c)) cs
      else n # (if c = CHR ''$'' then scan_ph (Some 0) cs else scan_ph None cs))"

definition placeholders :: "string \<Rightarrow> int list" where
  "placeholders s = scan_ph None s"

definition no_digit_first :: "string \<Rightarrow> bool" where
  "no_digit_first s \<longleftrightarrow> (case s of [] \<Rightarrow> True | c # _ \<Rightarrow> \<not> is_digit c)"

lemma no_digit_first_simps [simp]:
  "no_digit_first []" "no_digit_first (c # s) = (\<not> is_digit c)"
  "s \<noteq> [] \<Longrightarrow> no_digit_first (s @ t) = no_digit_first s"
  by (auto simp: no_digit_first_def split: list.splits)

lemma placeholders_simps [simp]:
  "placeholders [] = []" "c \<noteq> CHR ''$'' \<Longrightarrow> placeholders (c # s) = placeholders s"
  by (simp_all add: placeholders_def)

text \<open>The text of the form \<open>$n\<close>, the verb \<open>$%d\<close>.\<close>

definition ph :: "int \<Rightarrow> string" where
  "ph n = ''$'' @ itoa n"

lemma scan_ph_append: "no_digit_first t \<Longrightarrow> scan_ph st (s @ t) = scan_ph st s @ scan_ph None t"
proof (induction st s rule: scan_ph.induct)
  case (2 n)
  then show ?case by (cases t) auto
qed auto

lemma placeholders_append:
  "no_digit_first t \<Longrightarrow> placeholders (s @ t) = placeholders s @ placeholders t"
  by (simp add: placeholders_def scan_ph_append)

lemma scan_ph_digits: "list_all is_digit ds \<Longrightarrow> scan_ph (Some n) ds = [digits_val n ds]"
  by (induction ds arbitrary: n) (simp_all add: mult.commute)

lemma placeholders_ph [simp]: "0 \<le> n \<Longrightarrow> placeholders (ph n) = [n]"
  by (simp add: placeholders_def ph_def itoa_def scan_ph_digits nat_digits_digits digits_val_nat_digits)

lemma ph_first [simp]: "no_digit_first (ph n)" "ph n \<noteq> []"
  by (simp_all add: ph_def is_digit_def)

lemma no_digit_first_Join:
  "no_digit_first sep \<Longrightarrow> (\<And>p. p \<in> set ps \<Longrightarrow> no_digit_first p) \<Longrightarrow> no_digit_first (Join ps sep)"
proof (induction ps)
  case (Cons p ps)
  then show ?case
    by (cases "ps = []"; cases "p = []"; cases "sep = []") (auto simp: Join_Cons)
qed simp

lemma placeholders_Join:
  assumes "no_digit_first sep" and "placeholders sep = []" and "\<And>p. p \<in> set ps \<Longrightarrow> no_digit_first p"
  shows "placeholders (Join ps sep) = concat (map placeholders ps)"
  using assms(3)
proof (induction ps)
  case Nil
  then show ?case by (simp add: placeholders_def)
next
  case (Cons p ps)
  then have "no_digit_first (Join ps sep)" using assms(1) by (simp add: no_digit_first_Join)
  moreover have "no_digit_first (sep @ Join ps sep)"
    using assms(1) \<open>no_digit_first (Join ps sep)\<close> by (cases "sep = []") simp_all
  ultimately show ?case
    using Cons assms(2) by (cases "ps = []") (simp_all add: Join_Cons placeholders_append)
qed

text \<open>A parenthesised row of \<open>w\<close> parameters that starts after parameter \<open>base\<close>.\<close>

definition row_group :: "nat \<Rightarrow> int \<Rightarrow> string" where
  "row_group w base = ''('' @ Join (map (\<lambda>k. ph (base + int k)) [1..<Suc w]) '', '' @ '')''"

lemma row_group_first [simp]: "no_digit_first (row_group w base)" "row_group w base \<noteq> []"
  by (simp_all add: row_group_def is_digit_def)

lemma placeholders_row_group:
  assumes "0 \<le> base"
  shows "placeholders (row_group w base) = map (\<lambda>k. base + int k) [1..<Suc w]"
proof -
  let ?r = "map (\<lambda>k. ph (base + int k)) [1..<Suc w]"
  have d: "\<not> is_digit (CHR '')'')" "\<not> is_digit (CHR '','')" "\<not> is_digit (CHR '' '')" by (simp_all add: is_digit_def)
  have "no_digit_first (Join ?r '', '')" using d by (intro no_digit_first_Join) auto
  then have "placeholders (row_group w base) = placeholders (Join ?r '', '')"
    unfolding row_group_def using d by (simp add: placeholders_append del: upt_Suc)
  also have "\<dots> = concat (map placeholders ?r)"
    by (rule placeholders_Join) (use d in auto)
  also have "\<dots> = concat (map (\<lambda>k. [base + int k]) [1..<Suc w])"
    using assms by (simp add: comp_def del: upt_Suc)
  finally show ?thesis by (simp del: upt_Suc add: concat_map_singleton)
qed

text \<open>Rows written one after the other, as the batch builders write them.\<close>

definition row_groups :: "nat \<Rightarrow> nat \<Rightarrow> string" where
  "row_groups w n = Join (map (\<lambda>i. row_group w (int i * int w)) [0..<n]) '', ''"

lemma shift_upt: "map (\<lambda>k. k + m) [1..<Suc w] = [Suc m..<Suc (m + w)]"
  by (induction w) auto

lemma placeholders_row_groups: "placeholders (row_groups w n) = map int [1..<Suc (n * w)]"
proof -
  have "placeholders (row_groups w n)
      = concat (map (\<lambda>i. map (\<lambda>k. int i * int w + int k) [1..<Suc w]) [0..<n])"
    unfolding row_groups_def
    by (subst placeholders_Join)
      (auto simp: is_digit_def placeholders_row_group comp_def simp del: upt_Suc)
  also have "\<dots> = map int [1..<Suc (n * w)]"
  proof (induction n)
    case (Suc n)
    have "map (\<lambda>k. int n * int w + int k) [1..<Suc w] = map int (map (\<lambda>k. k + n * w) [1..<Suc w])"
      by (simp del: upt_Suc add: add.commute)
    also have "map (\<lambda>k. k + n * w) [1..<Suc w] = [Suc (n * w)..<Suc (Suc n * w)]"
      using shift_upt [of "n * w" w] by (simp only: mult_Suc add.commute)
    finally show ?case
      using Suc upt_add_eq_append [of 1 "Suc (n * w)" w] by (simp del: upt_Suc add: upt_Suc [of 0] add.commute)
  qed simp
  finally show ?thesis .
qed

end
