(* ===== verification/PgTables.thy ===== *)
theory PgTables
  imports Sql "HOL-Library.Char_ord" "HOL-Library.List_Lexorder"
begin

text \<open>
  The tables of \<open>internal/store/migrations/\<close> as far as the write path relies on them, the
  statements the Go code sends to them, and the contract of PostgreSQL the code relies on: the
  locale \<open>postgres\<close>. The reference tables \<open>ref_pg\<close> execute these statements; they satisfy
  the contract.
\<close>

section \<open>Tables\<close>

record sample_row =
  r_node :: string
  r_at :: int
  r_context :: string
  r_chart :: "string option"
  r_family :: "string option"
  r_instance :: "string option"
  r_dimension :: string
  r_unit :: "string option"
  r_value :: f64
  r_labels :: labels

record tables =
  tb_nodes :: "(string \<times> string \<times> string) list"
  tb_samples :: "sample_row list"
  tb_versions :: "string list"

definition coalesce :: "string option \<Rightarrow> string" where
  "coalesce x = (case x of None \<Rightarrow> [] | Some s \<Rightarrow> s)"

text \<open>The unique index \<open>uq_metric_sample\<close>.\<close>

definition sample_key :: "sample_row \<Rightarrow> string \<times> int \<times> string \<times> string \<times> string \<times> string" where
  "sample_key r = (r_node r, r_at r, r_context r, r_dimension r, coalesce (r_chart r), coalesce (r_instance r))"

text \<open>\<open>INSERT ... ON CONFLICT DO NOTHING\<close>: a row whose key is present, or came earlier in the
  same statement, is dropped.\<close>

fun insert_new :: "sample_row list \<Rightarrow> sample_row list \<Rightarrow> sample_row list" where
  "insert_new t [] = t"
| "insert_new t (r # rs) =
     insert_new (if sample_key r \<in> sample_key ` set t then t else t @ [r]) rs"

definition upsert_node :: "string \<times> string \<times> string \<Rightarrow> (string \<times> string \<times> string) list
    \<Rightarrow> (string \<times> string \<times> string) list" where
  "upsert_node n t = (if fst n \<in> fst ` set t then map (\<lambda>m. if fst m = fst n then n else m) t else t @ [n])"

lemma insert_new_append: "insert_new t (a @ b) = insert_new (insert_new t a) b"
  by (induction a arbitrary: t) simp_all

lemma insert_new_keys: "sample_key ` set (insert_new t rs) = sample_key ` set t \<union> sample_key ` set rs"
  by (induction rs arbitrary: t) auto

lemma insert_new_present: "sample_key ` set rs \<subseteq> sample_key ` set t \<Longrightarrow> insert_new t rs = t"
  by (induction rs) auto

lemma insert_new_idem: "insert_new (insert_new t rs) rs = insert_new t rs"
  by (rule insert_new_present) (simp add: insert_new_keys)

lemma insert_new_distinct: "distinct (map sample_key t) \<Longrightarrow> distinct (map sample_key (insert_new t rs))"
  by (induction rs arbitrary: t) auto

lemma insert_new_prefix: "\<exists>u. insert_new t rs = t @ u \<and> set u \<subseteq> set rs"
proof (induction rs arbitrary: t)
  case (Cons r rs)
  obtain u where "insert_new (if sample_key r \<in> sample_key ` set t then t else t @ [r]) rs
      = (if sample_key r \<in> sample_key ` set t then t else t @ [r]) @ u" "set u \<subseteq> set rs"
    using Cons.IH by blast
  then show ?case by (intro exI [of _ "(if sample_key r \<in> sample_key ` set t then [] else [r]) @ u"]) auto
qed simp

lemma insert_new_length: "length t \<le> length (insert_new t rs)"
  using insert_new_prefix [of t rs] by auto

section \<open>Statements\<close>

record MetricSample =
  NodeID :: string
  CollectedAt :: int
  Context :: string
  Chart :: string
  Family :: string
  Instance :: string
  Dimension :: string
  Unit :: string
  SValue :: f64
  SLabels :: "labels option"

text \<open>A line break of the raw string literals: a newline and \<open>k\<close> tabs.\<close>

definition br :: "nat \<Rightarrow> string" where
  "br k = CHR 0x0A # replicate k (CHR 0x09)"

definition insert_sql :: "nat \<Rightarrow> string" where
  "insert_sql n =
     ''INSERT INTO hardware_metric_samples'' @ br 2
     @ ''(node_id, collected_at, context, chart, family, instance, dimension, unit, value, labels)'' @ br 2
     @ ''VALUES '' @ row_groups 10 n @ '' ON CONFLICT DO NOTHING''"

definition sample_args :: "MetricSample \<Rightarrow> sql_arg list" where
  "sample_args s =
     [AText (NodeID s), ATime (CollectedAt s), AText (Context s), AText (Chart s), AText (Family s),
      AText (Instance s), AText (Dimension s), AText (Unit s), AFloat (SValue s),
      ALabels (case SLabels s of None \<Rightarrow> [] | Some l \<Rightarrow> l)]"

text \<open>The row of the remote-write receiver and its statement.\<close>

record rw_row =
  rw_collectedAt :: int
  rw_context :: string
  rw_dimension :: string
  rw_instance :: string
  rw_value :: f64

definition rw_insert_sql :: "nat \<Rightarrow> string" where
  "rw_insert_sql n =
     ''INSERT INTO hardware_metric_samples'' @ br 3
     @ ''(node_id, collected_at, context, dimension, instance, value)'' @ br 3
     @ ''VALUES '' @ row_groups 6 n @ '' ON CONFLICT DO NOTHING''"

definition rw_args :: "string \<Rightarrow> rw_row \<Rightarrow> sql_arg list" where
  "rw_args nodeID r =
     [AText nodeID, ATime (rw_collectedAt r), AText (rw_context r), AText (rw_dimension r),
      AText (rw_instance r), AFloat (rw_value r)]"

definition upsert_sql :: string where
  "upsert_sql =
     br 2 @ ''INSERT INTO netdata_nodes (node_id, hostname, netdata_base_url)'' @ br 2
     @ ''VALUES ($1, $2, $3)'' @ br 2 @ ''ON CONFLICT (node_id)'' @ br 2 @ ''DO UPDATE SET'' @ br 3
     @ ''hostname = EXCLUDED.hostname,'' @ br 3
     @ ''netdata_base_url = EXCLUDED.netdata_base_url,'' @ br 3 @ ''updated_at = now()'' @ br 1"

definition delete_sql :: string where
  "delete_sql = ''DELETE FROM hardware_metric_samples WHERE collected_at < $1''"

definition version_exists_sql :: string where
  "version_exists_sql = ''SELECT EXISTS(SELECT 1 FROM schema_migrations WHERE version = $1)''"

definition record_version_sql :: string where
  "record_version_sql = ''INSERT INTO schema_migrations (version) VALUES ($1)''"

text \<open>The rows the two statements ask for; \<open>stamp\<close> is the driver's conversion of a Go time to the
  resolution of the column.\<close>

definition row_of :: "(int \<Rightarrow> int) \<Rightarrow> MetricSample \<Rightarrow> sample_row" where
  "row_of stamp s =
     \<lparr>r_node = NodeID s, r_at = stamp (CollectedAt s), r_context = Context s, r_chart = Some (Chart s),
      r_family = Some (Family s), r_instance = Some (Instance s), r_dimension = Dimension s,
      r_unit = Some (Unit s), r_value = SValue s,
      r_labels = (case SLabels s of None \<Rightarrow> [] | Some l \<Rightarrow> l)\<rparr>"

definition row_of_rw :: "(int \<Rightarrow> int) \<Rightarrow> string \<Rightarrow> rw_row \<Rightarrow> sample_row" where
  "row_of_rw stamp nodeID r =
     \<lparr>r_node = nodeID, r_at = stamp (rw_collectedAt r), r_context = rw_context r, r_chart = None,
      r_family = None, r_instance = Some (rw_instance r), r_dimension = rw_dimension r,
      r_unit = None, r_value = rw_value r, r_labels = []\<rparr>"

section \<open>What the code relies on\<close>

definition node_ids :: "tables \<Rightarrow> string set" where
  "node_ids t = fst ` set (tb_nodes t)"

definition add_rows :: "sample_row list \<Rightarrow> tables \<Rightarrow> tables" where
  "add_rows rs t = t\<lparr>tb_samples := insert_new (tb_samples t) rs\<rparr>"

text \<open>
  PostgreSQL, as documented: a transaction starts from the pool's tables, is private until it
  commits, and leaves the pool as it was when it is rolled back or fails to commit; a statement
  that fails changes nothing; an insert with at most 65535 parameters that succeeds has added
  the rows that do not conflict, found every node it references, and reports how many it added.
\<close>

locale postgres =
  fixes pg :: "('db, 'tx) pg"
    and tables :: "'db \<Rightarrow> tables"
    and tx_tables :: "'tx \<Rightarrow> tables"
    and base :: "'tx \<Rightarrow> 'db"
    and stamp :: "int \<Rightarrow> int"
  assumes begin_ok: "Begin pg db = Inr tx \<Longrightarrow> tx_tables tx = tables db \<and> base tx = db"
    and exec_base: "TxExec pg tx q as = (r, tx') \<Longrightarrow> base tx' = base tx"
    and rollback: "Rollback pg tx = base tx"
    and commit_ok: "Commit pg tx = (None, db) \<Longrightarrow> tables db = tx_tables tx"
    and commit_fail: "Commit pg tx = (Some e, db) \<Longrightarrow> db = base tx"
    and insert_ok: "0 < length ss \<Longrightarrow> 10 * length ss \<le> 65535 \<Longrightarrow>
      TxExec pg tx (insert_sql (length ss)) (concat (map sample_args ss)) = (Inr k, tx') \<Longrightarrow>
      tx_tables tx' = add_rows (map (row_of stamp) ss) (tx_tables tx)
        \<and> int (length (tb_samples (tx_tables tx'))) = int (length (tb_samples (tx_tables tx))) + k
        \<and> NodeID ` set ss \<subseteq> node_ids (tx_tables tx)"
    and rw_insert_ok: "0 < length rs \<Longrightarrow> 6 * length rs \<le> 65535 \<Longrightarrow>
      TxExec pg tx (rw_insert_sql (length rs)) (concat (map (rw_args n) rs)) = (Inr k, tx') \<Longrightarrow>
      tx_tables tx' = add_rows (map (row_of_rw stamp n) rs) (tx_tables tx)
        \<and> int (length (tb_samples (tx_tables tx'))) = int (length (tb_samples (tx_tables tx))) + k
        \<and> n \<in> node_ids (tx_tables tx)"
    and upsert_ok: "Exec pg db upsert_sql [AText n, AText h, AText u] = (Inr k, db') \<Longrightarrow>
      tables db' = (tables db)\<lparr>tb_nodes := upsert_node (n, h, u) (tb_nodes (tables db))\<rparr>"
    and delete_ok: "Exec pg db delete_sql [ATime c] = (Inr k, db') \<Longrightarrow>
      tables db' = (tables db)\<lparr>tb_samples := filter (\<lambda>r. \<not> r_at r < stamp c) (tb_samples (tables db))\<rparr>
        \<and> int (length (tb_samples (tables db'))) + k = int (length (tb_samples (tables db)))"
    and exec_fail: "Exec pg db q as = (Inl e, db') \<Longrightarrow> tables db' = tables db"
    and exists_ok: "QueryBool pg db version_exists_sql [AText v] = Inr b \<Longrightarrow>
      b \<longleftrightarrow> v \<in> set (tb_versions (tables db))"
    and record_ok: "Exec pg db record_version_sql [AText v] = (Inr k, db') \<Longrightarrow>
      tables db' = (tables db)\<lparr>tb_versions := tb_versions (tables db) @ [v]\<rparr>"


section \<open>Reference tables\<close>

text \<open>A transaction is the tables it started from and the tables it sees.\<close>

definition micro :: "int \<Rightarrow> int" where
  "micro ns = ns div 1000"

definition row_of_args :: "sql_arg list \<Rightarrow> sample_row option" where
  "row_of_args as = (case as of
     [AText n, ATime t, AText c, AText ch, AText f, AText i, AText d, AText u, AFloat v, ALabels l] \<Rightarrow>
       Some \<lparr>r_node = n, r_at = micro t, r_context = c, r_chart = Some ch, r_family = Some f,
         r_instance = Some i, r_dimension = d, r_unit = Some u, r_value = v, r_labels = l\<rparr>
   | [AText n, ATime t, AText c, AText d, AText i, AFloat v] \<Rightarrow>
       Some \<lparr>r_node = n, r_at = micro t, r_context = c, r_chart = None, r_family = None,
         r_instance = Some i, r_dimension = d, r_unit = None, r_value = v, r_labels = []\<rparr>
   | _ \<Rightarrow> None)"

definition ref_insert :: "tables \<Rightarrow> sql_arg list list \<Rightarrow> (string + int) \<times> tables" where
  "ref_insert t ass =
     (let rs = List.map_filter row_of_args ass; t' = add_rows rs t in
      if length rs \<noteq> length ass then (Inl ''type mismatch'', t)
      else if \<not> list_all (\<lambda>r. r_node r \<in> node_ids t) rs then (Inl ''violates foreign key constraint'', t)
      else (Inr (int (length (tb_samples t')) - int (length (tb_samples t))), t'))"

definition ref_tx_exec :: "tables \<times> tables \<Rightarrow> string \<Rightarrow> sql_arg list
    \<Rightarrow> (string + int) \<times> (tables \<times> tables)" where
  "ref_tx_exec tx q as =
     (let (r, t) =
        (if length as > 65535 then (Inl ''too many parameters'', snd tx)
         else if q = insert_sql (length as div 10) then ref_insert (snd tx) (chunks 10 as)
         else if q = rw_insert_sql (length as div 6) then ref_insert (snd tx) (chunks 6 as)
         else (Inl ''syntax error'', snd tx))
      in (r, (fst tx, t)))"

definition ref_exec :: "tables \<Rightarrow> string \<Rightarrow> sql_arg list \<Rightarrow> (string + int) \<times> tables" where
  "ref_exec t q as =
     (case as of
        [AText n, AText h, AText u] \<Rightarrow>
          if q = upsert_sql then (Inr 1, t\<lparr>tb_nodes := upsert_node (n, h, u) (tb_nodes t)\<rparr>)
          else (Inl ''syntax error'', t)
      | [ATime c] \<Rightarrow>
          if q = delete_sql
          then (let rs = filter (\<lambda>r. \<not> r_at r < micro c) (tb_samples t) in
                (Inr (int (length (tb_samples t)) - int (length rs)), t\<lparr>tb_samples := rs\<rparr>))
          else (Inl ''syntax error'', t)
      | [AText v] \<Rightarrow>
          if q = record_version_sql then
            (if v \<in> set (tb_versions t) then (Inl ''duplicate key'', t)
             else (Inr 1, t\<lparr>tb_versions := tb_versions t @ [v]\<rparr>))
          else (Inr 0, t)
      | _ \<Rightarrow> (Inr 0, t))"

definition ref_pg :: "(tables, tables \<times> tables) pg" where
  "ref_pg =
     \<lparr>Begin = \<lambda>t. Inr (t, t), TxExec = ref_tx_exec, Commit = \<lambda>tx. (None, snd tx),
      Rollback = fst, Exec = ref_exec,
      QueryBool = \<lambda>t q as. (case as of [AText v] \<Rightarrow> Inr (v \<in> set (tb_versions t)) | _ \<Rightarrow> Inl ''type mismatch'')\<rparr>"

lemma row_of_sample_args: "row_of_args (sample_args s) = Some (row_of micro s)"
  by (simp add: row_of_args_def sample_args_def row_of_def)

lemma row_of_rw_args: "row_of_args (rw_args n r) = Some (row_of_rw micro n r)"
  by (simp add: row_of_args_def rw_args_def row_of_rw_def)

lemma map_filter_all: "(\<And>x. x \<in> set xs \<Longrightarrow> f (g x) = Some (h x)) \<Longrightarrow> List.map_filter f (map g xs) = map h xs"
  by (induction xs) (simp_all add: List.map_filter_simps)

lemma chunks_concat:
  assumes "0 < n" and "\<And>c. c \<in> set cs \<Longrightarrow> length c = n"
  shows "chunks n (concat cs) = cs"
  using assms(2)
proof (induction cs)
  case (Cons c cs)
  then have "c @ concat cs \<noteq> []" using assms(1) by auto
  with Cons assms(1) show ?case by (simp add: chunks_step)
qed simp

lemma statements_differ: "rw_insert_sql m \<noteq> insert_sql n"
  by (simp add: rw_insert_sql_def insert_sql_def br_def numeral_eq_Suc)

lemma length_concat_const: "(\<And>x. x \<in> set xs \<Longrightarrow> length (f x) = n) \<Longrightarrow> length (concat (map f xs)) = length xs * n"
  by (induction xs) simp_all

lemma ref_insert_statement:
  assumes "10 * length ss \<le> 65535"
  shows "ref_tx_exec tx (insert_sql (length ss)) (concat (map sample_args ss))
    = (let (r, t) = ref_insert (snd tx) (map sample_args ss) in (r, (fst tx, t)))"
proof -
  have l: "length (concat (map sample_args ss)) = length ss * 10"
    by (rule length_concat_const) (simp add: sample_args_def)
  have "chunks 10 (concat (map sample_args ss)) = map sample_args ss"
    by (rule chunks_concat) (auto simp: sample_args_def)
  with l assms show ?thesis by (simp add: ref_tx_exec_def)
qed

lemma ref_rw_insert_statement:
  assumes "6 * length rs \<le> 65535"
  shows "ref_tx_exec tx (rw_insert_sql (length rs)) (concat (map (rw_args n) rs))
    = (let (r, t) = ref_insert (snd tx) (map (rw_args n) rs) in (r, (fst tx, t)))"
proof -
  have l: "length (concat (map (rw_args n) rs)) = length rs * 6"
    by (rule length_concat_const) (simp add: rw_args_def)
  have "chunks 6 (concat (map (rw_args n) rs)) = map (rw_args n) rs"
    by (rule chunks_concat) (auto simp: rw_args_def)
  with l assms show ?thesis by (simp add: ref_tx_exec_def statements_differ)
qed

lemma ref_insert_OkD:
  assumes "ref_insert t (map g xs) = (Inr k, t')" and "\<And>x. row_of_args (g x) = Some (h x)"
  shows "t' = add_rows (map h xs) t \<and> int (length (tb_samples t')) = int (length (tb_samples t)) + k
    \<and> (\<forall>x \<in> set xs. r_node (h x) \<in> node_ids t)"
  using assms(1) map_filter_all [of xs row_of_args g h] assms(2)
  by (auto simp: ref_insert_def Let_def list_all_iff split: if_splits)

interpretation ref: postgres ref_pg id snd fst micro
proof unfold_locales
  fix ss :: "MetricSample list" and tx tx' k
  assume "10 * length ss \<le> 65535"
    and "TxExec ref_pg tx (insert_sql (length ss)) (concat (map sample_args ss)) = (Inr k, tx')"
  then obtain t where "ref_insert (snd tx) (map sample_args ss) = (Inr k, t)" and "tx' = (fst tx, t)"
    by (auto simp: ref_pg_def ref_insert_statement split: prod.splits)
  with ref_insert_OkD [OF this(1), of "row_of micro"]
  show "snd tx' = add_rows (map (row_of micro) ss) (snd tx)
      \<and> int (length (tb_samples (snd tx'))) = int (length (tb_samples (snd tx))) + k
      \<and> NodeID ` set ss \<subseteq> node_ids (snd tx)"
    by (auto simp: row_of_sample_args) (simp add: row_of_def)
next
  fix rs :: "rw_row list" and tx tx' k n
  assume "0 < length rs" and "6 * length rs \<le> 65535"
    and "TxExec ref_pg tx (rw_insert_sql (length rs)) (concat (map (rw_args n) rs)) = (Inr k, tx')"
  then obtain t where "ref_insert (snd tx) (map (rw_args n) rs) = (Inr k, t)" and "tx' = (fst tx, t)"
    by (auto simp: ref_pg_def ref_rw_insert_statement split: prod.splits)
  with ref_insert_OkD [OF this(1), of "row_of_rw micro n"] \<open>0 < length rs\<close>
  show "snd tx' = add_rows (map (row_of_rw micro n) rs) (snd tx)
      \<and> int (length (tb_samples (snd tx'))) = int (length (tb_samples (snd tx))) + k
      \<and> n \<in> node_ids (snd tx)"
    by (cases rs) (auto simp: row_of_rw_args row_of_rw_def)
qed (auto simp: ref_pg_def ref_tx_exec_def ref_exec_def Let_def add_rows_def
    split: prod.splits if_splits list.splits sql_arg.splits)

end
