(* ===== verification/PgStore.thy ===== *)
theory PgStore
  imports PgTables
begin

text \<open>
  \<open>internal/store/store.go\<close> and \<open>rollup.go\<close>: the operations of \<open>Store\<close> on the driver of
  \<open>PgTables\<close>. Results are pairs of the Go return values (an error is \<open>Some\<close> text) and the state of
  the pool after the call; \<open>now\<close> is the reading of \<open>time.Now\<close>, in nanoseconds.
\<close>

section \<open>Inserting samples\<close>

type_synonym 'db result = "(int \<times> string option) \<times> 'db"

definition insertBatch :: "('db, 'tx) pg \<Rightarrow> 'tx \<Rightarrow> MetricSample list \<Rightarrow> (string + int) \<times> 'tx" where
  "insertBatch pg tx samples =
     (if samples = [] then (Inr 0, tx)
      else TxExec pg tx (insert_sql (length samples)) (concat (map sample_args samples)))"

text \<open>
  A loop over batches of 500 inside a transaction: \<open>run\<close> inserts one batch, \<open>what\<close> starts the error
  text, \<open>add\<close> updates the count that is returned, also with an error. The store and the
  remote-write receiver both have this loop.
\<close>

fun batch_loop :: "('tx \<Rightarrow> 'a list \<Rightarrow> (string + int) \<times> 'tx) \<Rightarrow> string \<Rightarrow> (int \<Rightarrow> int \<Rightarrow> 'a list \<Rightarrow> int)
    \<Rightarrow> 'tx \<Rightarrow> int \<Rightarrow> int \<Rightarrow> 'a list list \<Rightarrow> (int \<times> string option) \<times> 'tx" where
  "batch_loop run what add tx i n [] = ((n, None), tx)"
| "batch_loop run what add tx i n (b # bs) =
     (case run tx b of
        (Inl e, tx') \<Rightarrow> ((n, Some (what @ '' at offset '' @ itoa i @ '': '' @ e)), tx')
      | (Inr k, tx') \<Rightarrow> batch_loop run what add tx' (i + 500) (add n k b) bs)"

definition InsertSamples :: "('db, 'tx) pg \<Rightarrow> 'db \<Rightarrow> MetricSample list \<Rightarrow> 'db result" where
  "InsertSamples pg db samples =
     (if samples = [] then ((0, None), db)
      else case Begin pg db of
        Inl e \<Rightarrow> ((0, Some (''beginning transaction: '' @ e)), db)
      | Inr tx \<Rightarrow>
          (case batch_loop (insertBatch pg) ''inserting batch'' (\<lambda>n k b. wrap64 (n + k)) tx 0 0
                  (chunks 500 samples) of
             ((m, Some e), tx') \<Rightarrow> ((m, Some e), Rollback pg tx')
           | ((m, None), tx') \<Rightarrow>
               (case Commit pg tx' of
                  (Some e, db') \<Rightarrow> ((0, Some (''committing transaction: '' @ e)), db')
                | (None, db') \<Rightarrow> ((m, None), db'))))"

section \<open>Nodes, retention, rollups\<close>

definition UpsertNode :: "('db, 'tx) pg \<Rightarrow> 'db \<Rightarrow> string \<Rightarrow> string \<Rightarrow> string \<Rightarrow> string option \<times> 'db" where
  "UpsertNode pg db nodeID hostname baseURL =
     (case Exec pg db upsert_sql [AText nodeID, AText hostname, AText baseURL] of
        (Inl e, db') \<Rightarrow> (Some (''upserting node '' @ nodeID @ '': '' @ e), db')
      | (Inr _, db') \<Rightarrow> (None, db'))"

definition DeleteOldSamples :: "('db, 'tx) pg \<Rightarrow> 'db \<Rightarrow> int \<Rightarrow> int \<Rightarrow> 'db result" where
  "DeleteOldSamples pg db now olderThan =
     (let cutoff = now + wrap64 (- olderThan) in
      case Exec pg db delete_sql [ATime cutoff] of
        (Inl e, db') \<Rightarrow> ((0, Some (''deleting old samples: '' @ e)), db')
      | (Inr k, db') \<Rightarrow> ((k, None), db'))"

definition hour_ns :: int where "hour_ns = 3600000000000"

definition rollup_header :: "string \<Rightarrow> string" where
  "rollup_header table =
     br 2 @ ''INSERT INTO '' @ table @ br 3
     @ ''(node_id, bucket, context, dimension, instance, unit, avg_value, min_value, max_value, sample_count)''
     @ br 2 @ ''SELECT'' @ br 3 @ ''node_id,'' @ br 3"

definition rollup_conflict :: "string \<Rightarrow> string" where
  "rollup_conflict constraint =
     ''ON CONFLICT ON CONSTRAINT '' @ constraint @ br 2 @ ''DO UPDATE SET'' @ br 3
     @ ''avg_value = EXCLUDED.avg_value,'' @ br 3 @ ''min_value = EXCLUDED.min_value,'' @ br 3
     @ ''max_value = EXCLUDED.max_value,'' @ br 3 @ ''sample_count = EXCLUDED.sample_count,'' @ br 3
     @ ''created_at = now()'' @ br 1"

definition hourly_sql :: string where
  "hourly_sql =
     rollup_header ''hardware_metric_rollups_1h''
     @ ''date_trunc('' @ [CHR 0x27] @ ''hour'' @ [CHR 0x27] @ '', collected_at) AS bucket,'' @ br 3
     @ ''context,'' @ br 3 @ ''dimension,'' @ br 3
     @ ''COALESCE(instance, '' @ [CHR 0x27, CHR 0x27] @ '') AS instance,'' @ br 3
     @ ''COALESCE(MAX(unit), '' @ [CHR 0x27, CHR 0x27] @ '') AS unit,'' @ br 3
     @ ''AVG(value) AS avg_value,'' @ br 3 @ ''MIN(value) AS min_value,'' @ br 3
     @ ''MAX(value) AS max_value,'' @ br 3 @ ''COUNT(*)::INTEGER AS sample_count'' @ br 2
     @ ''FROM hardware_metric_samples'' @ br 2 @ ''WHERE collected_at >= $1 AND collected_at < $2'' @ br 2
     @ ''GROUP BY node_id, date_trunc('' @ [CHR 0x27] @ ''hour'' @ [CHR 0x27]
     @ '', collected_at), context, dimension, COALESCE(instance, '' @ [CHR 0x27, CHR 0x27] @ '')'' @ br 2
     @ rollup_conflict ''uq_rollup_1h''"

definition daily_sql :: string where
  "daily_sql =
     rollup_header ''hardware_metric_rollups_1d''
     @ ''date_trunc('' @ [CHR 0x27] @ ''day'' @ [CHR 0x27] @ '', bucket) AS day_bucket,'' @ br 3
     @ ''context,'' @ br 3 @ ''dimension,'' @ br 3 @ ''instance,'' @ br 3
     @ ''MAX(unit) AS unit,'' @ br 3
     @ ''SUM(avg_value * sample_count) / NULLIF(SUM(sample_count), 0) AS avg_value,'' @ br 3
     @ ''MIN(min_value) AS min_value,'' @ br 3 @ ''MAX(max_value) AS max_value,'' @ br 3
     @ ''SUM(sample_count) AS sample_count'' @ br 2
     @ ''FROM hardware_metric_rollups_1h'' @ br 2 @ ''WHERE bucket < $1'' @ br 2
     @ ''GROUP BY node_id, date_trunc('' @ [CHR 0x27] @ ''day'' @ [CHR 0x27]
     @ '', bucket), context, dimension, instance'' @ br 2
     @ rollup_conflict ''uq_rollup_1d''"

definition AggregateHourly :: "('db, 'tx) pg \<Rightarrow> 'db \<Rightarrow> int \<Rightarrow> 'db result" where
  "AggregateHourly pg db before =
     (let lowerBound = before + - 3 * hour_ns in
      case Exec pg db hourly_sql [ATime lowerBound, ATime before] of
        (Inl e, db') \<Rightarrow> ((0, Some (''aggregating hourly rollups: '' @ e)), db')
      | (Inr k, db') \<Rightarrow> ((k, None), db'))"

definition AggregateDaily :: "('db, 'tx) pg \<Rightarrow> 'db \<Rightarrow> int \<Rightarrow> 'db result" where
  "AggregateDaily pg db before =
     (case Exec pg db daily_sql [ATime before] of
        (Inl e, db') \<Rightarrow> ((0, Some (''aggregating daily rollups: '' @ e)), db')
      | (Inr k, db') \<Rightarrow> ((k, None), db'))"

definition delete_hourly_sql :: string where
  "delete_hourly_sql = ''DELETE FROM hardware_metric_rollups_1h WHERE bucket < $1''"

definition delete_daily_sql :: string where
  "delete_daily_sql = ''DELETE FROM hardware_metric_rollups_1d WHERE bucket < $1''"

text \<open>The two deletes read the clock once each: \<open>now1\<close> and \<open>now2\<close>.\<close>

definition DeleteOldRollups :: "('db, 'tx) pg \<Rightarrow> 'db \<Rightarrow> int \<Rightarrow> int \<Rightarrow> int \<Rightarrow> int \<Rightarrow> 'db result" where
  "DeleteOldRollups pg db now1 now2 hourlyRetention dailyRetention =
     (let first =
        (if hourlyRetention > 0 then
           (case Exec pg db delete_hourly_sql [ATime (now1 + wrap64 (- hourlyRetention))] of
              (Inl e, db') \<Rightarrow> ((0, Some (''deleting old hourly rollups: '' @ e)), db')
            | (Inr k, db') \<Rightarrow> ((k, None), db'))
         else ((0, None), db))
      in case first of
           ((n, Some e), db1) \<Rightarrow> ((n, Some e), db1)
         | ((m, None), db1) \<Rightarrow>
             if dailyRetention > 0 then
               (case Exec pg db1 delete_daily_sql [ATime (now2 + wrap64 (- dailyRetention))] of
                  (Inl e, db') \<Rightarrow> ((m, Some (''deleting old daily rollups: '' @ e)), db')
                | (Inr k, db') \<Rightarrow> ((wrap64 (m + k), None), db'))
             else ((m, None), db1))"

section \<open>Migrations\<close>

text \<open>An embedded directory entry: its name, whether it is a directory, its text.\<close>

type_synonym dir_entry = "string \<times> bool \<times> string"

definition lock_sql :: string where "lock_sql = ''SELECT pg_advisory_lock($1)''"
definition unlock_sql :: string where "unlock_sql = ''SELECT pg_advisory_unlock($1)''"
definition lockID :: int where "lockID = 0x4e444d43"

definition create_versions_sql :: string where
  "create_versions_sql =
     br 2 @ ''CREATE TABLE IF NOT EXISTS schema_migrations ('' @ br 3 @ ''version TEXT PRIMARY KEY,''
     @ br 3 @ ''applied_at TIMESTAMPTZ NOT NULL DEFAULT now()'' @ br 2 @ '')'' @ br 1"

definition migrate_one :: "('db, 'tx) pg \<Rightarrow> 'db \<Rightarrow> dir_entry \<Rightarrow> string option \<times> 'db" where
  "migrate_one pg db entry =
     (let (version, isDir, sql) = entry in
      if isDir \<or> \<not> HasSuffix version ''.sql'' then (None, db)
      else case QueryBool pg db version_exists_sql [AText version] of
        Inl e \<Rightarrow> (Some (''checking migration '' @ version @ '': '' @ e), db)
      | Inr True \<Rightarrow> (None, db)
      | Inr False \<Rightarrow>
          (case Exec pg db sql [] of
             (Inl e, db') \<Rightarrow> (Some (''applying migration '' @ version @ '': '' @ e), db')
           | (Inr _, db') \<Rightarrow>
               (case Exec pg db' record_version_sql [AText version] of
                  (Inl e, db'') \<Rightarrow> (Some (''recording migration '' @ version @ '': '' @ e), db'')
                | (Inr _, db'') \<Rightarrow> (None, db''))))"

fun migrate_loop :: "('db, 'tx) pg \<Rightarrow> 'db \<Rightarrow> dir_entry list \<Rightarrow> string option \<times> 'db" where
  "migrate_loop pg db [] = (None, db)"
| "migrate_loop pg db (e # es) =
     (case migrate_one pg db e of
        (Some err, db') \<Rightarrow> (Some err, db')
      | (None, db') \<Rightarrow> migrate_loop pg db' es)"

definition Migrate :: "('db, 'tx) pg \<Rightarrow> dir_entry list \<Rightarrow> 'db \<Rightarrow> string option \<times> 'db" where
  "Migrate pg entries db =
     (case Exec pg db lock_sql [AInt lockID] of
        (Inl e, db1) \<Rightarrow> (Some (''acquiring migration lock: '' @ e), db1)
      | (Inr _, db1) \<Rightarrow>
          (let (r, db2) =
             (case Exec pg db1 create_versions_sql [] of
                (Inl e, db2) \<Rightarrow> (Some (''creating migrations table: '' @ e), db2)
              | (Inr _, db2) \<Rightarrow> migrate_loop pg db2 (sort_key fst entries))
           in (r, snd (Exec pg db2 unlock_sql [AInt lockID]))))"

section \<open>Pool settings\<close>

record PoolOptions =
  MinConns :: int
  MaxConns :: int
  MaxConnLifetime :: int
  MaxConnIdleTime :: int
  HealthCheckPeriod :: int

definition pool_settings :: "PoolOptions option \<Rightarrow> PoolOptions" where
  "pool_settings opts =
     (let d = \<lparr>MinConns = 2, MaxConns = 10, MaxConnLifetime = 30 * 60 * 1000000000,
               MaxConnIdleTime = 5 * 60 * 1000000000, HealthCheckPeriod = 30 * 1000000000\<rparr> in
      case opts of
        None \<Rightarrow> d
      | Some o' \<Rightarrow>
          \<lparr>MinConns = (if MinConns o' > 0 then MinConns o' else MinConns d),
           MaxConns = (if MaxConns o' > 0 then MaxConns o' else MaxConns d),
           MaxConnLifetime = (if MaxConnLifetime o' > 0 then MaxConnLifetime o' else MaxConnLifetime d),
           MaxConnIdleTime = (if MaxConnIdleTime o' > 0 then MaxConnIdleTime o' else MaxConnIdleTime d),
           HealthCheckPeriod =
             (if HealthCheckPeriod o' > 0 then HealthCheckPeriod o' else HealthCheckPeriod d)\<rparr>)"

text \<open>Opening the store: reading the connection string, connecting with the settings, and a ping.\<close>

definition NewWithPoolOptions :: "(string \<Rightarrow> string + 'cfg) \<Rightarrow> ('cfg \<Rightarrow> PoolOptions \<Rightarrow> string + 'db) \<Rightarrow> ('db \<Rightarrow> string option)
    \<Rightarrow> string \<Rightarrow> PoolOptions option \<Rightarrow> string + 'db" where
  "NewWithPoolOptions parse connect ping dsn opts =
     (case parse dsn of
        Inl e \<Rightarrow> Inl (''parsing postgres DSN: '' @ e)
      | Inr c \<Rightarrow>
          (case connect c (pool_settings opts) of
             Inl e \<Rightarrow> Inl (''connecting to postgres: '' @ e)
           | Inr db \<Rightarrow> (case ping db of Some e \<Rightarrow> Inl (''pinging postgres: '' @ e) | None \<Rightarrow> Inr db)))"

definition NewStore :: "(string \<Rightarrow> string + 'cfg) \<Rightarrow> ('cfg \<Rightarrow> PoolOptions \<Rightarrow> string + 'db) \<Rightarrow> ('db \<Rightarrow> string option)
    \<Rightarrow> string \<Rightarrow> string + 'db" where
  "NewStore parse connect ping dsn = NewWithPoolOptions parse connect ping dsn None"

text \<open>The nodes and an error, as the function returns them: both when the iteration fails at its end.\<close>

record NodeInfo =
  ni_NodeID :: string
  ni_Hostname :: string
  ni_NetdataBaseURL :: string
  ni_LastCollectedAt :: "int option"

definition nodes_sql :: string where
  "nodes_sql =
     br 2 @ ''SELECT'' @ br 3 @ ''n.node_id,'' @ br 3 @ ''COALESCE(n.hostname, '' @ [CHR 0x27, CHR 0x27] @ ''),'' @ br 3
     @ ''COALESCE(n.netdata_base_url, '' @ [CHR 0x27, CHR 0x27] @ ''),'' @ br 3
     @ ''(SELECT MAX(collected_at) FROM hardware_metric_samples WHERE node_id = n.node_id)'' @ br 2
     @ ''FROM netdata_nodes n'' @ br 2 @ ''ORDER BY n.node_id'' @ br 1"

definition ListNodes :: "(string \<Rightarrow> sql_arg list \<Rightarrow> string + (string + NodeInfo) list \<times> string option)
    \<Rightarrow> NodeInfo list \<times> string option" where
  "ListNodes query =
     (case query nodes_sql [] of
        Inl e \<Rightarrow> ([], Some (''listing nodes: '' @ e))
      | Inr (rows, err) \<Rightarrow>
          (case scan_rows rows of
             Inl e \<Rightarrow> ([], Some (''scanning node: '' @ e))
           | Inr nodes \<Rightarrow> (nodes, err)))"

section \<open>What the operations do to the tables\<close>

lemma insert_new_length_le: "length (insert_new t rs) \<le> length t + length rs"
proof (induction rs arbitrary: t)
  case (Cons r rs)
  show ?case
    using Cons.IH [of t] Cons.IH [of "t @ [r]"] by auto
qed simp

lemma add_rows_append: "add_rows (a @ b) t = add_rows b (add_rows a t)"
  by (simp add: add_rows_def insert_new_append)

lemma node_ids_add_rows [simp]: "node_ids (add_rows rs t) = node_ids t"
  by (simp add: node_ids_def add_rows_def)

definition count_rows :: "tables \<Rightarrow> int" where
  "count_rows t = int (length (tb_samples t))"

text \<open>
  The loop over batches, for any statement that adds the rows of its batch: the batches together
  add what one statement with all of them would, and the transaction keeps its base.
\<close>

locale batch_insert =
  fixes run :: "'tx \<Rightarrow> 'a list \<Rightarrow> (string + int) \<times> 'tx"
    and view :: "'tx \<Rightarrow> tables"
    and base :: "'tx \<Rightarrow> 'db"
    and to_row :: "'a \<Rightarrow> sample_row"
  assumes run_base: "run tx b = (r, tx') \<Longrightarrow> base tx' = base tx"
    and run_ok: "b \<noteq> [] \<Longrightarrow> length b \<le> 500 \<Longrightarrow> run tx b = (Inr k, tx') \<Longrightarrow>
      view tx' = add_rows (map to_row b) (view tx) \<and> count_rows (view tx') = count_rows (view tx) + k
        \<and> r_node ` to_row ` set b \<subseteq> node_ids (view tx)"
begin

lemma loop_base: "batch_loop run what add tx i n bs = (r, tx') \<Longrightarrow> base tx' = base tx"
proof (induction bs arbitrary: tx i n)
  case (Cons b bs)
  obtain r1 tx1 where "run tx b = (r1, tx1)" by fastforce
  with Cons run_base [OF this] show ?case by (cases r1) auto
qed simp

lemma loop_rows:
  "batch_loop run what add tx i n bs = ((m, None), tx') \<Longrightarrow> (\<And>b. b \<in> set bs \<Longrightarrow> b \<noteq> [] \<and> length b \<le> 500)
    \<Longrightarrow> view tx' = add_rows (map to_row (concat bs)) (view tx)
      \<and> r_node ` to_row ` set (concat bs) \<subseteq> node_ids (view tx)"
proof (induction bs arbitrary: tx i n)
  case (Cons b bs)
  obtain r1 tx1 where r: "run tx b = (r1, tx1)" by fastforce
  with Cons.prems(1) obtain k where k: "r1 = Inr k" by (cases r1) auto
  have v: "view tx1 = add_rows (map to_row b) (view tx)" "r_node ` to_row ` set b \<subseteq> node_ids (view tx)"
    using run_ok [of b tx k tx1] Cons.prems(2) [of b] r k by auto
  have "batch_loop run what add tx1 (i + 500) (add n k b) bs = ((m, None), tx')"
    using Cons.prems(1) r k by simp
  from Cons.IH [OF this] Cons.prems(2) v show ?case by (simp add: add_rows_append image_Un)
qed (simp add: add_rows_def)

text \<open>The count of rows, where it is the sum of what the statements report.\<close>

lemma loop_count:
  "batch_loop run what (\<lambda>n k b. wrap64 (n + k)) tx i n bs = ((m, None), tx')
    \<Longrightarrow> (\<And>b. b \<in> set bs \<Longrightarrow> b \<noteq> [] \<and> length b \<le> 500)
    \<Longrightarrow> 0 \<le> n \<Longrightarrow> n + int (length (concat bs)) < 2 ^ 63
    \<Longrightarrow> m = n + (count_rows (view tx') - count_rows (view tx))"
proof (induction bs arbitrary: tx i n)
  case (Cons b bs)
  obtain r1 tx1 where r: "run tx b = (r1, tx1)" by fastforce
  with Cons.prems(1) obtain k where k: "r1 = Inr k" by (cases r1) auto
  have v: "view tx1 = add_rows (map to_row b) (view tx)" "count_rows (view tx1) = count_rows (view tx) + k"
    using run_ok [of b tx k tx1] Cons.prems(2) [of b] r k by auto
  have kb: "0 \<le> k" "k \<le> int (length b)"
    using v insert_new_length [of "tb_samples (view tx)" "map to_row b"]
      insert_new_length_le [of "tb_samples (view tx)" "map to_row b"]
    by (simp_all add: count_rows_def add_rows_def)
  have w: "wrap64 (n + k) = n + k"
    using Cons.prems(3,4) kb by (intro wrap64_id) (simp add: in64_def)
  have l: "batch_loop run what (\<lambda>n k b. wrap64 (n + k)) tx1 (i + 500) (n + k) bs = ((m, None), tx')"
    using Cons.prems(1) r k w by simp
  have s: "\<And>b. b \<in> set bs \<Longrightarrow> b \<noteq> [] \<and> length b \<le> 500" using Cons.prems(2) by simp
  have "m = n + k + (count_rows (view tx') - count_rows (view tx1))"
    by (rule Cons.IH [OF l s]) (use Cons.prems(3,4) kb in simp_all)
  with v(2) show ?case by simp
qed simp

end


lemma NodeID_row: "r_node (row_of stamp s) = NodeID s"
  by (simp add: row_of_def)

sublocale postgres \<subseteq> ins: batch_insert "insertBatch pg" tx_tables base "row_of stamp"
proof unfold_locales
  fix tx b r tx' assume "insertBatch pg tx b = (r, tx')"
  then show "base tx' = base tx" by (auto simp: insertBatch_def dest: exec_base split: if_splits)
next
  fix b :: "MetricSample list" and tx k tx'
  assume b: "b \<noteq> []" "length b \<le> 500" and r: "insertBatch pg tx b = (Inr k, tx')"
  then have "tx_tables tx' = add_rows (map (row_of stamp) b) (tx_tables tx)
      \<and> int (length (tb_samples (tx_tables tx'))) = int (length (tb_samples (tx_tables tx))) + k
      \<and> NodeID ` set b \<subseteq> node_ids (tx_tables tx)"
    by (intro insert_ok) (simp_all add: insertBatch_def)
  then show "tx_tables tx' = add_rows (map (row_of stamp) b) (tx_tables tx)
      \<and> count_rows (tx_tables tx') = count_rows (tx_tables tx) + k
      \<and> r_node ` row_of stamp ` set b \<subseteq> node_ids (tx_tables tx)"
    unfolding count_rows_def image_image NodeID_row .
qed

lemma batches_small: "b \<in> set (chunks 500 ss) \<Longrightarrow> b \<noteq> [] \<and> length b \<le> 500"
  by (rule chunks_sizes)

lemma concat_batches: "concat (chunks 500 ss) = ss"
  by (rule concat_chunks) simp

context postgres
begin

lemma InsertSamples_error: "InsertSamples pg db ss = ((n, Some e), db') \<Longrightarrow> db' = db"
  by (auto simp: InsertSamples_def rollback begin_ok split: if_splits sum.splits prod.splits option.splits
      dest!: ins.loop_base commit_fail dest: begin_ok)

lemma InsertSamples_ok:
  assumes "InsertSamples pg db ss = ((n, None), db')" and "int (length ss) < 2 ^ 63"
  shows "tables db' = add_rows (map (row_of stamp) ss) (tables db)
    \<and> n = count_rows (tables db') - count_rows (tables db) \<and> NodeID ` set ss \<subseteq> node_ids (tables db)"
proof (cases "ss = []")
  case True
  with assms show ?thesis by (simp add: InsertSamples_def add_rows_def count_rows_def)
next
  case False
  obtain tx tx' where tx: "Begin pg db = Inr tx"
    and l: "batch_loop (insertBatch pg) ''inserting batch'' (\<lambda>n k b. wrap64 (n + k)) tx 0 0 (chunks 500 ss)
      = ((n, None), tx')"
    and c: "Commit pg tx' = (None, db')"
    using assms(1) False by (auto simp: InsertSamples_def split: sum.splits prod.splits option.splits)
  have t: "tx_tables tx = tables db" "tables db' = tx_tables tx'"
    using begin_ok [OF tx] commit_ok [OF c] by simp_all
  have "n = 0 + (count_rows (tx_tables tx') - count_rows (tx_tables tx))"
    by (rule ins.loop_count [OF l batches_small]) (use assms(2) in \<open>simp_all add: concat_batches\<close>)
  with ins.loop_rows [OF l batches_small] t show ?thesis
    by (simp add: concat_batches image_image NodeID_row)
qed

end

text \<open>C1. Inserting samples is all or nothing, however many batches it takes. With an error the pool is
  exactly what it was; without one, the rows whose key is new have been added in order, every
  node was registered, and the count returned is the number of rows the table gained.\<close>

theorem InsertSamples_atomic:
  assumes "postgres pg tables tx_tables base stamp"
    and "InsertSamples pg db ss = ((n, err), db')" and "int (length ss) < 2 ^ 63"
  shows "case err of
      Some e \<Rightarrow> db' = db
    | None \<Rightarrow> tables db' = add_rows (map (row_of stamp) ss) (tables db)
        \<and> n = count_rows (tables db') - count_rows (tables db) \<and> NodeID ` set ss \<subseteq> node_ids (tables db)"
proof (cases err)
  case None
  show ?thesis
    unfolding None option.case
    by (rule postgres.InsertSamples_ok [OF assms(1) assms(2) [unfolded None] assms(3)])
next
  case (Some e)
  show ?thesis
    unfolding Some option.case
    by (rule postgres.InsertSamples_error [OF assms(1) assms(2) [unfolded Some]])
qed

definition demo_sample :: "int \<Rightarrow> MetricSample" where
  "demo_sample t = \<lparr>NodeID = ''n1'', CollectedAt = t, Context = ''system.cpu'', Chart = ''cpu'', Family = [],
     Instance = [], Dimension = ''user'', Unit = ''%'', SValue = Fin 1, SLabels = None\<rparr>"

definition demo_tables :: tables where
  "demo_tables = \<lparr>tb_nodes = [(''n1'', ''h'', ''u'')], tb_samples = [], tb_versions = []\<rparr>"

text \<open>The reference tables accept a batch whose nodes are registered.\<close>

lemma InsertSamples_ref:
  assumes "ss \<noteq> []" and "length ss \<le> 500" and "NodeID ` set ss \<subseteq> node_ids t"
  shows "InsertSamples ref_pg t ss
    = ((wrap64 (count_rows (add_rows (map (row_of micro) ss) t) - count_rows t), None),
       add_rows (map (row_of micro) ss) t)"
proof -
  have "chunks 500 ss = [ss]" using assms(1,2) by (simp add: chunks_step)
  moreover have "List.map_filter row_of_args (map sample_args ss) = map (row_of micro) ss"
    by (rule map_filter_all) (rule row_of_sample_args)
  moreover have "list_all (\<lambda>r. r_node r \<in> node_ids t) (map (row_of micro) ss)"
    using assms(3) by (auto simp: list_all_iff NodeID_row)
  ultimately show ?thesis
    using assms(1,2)
    by (simp add: InsertSamples_def insertBatch_def ref_pg_def ref_insert_statement ref_insert_def
        Let_def count_rows_def)
qed

theorem InsertSamples_atomic_witness:
  "case InsertSamples ref_pg demo_tables [demo_sample 1000, demo_sample 1999, demo_sample 5000] of
     ((n, err), db') \<Rightarrow> err = None \<and> n = 2 \<and> map r_at (tb_samples db') = [1, 5]
       \<and> id db' = add_rows (map (row_of micro) [demo_sample 1000, demo_sample 1999, demo_sample 5000])
           (id demo_tables)"
proof -
  let ?ss = "[demo_sample 1000, demo_sample 1999, demo_sample 5000]"
  obtain n db' where r: "InsertSamples ref_pg demo_tables ?ss = ((n, None), db')"
    by (simp add: InsertSamples_ref demo_tables_def demo_sample_def node_ids_def)
  have l: "int (length ?ss) < 2 ^ 63" by simp
  show ?thesis
    unfolding r prod.case
    using InsertSamples_atomic [OF ref.postgres_axioms r l, unfolded option.case]
    by (simp add: add_rows_def demo_tables_def demo_sample_def row_of_def micro_def sample_key_def
        coalesce_def count_rows_def)
qed

text \<open>Storing the same samples again is harmless: after a successful insert, any samples whose keys
  were among those stored add nothing, and the call reports 0 rows.\<close>

theorem InsertSamples_idempotent:
  assumes "postgres pg tables tx_tables base stamp"
    and "InsertSamples pg db ss = ((n, None), db')" and "int (length ss) < 2 ^ 63"
    and "InsertSamples pg db' ss' = ((n', None), db'')" and "int (length ss') < 2 ^ 63"
    and "sample_key ` row_of stamp ` set ss' \<subseteq> sample_key ` row_of stamp ` set ss"
  shows "n' = 0 \<and> tables db'' = tables db'"
proof -
  note a = postgres.InsertSamples_ok [OF assms(1) assms(2,3)]
    and b = postgres.InsertSamples_ok [OF assms(1) assms(4,5)]
  have "sample_key ` set (map (row_of stamp) ss')
      \<subseteq> sample_key ` set (insert_new (tb_samples (tables db)) (map (row_of stamp) ss))"
    using assms(6) by (auto simp only: insert_new_keys set_map)
  then have "insert_new (tb_samples (tables db')) (map (row_of stamp) ss') = tb_samples (tables db')"
    using a by (intro insert_new_present) (simp add: add_rows_def)
  then have "add_rows (map (row_of stamp) ss') (tables db') = tables db'" by (simp add: add_rows_def)
  with b show ?thesis by simp
qed

theorem InsertSamples_idempotent_witness:
  "InsertSamples ref_pg (add_rows (map (row_of micro) [demo_sample 1000]) demo_tables) [demo_sample 1000]
    = ((0, None), add_rows (map (row_of micro) [demo_sample 1000]) demo_tables)"
proof -
  obtain n where a: "InsertSamples ref_pg demo_tables [demo_sample 1000]
      = ((n, None), add_rows (map (row_of micro) [demo_sample 1000]) demo_tables)"
    by (simp add: InsertSamples_ref demo_tables_def demo_sample_def node_ids_def)
  obtain n' db'' where b: "InsertSamples ref_pg (add_rows (map (row_of micro) [demo_sample 1000]) demo_tables)
      [demo_sample 1000] = ((n', None), db'')"
    by (simp add: InsertSamples_ref demo_tables_def demo_sample_def node_ids_def add_rows_def)
  have l: "int (length [demo_sample 1000]) < 2 ^ 63" by simp
  from InsertSamples_idempotent [OF ref.postgres_axioms a l b l subset_refl] b show ?thesis by simp
qed

text \<open>The statement of a batch asks for exactly the arguments that are passed: the parameters in
  its text are \<open>$1\<close>, \<open>$2\<close>, ... in order, one for each argument, and never more than 5000.\<close>

theorem batch_statement_parameters:
  assumes "b \<in> set (chunks 500 ss)"
  shows "placeholders (insert_sql (length b)) = map int [1..<Suc (length (concat (map sample_args b)))]
    \<and> length (concat (map sample_args b)) \<le> 5000"
proof -
  have l: "length (concat (map sample_args b)) = length b * 10"
    by (rule length_concat_const) (simp add: sample_args_def)
  have "placeholders (insert_sql (length b)) = placeholders (row_groups 10 (length b) @ '' ON CONFLICT DO NOTHING'')"
    by (simp add: insert_sql_def br_def numeral_eq_Suc)
  also have "\<dots> = placeholders (row_groups 10 (length b))"
    by (simp add: placeholders_append is_digit_def)
  finally show ?thesis
    using l batches_small [OF assms] by (simp add: placeholders_row_groups del: upt_Suc)
qed

theorem batch_statement_parameters_witness:
  "placeholders (insert_sql 2) = map int [1..<21] \<and> (20::nat) \<le> 5000"
  using batch_statement_parameters [of "[demo_sample 0, demo_sample 1]" "[demo_sample 0, demo_sample 1]"]
  by (simp add: chunks_step sample_args_def eval_nat_numeral)

section \<open>Sequences of store operations\<close>

datatype store_op =
    OpInsert "MetricSample list"
  | OpUpsert string string string
  | OpDelete int int

fun store_step :: "('db, 'tx) pg \<Rightarrow> store_op \<Rightarrow> 'db \<Rightarrow> 'db" where
  "store_step pg (OpInsert ss) db = snd (InsertSamples pg db ss)"
| "store_step pg (OpUpsert n h u) db = snd (UpsertNode pg db n h u)"
| "store_step pg (OpDelete now d) db = snd (DeleteOldSamples pg db now d)"

text \<open>What the schema promises: keys are unique and every sample's node exists.\<close>

definition store_ok :: "tables \<Rightarrow> bool" where
  "store_ok t \<longleftrightarrow> distinct (map sample_key (tb_samples t))
     \<and> (\<forall>r \<in> set (tb_samples t). r_node r \<in> node_ids t)"

lemma set_insert_new: "set (insert_new t rs) \<subseteq> set t \<union> set rs"
proof (induction rs arbitrary: t)
  case (Cons r rs)
  show ?case using Cons.IH [of t] Cons.IH [of "t @ [r]"] by auto
qed simp

lemma store_ok_add_rows:
  "store_ok t \<Longrightarrow> r_node ` set rs \<subseteq> node_ids t \<Longrightarrow> store_ok (add_rows rs t)"
  unfolding store_ok_def add_rows_def node_ids_def
  using set_insert_new [of "tb_samples t" rs] by (simp add: insert_new_distinct) blast

lemma node_ids_upsert: "fst ` set (upsert_node n t) = insert (fst n) (fst ` set t)"
proof (cases "fst n \<in> fst ` set t")
  case True
  have "map fst (upsert_node n t) = map fst t" using True by (simp add: upsert_node_def)
  then have "fst ` set (upsert_node n t) = fst ` set t" by (metis set_map)
  with True show ?thesis by auto
qed (simp add: upsert_node_def)

lemma store_ok_upsert: "store_ok t \<Longrightarrow> store_ok (t\<lparr>tb_nodes := upsert_node n (tb_nodes t)\<rparr>)"
  by (auto simp: store_ok_def node_ids_def node_ids_upsert)

lemma store_ok_filter: "store_ok t \<Longrightarrow> store_ok (t\<lparr>tb_samples := filter P (tb_samples t)\<rparr>)"
  by (auto simp: store_ok_def node_ids_def distinct_map inj_on_def)

context postgres
begin

lemma UpsertNode_ok:
  "UpsertNode pg db n h u = (None, db') \<Longrightarrow>
    tables db' = (tables db)\<lparr>tb_nodes := upsert_node (n, h, u) (tb_nodes (tables db))\<rparr>"
  by (auto simp: UpsertNode_def dest: upsert_ok split: sum.splits prod.splits)

lemma UpsertNode_error: "UpsertNode pg db n h u = (Some e, db') \<Longrightarrow> tables db' = tables db"
  by (auto simp: UpsertNode_def dest: exec_fail split: sum.splits prod.splits)

lemma DeleteOldSamples_ok:
  "DeleteOldSamples pg db now d = ((n, None), db') \<Longrightarrow>
    tables db' = (tables db)\<lparr>tb_samples :=
        filter (\<lambda>r. \<not> r_at r < stamp (now + wrap64 (- d))) (tb_samples (tables db))\<rparr>
      \<and> count_rows (tables db') + n = count_rows (tables db)"
  by (auto simp: DeleteOldSamples_def Let_def count_rows_def dest: delete_ok split: sum.splits prod.splits)

lemma DeleteOldSamples_error: "DeleteOldSamples pg db now d = ((n, Some e), db') \<Longrightarrow> tables db' = tables db"
  by (auto simp: DeleteOldSamples_def Let_def dest: exec_fail split: sum.splits prod.splits)

lemma store_step_ok:
  assumes "store_ok (tables db)" and "\<And>ss. op = OpInsert ss \<Longrightarrow> int (length ss) < 2 ^ 63"
  shows "store_ok (tables (store_step pg op db))"
proof (cases op)
  case (OpInsert ss)
  obtain n err db' where r: "InsertSamples pg db ss = ((n, err), db')" by (metis prod.exhaust)
  show ?thesis
  proof (cases err)
    case None
    with InsertSamples_ok [of db ss n db'] r assms OpInsert show ?thesis
      by (simp add: store_ok_add_rows image_image NodeID_row)
  next
    case (Some e)
    with InsertSamples_error [of db ss n e db'] r assms(1) OpInsert show ?thesis by simp
  qed
next
  case (OpUpsert n h u)
  obtain err db' where r: "UpsertNode pg db n h u = (err, db')" by fastforce
  with assms(1) OpUpsert UpsertNode_ok [of db n h u db'] UpsertNode_error [of db n h u _ db'] show ?thesis
    by (cases err) (simp_all add: store_ok_upsert)
next
  case (OpDelete now d)
  obtain n err db' where r: "DeleteOldSamples pg db now d = ((n, err), db')" by (metis prod.exhaust)
  with assms(1) OpDelete DeleteOldSamples_ok [of db now d n db'] DeleteOldSamples_error [of db now d n _ db']
  show ?thesis by (cases err) (simp_all add: store_ok_filter)
qed

end

text \<open>Whatever sequence of inserts, node updates and deletions runs, with whatever failures, the
  sample table keeps one row per key and every row's node stays registered.\<close>

theorem store_run_invariant:
  assumes "postgres pg tables tx_tables base stamp" and "store_ok (tables db)"
    and "\<forall>ss. OpInsert ss \<in> set ops \<longrightarrow> int (length ss) < 2 ^ 63"
  shows "store_ok (tables (fold (store_step pg) ops db))"
  using assms(2,3)
proof (induction ops arbitrary: db)
  case (Cons op ops)
  have "store_ok (tables (store_step pg op db))"
    by (rule postgres.store_step_ok [OF assms(1) Cons.prems(1)]) (use Cons.prems(2) in auto)
  with Cons show ?case by simp
qed simp

theorem store_run_invariant_witness:
  "store_ok (id (fold (store_step ref_pg)
     [OpInsert [demo_sample 1000], OpUpsert ''n2'' ''h2'' ''u2'', OpInsert [demo_sample 1000], OpDelete 5000 3000]
     demo_tables))"
  by (rule store_run_invariant [OF ref.postgres_axioms])
    (auto simp: store_ok_def demo_tables_def)

text \<open>Retention keeps what it must: samples stored by a successful insert and not older than the
  retention period at the time of the clean-up are still there after it, and no row older than
  the cut-off is.\<close>

theorem retention_keeps_recent:
  assumes "postgres pg tables tx_tables base stamp" and "mono stamp"
    and "InsertSamples pg db ss = ((n, None), db')" and "int (length ss) < 2 ^ 63"
    and "DeleteOldSamples pg db' now d = ((k, None), db'')" and "in64 d" and "0 < d"
  shows "(\<forall>s \<in> set ss. now - d \<le> CollectedAt s \<longrightarrow>
            sample_key (row_of stamp s) \<in> sample_key ` set (tb_samples (tables db'')))
    \<and> (\<forall>r \<in> set (tb_samples (tables db'')). stamp (now - d) \<le> r_at r)"
proof -
  have "wrap64 (- d) = - d" by (rule wrap64_id) (use assms(6,7) in \<open>simp add: in64_def\<close>)
  then have w: "now + wrap64 (- d) = now - d" by simp
  have t: "tb_samples (tables db'') = filter (\<lambda>r. \<not> r_at r < stamp (now - d)) (tb_samples (tables db'))"
    using postgres.DeleteOldSamples_ok [OF assms(1,5)] unfolding w by simp
  have i: "tb_samples (tables db') = insert_new (tb_samples (tables db)) (map (row_of stamp) ss)"
    using postgres.InsertSamples_ok [OF assms(1,3,4)] by (simp add: add_rows_def)
  show ?thesis
  proof (intro conjI ballI impI)
    fix s assume s: "s \<in> set ss" "now - d \<le> CollectedAt s"
    then have "sample_key (row_of stamp s) \<in> sample_key ` set (tb_samples (tables db'))"
      unfolding i insert_new_keys set_map by blast
    then obtain r where r: "r \<in> set (tb_samples (tables db'))" "sample_key r = sample_key (row_of stamp s)"
      by (elim imageE) simp
    then have "r_at r = stamp (CollectedAt s)" by (simp add: sample_key_def row_of_def)
    with monoD [OF assms(2) s(2)] have "stamp (now - d) \<le> r_at r" by (simp only:)
    with r(1) have "r \<in> set (tb_samples (tables db''))" unfolding t by (simp add: not_less)
    then show "sample_key (row_of stamp s) \<in> sample_key ` set (tb_samples (tables db''))"
      unfolding r(2) [symmetric] by (rule imageI)
  next
    fix r assume "r \<in> set (tb_samples (tables db''))"
    then show "stamp (now - d) \<le> r_at r" unfolding t by simp
  qed
qed

theorem retention_keeps_recent_witness:
  "let db'' = snd (DeleteOldSamples ref_pg (snd (InsertSamples ref_pg demo_tables [demo_sample 9000])) 10000 3000)
   in sample_key (row_of micro (demo_sample 9000)) \<in> sample_key ` set (tb_samples (id db''))"
proof -
  obtain n db' where a: "InsertSamples ref_pg demo_tables [demo_sample 9000] = ((n, None), db')"
    by (simp add: InsertSamples_ref demo_tables_def demo_sample_def node_ids_def)
  obtain k db'' where b: "DeleteOldSamples ref_pg db' 10000 3000 = ((k, None), db'')"
    by (simp add: DeleteOldSamples_def ref_pg_def ref_exec_def Let_def)
  have m: "mono micro" by (simp add: mono_def micro_def zdiv_mono1)
  have l: "int (length [demo_sample 9000]) < 2 ^ 63" by simp
  have d: "in64 3000" "(0::int) < 3000" by (simp_all add: in64_def)
  have "now - d \<le> CollectedAt (demo_sample 9000)" if "now = 10000" "d = 3000" for now d
    using that by (simp add: demo_sample_def)
  with retention_keeps_recent [OF ref.postgres_axioms m a l b d] show ?thesis
    unfolding a b Let_def snd_conv by simp
qed

section \<open>Migrations, recorded\<close>

text \<open>
  The scripts only create the schema: none of them, nor the lock and the creation of the
  tracking table, touches the rows of \<open>schema_migrations\<close>.
\<close>

locale migration_db = postgres +
  fixes scripts :: "string set"
  assumes script_ok: "sql \<in> scripts \<Longrightarrow> Exec pg db sql [] = (Inr k, db') \<Longrightarrow>
      tb_versions (tables db') = tb_versions (tables db)"
    and tracking_ok: "Exec pg db create_versions_sql [] = (r, db') \<Longrightarrow>
      tb_versions (tables db') = tb_versions (tables db)"
    and lock_ok: "q = lock_sql \<or> q = unlock_sql \<Longrightarrow> Exec pg db q [AInt i] = (r, db') \<Longrightarrow>
      tb_versions (tables db') = tb_versions (tables db)"

definition is_migration :: "dir_entry \<Rightarrow> bool" where
  "is_migration e \<longleftrightarrow> \<not> fst (snd e) \<and> HasSuffix (fst e) ''.sql''"

text \<open>The versions a run has left to apply.\<close>

definition pending :: "dir_entry list \<Rightarrow> string list \<Rightarrow> string list" where
  "pending es vs = filter (\<lambda>v. v \<notin> set vs) (map fst (filter is_migration es))"

lemma pending_simps [simp]:
  "pending [] vs = []"
  "pending (e # es) vs = (if is_migration e \<and> fst e \<notin> set vs then fst e # pending es vs else pending es vs)"
  by (simp_all add: pending_def)

lemma pending_done: "pending es (vs @ pending es vs) = []"
  by (auto simp: pending_def filter_empty_conv)

lemma pending_snoc: "v \<notin> fst ` set es \<Longrightarrow> pending es (vs @ [v]) = pending es vs"
  by (auto simp: pending_def intro!: filter_cong)

context migration_db
begin

lemma migrate_one_versions:
  assumes "migrate_one pg db e = (r, db')" and "snd (snd e) \<in> scripts"
  shows "if is_migration e \<and> fst e \<notin> set (tb_versions (tables db)) \<and> r = None
    then tb_versions (tables db') = tb_versions (tables db) @ [fst e]
    else tb_versions (tables db') = tb_versions (tables db)"
proof -
  obtain v d sql where e: "e = (v, d, sql)" by (cases e)
  show ?thesis
    using assms
    by (auto simp: migrate_one_def e is_migration_def split: if_splits sum.splits prod.splits bool.splits
        dest!: exists_ok script_ok record_ok exec_fail)
qed

lemma migrate_loop_versions:
  assumes "migrate_loop pg db es = (r, db')" and "(snd \<circ> snd) ` set es \<subseteq> scripts" and "distinct (map fst es)"
  shows "\<exists>k. tb_versions (tables db') = tb_versions (tables db) @ take k (pending es (tb_versions (tables db)))
    \<and> (r = None \<longrightarrow> k = length (pending es (tb_versions (tables db))))"
  using assms
proof (induction es arbitrary: db)
  case (Cons e es)
  obtain r1 db1 where m: "migrate_one pg db e = (r1, db1)" by fastforce
  have s: "snd (snd e) \<in> scripts" using Cons.prems(2) by simp
  note v = migrate_one_versions [OF m s]
  show ?case
  proof (cases r1)
    case (Some err)
    with Cons.prems(1) m v show ?thesis by (intro exI [of _ 0]) auto
  next
    case None
    then have l: "migrate_loop pg db1 es = (r, db')" using Cons.prems(1) m by simp
    have ih: "\<exists>k. tb_versions (tables db') = tb_versions (tables db1) @ take k (pending es (tb_versions (tables db1)))
        \<and> (r = None \<longrightarrow> k = length (pending es (tb_versions (tables db1))))"
      using Cons.IH [OF l] Cons.prems(2,3) by simp
    show ?thesis
    proof (cases "is_migration e \<and> fst e \<notin> set (tb_versions (tables db))")
      case True
      then have v1: "tb_versions (tables db1) = tb_versions (tables db) @ [fst e]" using v None by simp
      have "pending es (tb_versions (tables db1)) = pending es (tb_versions (tables db))"
        unfolding v1 using Cons.prems(3) by (intro pending_snoc) simp
      with ih v1 obtain k where "tb_versions (tables db') = tb_versions (tables db) @ fst e #
          take k (pending es (tb_versions (tables db)))"
        and "r = None \<longrightarrow> k = length (pending es (tb_versions (tables db)))" by auto
      with True show ?thesis by (intro exI [of _ "Suc k"]) simp
    next
      case False
      with v have "tb_versions (tables db1) = tb_versions (tables db)" by (simp split: if_splits)
      with ih False show ?thesis by auto
    qed
  qed
qed simp

lemma Migrate_versions:
  assumes "Migrate pg entries db = (r, db')" and "(snd \<circ> snd) ` set entries \<subseteq> scripts"
    and "distinct (map fst entries)"
  defines "todo \<equiv> pending (sort_key fst entries) (tb_versions (tables db))"
  shows "\<exists>k. tb_versions (tables db') = tb_versions (tables db) @ take k todo
    \<and> (r = None \<longrightarrow> k = length todo)"
proof -
  obtain r1 db1 where 1: "Exec pg db lock_sql [AInt lockID] = (r1, db1)" by fastforce
  have v1: "tb_versions (tables db1) = tb_versions (tables db)" using lock_ok [OF _ 1] by simp
  show ?thesis
  proof (cases r1)
    case (Inl e)
    with assms(1) 1 v1 show ?thesis by (intro exI [of _ 0]) (auto simp: Migrate_def)
  next
    case (Inr k1)
    obtain r2 db2 where 2: "Exec pg db1 create_versions_sql [] = (r2, db2)" by fastforce
    have v2: "tb_versions (tables db2) = tb_versions (tables db)" using tracking_ok [OF 2] v1 by simp
    define loop where "loop = (case r2 of Inl e \<Rightarrow> (Some (''creating migrations table: '' @ e), db2)
        | Inr _ \<Rightarrow> migrate_loop pg db2 (sort_key fst entries))"
    obtain u db3 where l: "loop = (u, db3)" by fastforce
    have r: "r = u" and "db' = snd (Exec pg db3 unlock_sql [AInt lockID])"
      using assms(1) 1 2 Inr l by (auto simp: Migrate_def loop_def split: sum.splits)
    then have v3: "tb_versions (tables db') = tb_versions (tables db3)"
      using lock_ok [of unlock_sql db3 lockID] by (cases "Exec pg db3 unlock_sql [AInt lockID]") simp
    show ?thesis
    proof (cases r2)
      case (Inl e)
      with l v2 v3 r show ?thesis by (intro exI [of _ 0]) (auto simp: loop_def)
    next
      case r2: (Inr k2)
      have d: "distinct (map fst (sort_key fst entries))"
        using assms(3) by (metis distinct_map distinct_sort set_sort)
      from migrate_loop_versions [of db2 "sort_key fst entries" u db3] d assms(2) l r2 v2 v3 r
      show ?thesis by (simp add: loop_def todo_def)
    qed
  qed
qed

end

interpretation ref_mig: migration_db ref_pg id snd fst micro UNIV
  by unfold_locales (auto simp: ref_pg_def ref_exec_def create_versions_sql_def split: if_splits)

text \<open>C11. Migrations are applied at most once and in name order. Whatever fails, the versions recorded
  by a run are the first ones, in the order of their names, of those not recorded before; a run
  without error records all of them, and after it another run has nothing to apply.\<close>

theorem Migrate_in_order:
  assumes "migration_db pg tables tx_tables base stamp scripts"
    and "Migrate pg entries db = (r, db')" and "(snd \<circ> snd) ` set entries \<subseteq> scripts"
    and "distinct (map fst entries)"
  shows "let todo = pending (sort_key fst entries) (tb_versions (tables db)) in
    sorted todo
    \<and> (\<exists>k. tb_versions (tables db') = tb_versions (tables db) @ take k todo)
    \<and> (r = None \<longrightarrow> tb_versions (tables db') = tb_versions (tables db) @ todo
          \<and> pending (sort_key fst entries) (tb_versions (tables db')) = [])"
proof -
  define todo where "todo = pending (sort_key fst entries) (tb_versions (tables db))"
  have "sorted (map fst (filter is_migration (sort_key fst entries)))"
    by (rule sorted_filter) simp
  then have "sorted todo"
    unfolding todo_def pending_def using sorted_filter [of "\<lambda>x. x"] by (simp add: map_ident)
  moreover have "pending (sort_key fst entries) (tb_versions (tables db) @ todo) = []"
    unfolding todo_def by (rule pending_done)
  ultimately show ?thesis
    using migration_db.Migrate_versions [OF assms] unfolding Let_def todo_def [symmetric]
    by auto
qed

definition demo_entries :: "dir_entry list" where
  "demo_entries = [(''002_b.sql'', False, ''B''), (''README'', False, []), (''001_a.sql'', False, ''A'')]"

lemma demo_migrate:
  "sort_key fst demo_entries = [(''001_a.sql'', False, ''A''), (''002_b.sql'', False, ''B''), (''README'', False, [])]"
  "fst (Migrate ref_pg demo_entries demo_tables) = None"
proof -
  show s: "sort_key fst demo_entries = [(''001_a.sql'', False, ''A''), (''002_b.sql'', False, ''B''), (''README'', False, [])]"
    by (simp add: demo_entries_def less_char_def less_eq_char_def)
  show "fst (Migrate ref_pg demo_entries demo_tables) = None"
    unfolding Migrate_def s
    by (simp add: ref_pg_def ref_exec_def migrate_one_def demo_tables_def HasSuffix_def TrimSuffix_def
        record_version_sql_def split: prod.splits)
qed

theorem Migrate_in_order_witness:
  "fst (Migrate ref_pg demo_entries demo_tables) = None
    \<and> tb_versions (id (snd (Migrate ref_pg demo_entries demo_tables))) = [''001_a.sql'', ''002_b.sql'']"
proof -
  obtain r db' where m: "Migrate ref_pg demo_entries demo_tables = (r, db')" by fastforce
  then have "r = None" using demo_migrate(2) by simp
  moreover have "pending (sort_key fst demo_entries) (tb_versions (id demo_tables)) = [''001_a.sql'', ''002_b.sql'']"
    unfolding demo_migrate(1) by (simp add: is_migration_def HasSuffix_def demo_tables_def)
  ultimately show ?thesis
    using Migrate_in_order [OF ref_mig.migration_db_axioms m] unfolding m
    by (simp add: demo_entries_def demo_tables_def Let_def)
qed

end
