(* ===== verification/SelfMetrics.thy ===== *)
theory SelfMetrics
  imports GoString
begin

text \<open>
  \<open>internal/metrics/metrics.go\<close>: the process-wide counters the other components update, the
  duration statistic and the text served at \<open>/metrics\<close>. A counter is an \<open>atomic.Int64\<close>: an
  \<open>int\<close> that wraps at 64 bits.
\<close>

record syncDuration =
  d_last :: int
  d_total :: int
  d_count :: int

record Metrics =
  CollectionTotal :: int
  CollectionErrors :: int
  SamplesInserted :: int
  RetentionDeleted :: int
  CollectionDuration :: syncDuration
  MCPToolCalls :: int
  MCPToolErrors :: int
  AuthFailures :: int
  RateLimitRejects :: int
  RemoteWriteSamples :: int
  RemoteWriteErrors :: int

definition Global :: Metrics where
  "Global = \<lparr>CollectionTotal = 0, CollectionErrors = 0, SamplesInserted = 0, RetentionDeleted = 0,
     CollectionDuration = \<lparr>d_last = 0, d_total = 0, d_count = 0\<rparr>, MCPToolCalls = 0, MCPToolErrors = 0,
     AuthFailures = 0, RateLimitRejects = 0, RemoteWriteSamples = 0, RemoteWriteErrors = 0\<rparr>"

text \<open>\<open>counter.Add(k)\<close>.\<close>

definition add64 :: "int \<Rightarrow> int \<Rightarrow> int" where
  "add64 k n = wrap64 (n + k)"

definition Record :: "int \<Rightarrow> syncDuration \<Rightarrow> syncDuration" where
  "Record dur d = \<lparr>d_last = dur, d_total = wrap64 (d_total d + dur), d_count = wrap64 (d_count d + 1)\<rparr>"

definition Snapshot :: "syncDuration \<Rightarrow> int \<times> int \<times> int" where
  "Snapshot d =
     (if d_count d = 0 then (0, 0, 0)
      else (d_last d, wrap64 (go_div (d_total d) (d_count d)), d_count d))"

text \<open>One metric of the exposition: its help line, its type line and its samples.\<close>

definition exposition_counter :: "string \<Rightarrow> string \<Rightarrow> int \<Rightarrow> string" where
  "exposition_counter name help n =
     ''# HELP netdata_mcp_'' @ name @ '' '' @ help @ [CHR 0x0A]
     @ ''# TYPE netdata_mcp_'' @ name @ '' counter'' @ [CHR 0x0A]
     @ ''netdata_mcp_'' @ name @ '' '' @ itoa n @ [CHR 0x0A, CHR 0x0A]"

definition duration_line :: "string \<Rightarrow> string \<Rightarrow> string" where
  "duration_line stat value =
     ''netdata_mcp_collection_duration_seconds{stat='' @ [CHR 0x22] @ stat @ [CHR 0x22] @ ''} ''
     @ value @ [CHR 0x0A]"

definition Handler :: "Metrics \<Rightarrow> string" where
  "Handler m =
     (let (last, avg, count) = Snapshot (CollectionDuration m) in
      exposition_counter ''collections_total'' ''Total number of collection cycles.'' (CollectionTotal m)
      @ exposition_counter ''collection_errors_total''
          ''Total number of failed collection cycles.'' (CollectionErrors m)
      @ exposition_counter ''samples_inserted_total''
          ''Total number of metric samples inserted into PostgreSQL.'' (SamplesInserted m)
      @ exposition_counter ''retention_deleted_total''
          ''Total number of expired samples deleted by retention cleanup.'' (RetentionDeleted m)
      @ ''# HELP netdata_mcp_collection_duration_seconds Duration of the last collection cycle in seconds.''
      @ [CHR 0x0A] @ ''# TYPE netdata_mcp_collection_duration_seconds gauge'' @ [CHR 0x0A]
      @ duration_line ''last'' (fmt_fixed 6 (duration_seconds last))
      @ duration_line ''avg'' (fmt_fixed 6 (duration_seconds avg))
      @ duration_line ''count'' (itoa count) @ [CHR 0x0A]
      @ exposition_counter ''tool_calls_total'' ''Total MCP tool invocations.'' (MCPToolCalls m)
      @ exposition_counter ''tool_errors_total'' ''Total MCP tool errors.'' (MCPToolErrors m)
      @ exposition_counter ''auth_failures_total'' ''Total authentication failures.'' (AuthFailures m)
      @ exposition_counter ''ratelimit_rejects_total''
          ''Total requests rejected by rate limiter.'' (RateLimitRejects m)
      @ exposition_counter ''remotewrite_samples_total''
          ''Total samples ingested via remote-write.'' (RemoteWriteSamples m)
      @ exposition_counter ''remotewrite_errors_total''
          ''Total remote-write ingest errors.'' (RemoteWriteErrors m))"

section \<open>The duration statistic\<close>

definition idle_duration :: syncDuration where
  "idle_duration = \<lparr>d_last = 0, d_total = 0, d_count = 0\<rparr>"

definition sums_fit :: "int list \<Rightarrow> bool" where
  "sums_fit ds \<longleftrightarrow> list_all (\<lambda>d. 0 \<le> d) ds \<and> sum_list ds < 2 ^ 63 \<and> int (length ds) < 2 ^ 63"

lemma sum_list_nonneg_ints: "list_all (\<lambda>d. 0 \<le> d) ds \<Longrightarrow> 0 \<le> sum_list (ds :: int list)"
  by (induction ds) simp_all

lemma Record_run:
  "sums_fit ds \<Longrightarrow> fold Record ds idle_duration
    = \<lparr>d_last = (if ds = [] then 0 else last ds), d_total = sum_list ds, d_count = int (length ds)\<rparr>"
proof (induction ds rule: rev_induct)
  case Nil
  then show ?case by (simp add: idle_duration_def)
next
  case (snoc d ds)
  have s: "sums_fit ds" using snoc.prems by (simp add: sums_fit_def)
  have "wrap64 (sum_list ds + d) = sum_list ds + d"
    using snoc.prems sum_list_nonneg_ints [of ds] by (intro wrap64_id) (simp add: sums_fit_def in64_def)
  moreover have "wrap64 (int (length ds) + 1) = int (length ds) + 1"
    using snoc.prems by (intro wrap64_id) (simp add: sums_fit_def in64_def)
  ultimately show ?case using snoc.IH [OF s] by (simp add: Record_def add.commute)
qed

lemma sum_list_between:
  "(\<And>d. d \<in> set ds \<Longrightarrow> a \<le> d \<and> d \<le> b) \<Longrightarrow>
    int (length ds) * a \<le> sum_list ds \<and> sum_list ds \<le> int (length ds) * b"
  by (induction ds) (fastforce simp: algebra_simps)+

lemma div_le_self: "0 \<le> (s::int) \<Longrightarrow> 0 < n \<Longrightarrow> s div n \<le> s"
  using zdiv_mono2 [of s 1 n] by simp

text \<open>After any number of collection cycles the snapshot shows the last duration, the quotient of
  the total by the number of cycles, which lies between the shortest and the longest one, and
  the number of cycles.\<close>

theorem Snapshot_after:
  assumes "sums_fit ds" and "ds \<noteq> []"
  shows "Snapshot (fold Record ds idle_duration) = (last ds, sum_list ds div int (length ds), int (length ds))
    \<and> Min (set ds) \<le> sum_list ds div int (length ds) \<and> sum_list ds div int (length ds) \<le> Max (set ds)"
proof -
  let ?n = "int (length ds)"
  have n: "0 < ?n" using assms(2) by simp
  have s: "0 \<le> sum_list ds" "sum_list ds < 2 ^ 63"
    using assms(1) sum_list_nonneg_ints by (simp_all add: sums_fit_def)
  have q: "0 \<le> sum_list ds div ?n" "sum_list ds div ?n \<le> sum_list ds"
    using s(1) n by (simp_all only: pos_imp_zdiv_nonneg_iff div_le_self)
  have g: "wrap64 (go_div (sum_list ds) ?n) = sum_list ds div ?n"
    unfolding go_div_nonneg [OF s(1) n] by (rule wrap64_id) (use q s in \<open>simp only: in64_def; linarith\<close>)
  have b: "?n * Min (set ds) \<le> sum_list ds \<and> sum_list ds \<le> ?n * Max (set ds)"
    by (rule sum_list_between) simp
  have "Min (set ds) \<le> sum_list ds div ?n"
    using zdiv_mono1 [of "?n * Min (set ds)" "sum_list ds" ?n] b n by simp
  moreover have "sum_list ds div ?n \<le> Max (set ds)"
    using zdiv_mono1 [of "sum_list ds" "?n * Max (set ds)" ?n] b n by simp
  ultimately show ?thesis
    using assms(2) g by (simp add: Record_run [OF assms(1)] Snapshot_def)
qed

theorem Snapshot_after_witness:
  "Snapshot (fold Record [3, 8, 4] idle_duration) = (4, 5, 3)"
  using Snapshot_after [of "[3, 8, 4]"] by (simp add: sums_fit_def)

end
