(* ===== verification/RwIngest.thy ===== *)
theory RwIngest
  imports WireFormat PgStore SelfMetrics
begin

text \<open>
  The remote-write receiver of \<open>internal/remotewrite/handler.go\<close> above the decoder: from series to
  rows, the batched insert, and the HTTP handler. Snappy is a parameter.
\<close>

record RwHandler =
  rw_nodeID :: string

definition NewHandler :: "string \<Rightarrow> RwHandler" where
  "NewHandler nodeID = \<lparr>rw_nodeID = nodeID\<rparr>"

section \<open>From series to rows\<close>

definition metricToContext :: "string \<Rightarrow> string" where
  "metricToContext name =
     (if HasPrefix name ''node_cpu'' then ''system.cpu''
      else if HasPrefix name ''node_disk'' then ''disk.io''
      else if HasPrefix name ''node_memory'' then ''system.ram''
      else if HasPrefix name ''node_network'' then ''system.ip''
      else ''prometheus.'' @ name)"

text \<open>The label loop: the metric name and the instance, the last label of each name wins.\<close>

fun scan_labels :: "string \<times> string \<Rightarrow> prLabel list \<Rightarrow> string \<times> string" where
  "scan_labels (name, inst) [] = (name, inst)"
| "scan_labels (name, inst) (l # ls) =
     (if LabelName l = ''__name__'' then scan_labels (LabelValue l, inst) ls
      else if LabelName l = ''instance'' then scan_labels (name, LabelValue l) ls
      else scan_labels (name, inst) ls)"

definition series_rows :: "prTimeSeries \<Rightarrow> rw_row list" where
  "series_rows ts =
     (let (metricName, inst) = scan_labels ([], []) (Labels ts) in
      if metricName = [] then []
      else map (\<lambda>s. \<lparr>rw_collectedAt = wrap64 (TimestampMs s * 1000000),
                    rw_context = metricToContext metricName, rw_dimension = metricName,
                    rw_instance = inst, rw_value = SampleValue s\<rparr>)
             (filter (\<lambda>s. \<not> is_nan (SampleValue s) \<and> \<not> is_inf (SampleValue s)) (Samples ts)))"

definition rows_of_series :: "prTimeSeries list \<Rightarrow> rw_row list" where
  "rows_of_series series = concat (map series_rows series)"

section \<open>Storing the rows\<close>

definition rw_insert :: "('db, 'tx) pg \<Rightarrow> string \<Rightarrow> 'tx \<Rightarrow> rw_row list \<Rightarrow> (string + int) \<times> 'tx" where
  "rw_insert pg nodeID tx batch =
     TxExec pg tx (rw_insert_sql (length batch)) (concat (map (rw_args nodeID) batch))"

definition ingest :: "('db, 'tx) pg \<Rightarrow> RwHandler \<Rightarrow> prTimeSeries list \<Rightarrow> 'db \<Rightarrow> 'db result" where
  "ingest pg h series db =
     (let rows = rows_of_series series in
      if rows = [] then ((0, None), db)
      else case Begin pg db of
        Inl e \<Rightarrow> ((0, Some (''begin tx: '' @ e)), db)
      | Inr tx \<Rightarrow>
          (case batch_loop (rw_insert pg (rw_nodeID h)) ''batch insert''
                  (\<lambda>count k b. wrap64 (count + int (length b))) tx 0 0 (chunks 500 rows) of
             ((count, Some e), tx') \<Rightarrow> ((count, Some e), Rollback pg tx')
           | ((count, None), tx') \<Rightarrow>
               (case Commit pg tx' of
                  (Some e, db') \<Rightarrow> ((0, Some (''commit tx: '' @ e)), db')
                | (None, db') \<Rightarrow> ((count, None), db'))))"

section \<open>The handler\<close>

text \<open>
  A request is its method and what reading its body gives: an error or bytes, cut at the
  10 MiB of \<open>io.LimitReader\<close>. A reply is a status and a text. A panic of the decoder ends the
  request in \<open>net/http\<close>'s recovery: no reply is written.
\<close>

record rw_request =
  rq_method :: string
  rq_body :: "string + bytes"

record reply =
  rp_status :: int
  rp_body :: string

definition http_error :: "string \<Rightarrow> int \<Rightarrow> reply" where
  "http_error msg code = \<lparr>rp_status = code, rp_body = msg @ [CHR 0x0A]\<rparr>"

record 'db rw_state =
  rw_db :: 'db
  rw_metrics :: Metrics

definition ServeHTTP :: "('db, 'tx) pg \<Rightarrow> (bytes \<Rightarrow> string + bytes) \<Rightarrow> RwHandler \<Rightarrow> rw_request
    \<Rightarrow> 'db rw_state \<Rightarrow> reply option \<times> 'db rw_state" where
  "ServeHTTP pg snappy h r st =
     (if rq_method r \<noteq> ''POST'' then (Some (http_error ''method not allowed'' 405), st)
      else case rq_body r of
        Inl e \<Rightarrow> (Some (http_error ''read error'' 400), st)
      | Inr body \<Rightarrow>
          (case snappy (take (10 * 2 ^ 20) body) of
             Inl e \<Rightarrow> (Some (http_error ''snappy decode error'' 400), st)
           | Inr decoded \<Rightarrow>
               (case parseWriteRequest decoded of
                  Err e \<Rightarrow> (Some (http_error ''protobuf decode error'' 400), st)
                | Panic \<Rightarrow> (None, st)
                | Ok timeseries \<Rightarrow>
                    (case ingest pg h timeseries (rw_db st) of
                       ((n, Some e), db') \<Rightarrow>
                         (Some (http_error ''ingest error'' 500),
                          st\<lparr>rw_db := db',
                             rw_metrics := (rw_metrics st)\<lparr>RemoteWriteErrors :=
                               add64 1 (RemoteWriteErrors (rw_metrics st))\<rparr>\<rparr>)
                     | ((n, None), db') \<Rightarrow>
                         (Some \<lparr>rp_status = 204, rp_body = []\<rparr>,
                          st\<lparr>rw_db := db',
                             rw_metrics := (rw_metrics st)\<lparr>RemoteWriteSamples :=
                               add64 n (RemoteWriteSamples (rw_metrics st))\<rparr>\<rparr>)))))"

section \<open>What a request stores\<close>

lemma rw_node: "r_node (row_of_rw stamp n r) = n"
  by (simp add: row_of_rw_def)

lemma rw_rows_nodes: "rs \<noteq> [] \<Longrightarrow> r_node ` row_of_rw stamp n ` set rs = {n}"
  by (cases rs) (auto simp: rw_node image_iff)

sublocale postgres \<subseteq> rws: batch_insert "rw_insert pg nodeID" tx_tables base "row_of_rw stamp nodeID" for nodeID
proof unfold_locales
  fix tx b r tx' assume "rw_insert pg nodeID tx b = (r, tx')"
  then show "base tx' = base tx" by (simp add: rw_insert_def exec_base)
next
  fix b :: "rw_row list" and tx k tx'
  assume b: "b \<noteq> []" "length b \<le> 500" and r: "rw_insert pg nodeID tx b = (Inr k, tx')"
  then have "tx_tables tx' = add_rows (map (row_of_rw stamp nodeID) b) (tx_tables tx)
      \<and> int (length (tb_samples (tx_tables tx'))) = int (length (tb_samples (tx_tables tx))) + k
      \<and> nodeID \<in> node_ids (tx_tables tx)"
    by (intro rw_insert_ok) (simp_all add: rw_insert_def)
  then show "tx_tables tx' = add_rows (map (row_of_rw stamp nodeID) b) (tx_tables tx)
      \<and> count_rows (tx_tables tx') = count_rows (tx_tables tx) + k
      \<and> r_node ` row_of_rw stamp nodeID ` set b \<subseteq> node_ids (tx_tables tx)"
    unfolding count_rows_def rw_rows_nodes [OF b(1)] by blast
qed

lemma loop_sent:
  "batch_loop run what (\<lambda>count k b. wrap64 (count + int (length b))) tx i n bs = ((m, None), tx')
    \<Longrightarrow> 0 \<le> n \<Longrightarrow> n + int (length (concat bs)) < 2 ^ 63 \<Longrightarrow> m = n + int (length (concat bs))"
proof (induction bs arbitrary: tx i n)
  case (Cons b bs)
  obtain r1 tx1 where r: "run tx b = (r1, tx1)" by fastforce
  with Cons.prems(1) obtain k where k: "r1 = Inr k" by (cases r1) auto
  have w: "wrap64 (n + int (length b)) = n + int (length b)"
    using Cons.prems(2,3) by (intro wrap64_id) (simp add: in64_def)
  have l: "batch_loop run what (\<lambda>count k b. wrap64 (count + int (length b))) tx1 (i + 500)
      (n + int (length b)) bs = ((m, None), tx')"
    using Cons.prems(1) r k w by simp
  show ?case using Cons.IH [OF l] Cons.prems(2,3) by simp
qed simp

context postgres
begin

lemma ingest_error: "ingest pg h series db = ((n, Some e), db') \<Longrightarrow> db' = db"
  by (auto simp: ingest_def Let_def rollback split: if_splits sum.splits prod.splits option.splits
      dest!: rws.loop_base commit_fail dest: begin_ok)

lemma ingest_ok:
  assumes "ingest pg h series db = ((n, None), db')" and "int (length (rows_of_series series)) < 2 ^ 63"
  shows "tables db' = add_rows (map (row_of_rw stamp (rw_nodeID h)) (rows_of_series series)) (tables db)
    \<and> n = int (length (rows_of_series series))
    \<and> (rows_of_series series \<noteq> [] \<longrightarrow> rw_nodeID h \<in> node_ids (tables db))"
proof (cases "rows_of_series series = []")
  case True
  with assms show ?thesis by (simp add: ingest_def add_rows_def)
next
  case False
  obtain tx tx' where tx: "Begin pg db = Inr tx"
    and l: "batch_loop (rw_insert pg (rw_nodeID h)) ''batch insert'' (\<lambda>count k b. wrap64 (count + int (length b)))
      tx 0 0 (chunks 500 (rows_of_series series)) = ((n, None), tx')"
    and c: "Commit pg tx' = (None, db')"
    using assms(1) False by (auto simp: ingest_def Let_def split: sum.splits prod.splits option.splits)
  have t: "tx_tables tx = tables db" "tables db' = tx_tables tx'"
    using begin_ok [OF tx] commit_ok [OF c] by simp_all
  have "n = 0 + int (length (concat (chunks 500 (rows_of_series series))))"
    by (rule loop_sent [OF l]) (use assms(2) in \<open>simp_all add: concat_batches\<close>)
  with rws.loop_rows [OF l batches_small] t show ?thesis
    by (simp add: concat_batches rw_rows_nodes [OF False])
qed

end

text \<open>Ingesting is all or nothing too, and counts what was sent, not what was new: without an error
  the count is the number of rows, duplicates included, and the receiver's node was registered.\<close>

theorem ingest_atomic:
  assumes "postgres pg tables tx_tables base stamp"
    and "ingest pg h series db = ((n, err), db')" and "int (length (rows_of_series series)) < 2 ^ 63"
  shows "case err of
      Some e \<Rightarrow> db' = db
    | None \<Rightarrow> tables db' = add_rows (map (row_of_rw stamp (rw_nodeID h)) (rows_of_series series)) (tables db)
        \<and> n = int (length (rows_of_series series))
        \<and> (rows_of_series series \<noteq> [] \<longrightarrow> rw_nodeID h \<in> node_ids (tables db))"
proof (cases err)
  case None
  show ?thesis
    unfolding None option.case
    by (rule postgres.ingest_ok [OF assms(1) assms(2) [unfolded None] assms(3)])
next
  case (Some e)
  show ?thesis
    unfolding Some option.case by (rule postgres.ingest_error [OF assms(1) assms(2) [unfolded Some]])
qed

text \<open>What reaches the table: every row comes from a series with a metric name, its value is
  finite, and its time is the sample's millisecond timestamp in nanoseconds whenever that fits
  64 bits.\<close>

theorem rows_of_series_sound:
  assumes "r \<in> set (rows_of_series series)"
  shows "rw_dimension r \<noteq> [] \<and> is_finite (rw_value r) \<and> rw_context r = metricToContext (rw_dimension r)
    \<and> (\<exists>ts \<in> set series. \<exists>s \<in> set (Samples ts). rw_value r = SampleValue s
        \<and> (\<bar>TimestampMs s\<bar> \<le> 9223372036854 \<longrightarrow> rw_collectedAt r = TimestampMs s * 1000000))"
proof -
  obtain ts where ts: "ts \<in> set series" "r \<in> set (series_rows ts)"
    using assms by (auto simp: rows_of_series_def)
  obtain name inst where n: "scan_labels ([], []) (Labels ts) = (name, inst)" by fastforce
  with ts(2) obtain s where s: "s \<in> set (Samples ts)" "\<not> is_nan (SampleValue s)" "\<not> is_inf (SampleValue s)"
    and name: "name \<noteq> []"
    and r: "r = \<lparr>rw_collectedAt = wrap64 (TimestampMs s * 1000000), rw_context = metricToContext name,
      rw_dimension = name, rw_instance = inst, rw_value = SampleValue s\<rparr>"
    by (auto simp: series_rows_def Let_def split: if_splits)
  have "wrap64 (TimestampMs s * 1000000) = TimestampMs s * 1000000" if "\<bar>TimestampMs s\<bar> \<le> 9223372036854"
    using that by (intro wrap64_id) (simp add: in64_def abs_le_iff)
  moreover have "is_finite (SampleValue s)" using s(2,3) by (cases "SampleValue s") auto
  ultimately show ?thesis using ts(1) s(1) name r by (auto intro!: bexI [of _ ts] bexI [of _ s])
qed

theorem rows_of_series_sound_witness:
  "let series = [\<lparr>Labels = [\<lparr>LabelName = ''__name__'', LabelValue = ''node_cpu_x''\<rparr>],
         Samples = [\<lparr>TimestampMs = 5, SampleValue = NaN\<rparr>, \<lparr>TimestampMs = 7, SampleValue = Fin 2\<rparr>]\<rparr>];
       r = \<lparr>rw_collectedAt = 7000000, rw_context = ''system.cpu'', rw_dimension = ''node_cpu_x'',
         rw_instance = [], rw_value = Fin 2\<rparr>
   in r \<in> set (rows_of_series series) \<and> is_finite (rw_value r)
     \<and> rw_context r = metricToContext (rw_dimension r)"
  (is "let series = ?S; r = ?r in ?P series r")
proof -
  have "wrap64 7000000 = 7000000" by (rule wrap64_id) simp
  then have m: "?r \<in> set (rows_of_series ?S)"
    by (simp add: rows_of_series_def series_rows_def metricToContext_def)
  from rows_of_series_sound [OF m] m show ?thesis unfolding Let_def by blast
qed

text \<open>The reply to a well-formed write.\<close>

lemma ServeHTTP_parsed:
  assumes "rq_method r = ''POST''" and "rq_body r = Inr body"
    and "snappy (take (10 * 2 ^ 20) body) = Inr decoded" and "parseWriteRequest decoded = Ok series"
    and "ingest pg h series (rw_db st) = ((n, err), db')"
  shows "ServeHTTP pg snappy h r st =
    (case err of
       Some e \<Rightarrow> (Some (http_error ''ingest error'' 500),
         st\<lparr>rw_db := db', rw_metrics := (rw_metrics st)\<lparr>RemoteWriteErrors :=
           add64 1 (RemoteWriteErrors (rw_metrics st))\<rparr>\<rparr>)
     | None \<Rightarrow> (Some \<lparr>rp_status = 204, rp_body = []\<rparr>,
         st\<lparr>rw_db := db', rw_metrics := (rw_metrics st)\<lparr>RemoteWriteSamples :=
           add64 n (RemoteWriteSamples (rw_metrics st))\<rparr>\<rparr>))"
  using assms by (simp add: ServeHTTP_def split: option.splits)

text \<open>C10. End to end: when a sender's encoded request arrives within the body limit, either the reply is
  204 and the table gained exactly the new rows of the series that were encoded, or it is 500,
  the pool is untouched and the error counter went up.\<close>

theorem remote_write_end_to_end:
  assumes "postgres pg tables tx_tables base stamp"
    and "rq_method r = ''POST''" and "rq_body r = Inr body" and "length body \<le> 10 * 2 ^ 20"
    and "snappy body = Inr (enc_request rs)"
    and "length (enc_request rs) < 2 ^ 63" and "\<forall>x \<in> set rs. \<forall>s \<in> set (snd x). in64 (snd s)"
    and "int (length (rows_of_series (map series_of rs))) < 2 ^ 63"
    and "ServeHTTP pg snappy h r st = (rep, st')"
  shows "rep = Some \<lparr>rp_status = 204, rp_body = []\<rparr>
      \<and> tables (rw_db st') =
          add_rows (map (row_of_rw stamp (rw_nodeID h)) (rows_of_series (map series_of rs))) (tables (rw_db st))
    \<or> rep = Some (http_error ''ingest error'' 500) \<and> rw_db st' = rw_db st
      \<and> RemoteWriteErrors (rw_metrics st') = add64 1 (RemoteWriteErrors (rw_metrics st))"
proof -
  obtain n err db' where i: "ingest pg h (map series_of rs) (rw_db st) = ((n, err), db')"
    by (metis prod.exhaust)
  have s: "snappy (take (10 * 2 ^ 20) body) = Inr (enc_request rs)" using assms(4,5) by simp
  note reply = ServeHTTP_parsed [where snappy = snappy and r = r and body = body and st = st,
      OF assms(2,3) s parseWriteRequest_enc [OF assms(6,7)] i]
  show ?thesis
  proof (cases err)
    case None
    with reply assms(9) postgres.ingest_ok [OF assms(1) i [unfolded None] assms(8)] show ?thesis by auto
  next
    case (Some e)
    with reply assms(9) postgres.ingest_error [OF assms(1) i [unfolded Some]] show ?thesis by auto
  qed
qed

text \<open>The receiver never registers its own node: as long as its node id is not in
  \<open>netdata_nodes\<close>, every request that carries a row is answered with 500 and stores nothing.\<close>

theorem unregistered_receiver_fails:
  assumes "postgres pg tables tx_tables base stamp"
    and "rq_method r = ''POST''" and "rq_body r = Inr body"
    and "snappy (take (10 * 2 ^ 20) body) = Inr decoded" and "parseWriteRequest decoded = Ok series"
    and "rows_of_series series \<noteq> []" and "int (length (rows_of_series series)) < 2 ^ 63"
    and "rw_nodeID h \<notin> node_ids (tables (rw_db st))"
  shows "fst (ServeHTTP pg snappy h r st) = Some (http_error ''ingest error'' 500)
    \<and> rw_db (snd (ServeHTTP pg snappy h r st)) = rw_db st"
proof -
  obtain n err db' where i: "ingest pg h series (rw_db st) = ((n, err), db')"
    by (metis prod.exhaust)
  obtain e where e: "err = Some e"
    using postgres.ingest_ok [OF assms(1), of h series "rw_db st" n db'] i assms(6,7,8) by (cases err) auto
  with ServeHTTP_parsed [where snappy = snappy and r = r and body = body and st = st, OF assms(2,3,4,5) i]
     postgres.ingest_error [OF assms(1) i [unfolded e]]
  show ?thesis by simp
qed

section \<open>Instances on the reference tables\<close>

definition demo_series :: "prTimeSeries list" where
  "demo_series = [\<lparr>Labels = [\<lparr>LabelName = ''__name__'', LabelValue = ''up''\<rparr>],
     Samples = [\<lparr>TimestampMs = 5, SampleValue = Float64frombits 0\<rparr>]\<rparr>]"

definition demo_raw :: "raw_series list" where
  "demo_raw = [([(''__name__'', ''up'')], [(0, 5)])]"

definition demo_request :: rw_request where
  "demo_request = \<lparr>rq_method = ''POST'', rq_body = Inr (enc_request demo_raw)\<rparr>"

lemma demo_raw_length: "length (enc_request demo_raw) = 31"
  by code_simp

lemma demo_raw_series: "map series_of demo_raw = demo_series"
  by (simp add: demo_raw_def demo_series_def series_of_def)

lemma demo_raw_parsed: "parseWriteRequest (enc_request demo_raw) = Ok demo_series"
  unfolding demo_raw_series [symmetric]
  using parseWriteRequest_enc [of demo_raw] demo_raw_length by (simp add: demo_raw_def in64_def)

lemma demo_rows:
  "rows_of_series demo_series = [\<lparr>rw_collectedAt = 5000000, rw_context = ''prometheus.up'',
     rw_dimension = ''up'', rw_instance = [], rw_value = Fin 0\<rparr>]"
proof -
  have z: "Float64frombits 0 = Fin 0" by code_simp
  have w: "wrap64 5000000 = 5000000" by (rule wrap64_id) simp
  show ?thesis
    by (simp add: rows_of_series_def series_rows_def demo_series_def metricToContext_def z w)
qed

lemma ingest_ref:
  assumes "rows_of_series series \<noteq> []" and "length (rows_of_series series) \<le> 500"
    and "rw_nodeID h \<in> node_ids t"
  shows "ingest ref_pg h series t = ((int (length (rows_of_series series)), None),
      add_rows (map (row_of_rw micro (rw_nodeID h)) (rows_of_series series)) t)"
proof -
  let ?rs = "rows_of_series series"
  have "chunks 500 ?rs = [?rs]" using assms(1,2) by (simp add: chunks_step)
  moreover have "List.map_filter row_of_args (map (rw_args (rw_nodeID h)) ?rs)
      = map (row_of_rw micro (rw_nodeID h)) ?rs"
    by (rule map_filter_all) (rule row_of_rw_args)
  moreover have "list_all (\<lambda>r. r_node r \<in> node_ids t) (map (row_of_rw micro (rw_nodeID h)) ?rs)"
    using assms(3) by (simp add: list_all_iff rw_node)
  moreover have "wrap64 (int (length ?rs)) = int (length ?rs)"
    using assms(2) by (intro wrap64_id) (simp add: in64_def)
  ultimately show ?thesis
    using assms(1,2)
    by (simp add: ingest_def rw_insert_def ref_pg_def ref_rw_insert_statement ref_insert_def Let_def)
qed

definition demo_state :: "tables rw_state" where
  "demo_state = \<lparr>rw_db = demo_tables, rw_metrics = Global\<rparr>"

theorem ingest_atomic_witness:
  "ingest ref_pg (NewHandler ''n1'') (demo_series @ demo_series) demo_tables
     = ((2, None), add_rows (map (row_of_rw micro ''n1'') (rows_of_series (demo_series @ demo_series))) demo_tables)"
proof -
  have r: "rows_of_series (demo_series @ demo_series) = rows_of_series demo_series @ rows_of_series demo_series"
    by (simp add: rows_of_series_def)
  obtain n db' where i: "ingest ref_pg (NewHandler ''n1'') (demo_series @ demo_series) demo_tables = ((n, None), db')"
    by (simp add: ingest_ref r demo_rows NewHandler_def demo_tables_def node_ids_def)
  have l: "int (length (rows_of_series (demo_series @ demo_series))) < 2 ^ 63" by (simp add: r demo_rows)
  from ingest_atomic [OF ref.postgres_axioms i l, unfolded option.case] i show ?thesis
    by (simp add: r demo_rows NewHandler_def)
qed

theorem remote_write_end_to_end_witness:
  "fst (ServeHTTP ref_pg Inr (NewHandler ''n1'') demo_request demo_state) = Some \<lparr>rp_status = 204, rp_body = []\<rparr>
    \<and> tb_samples (id (rw_db (snd (ServeHTTP ref_pg Inr (NewHandler ''n1'') demo_request demo_state))))
      = map (row_of_rw micro ''n1'') (rows_of_series demo_series)"
proof -
  obtain rep st' where s: "ServeHTTP ref_pg Inr (NewHandler ''n1'') demo_request demo_state = (rep, st')"
    by fastforce
  have rows: "rows_of_series (map series_of demo_raw) = rows_of_series demo_series"
    by (simp only: demo_raw_series)
  have "rep \<noteq> Some (http_error ''ingest error'' 500)"
  proof -
    have "ingest ref_pg (NewHandler ''n1'') demo_series (rw_db demo_state) = ((1, None),
        add_rows (map (row_of_rw micro ''n1'') (rows_of_series demo_series)) demo_tables)"
      by (subst ingest_ref) (simp_all add: demo_rows NewHandler_def demo_tables_def node_ids_def demo_state_def)
    from ServeHTTP_parsed [where snappy = Inr and r = demo_request and body = "enc_request demo_raw"
        and st = demo_state, OF _ _ _ demo_raw_parsed this] s
    show ?thesis by (auto simp: demo_request_def demo_raw_length http_error_def)
  qed
  moreover have "length (enc_request demo_raw) \<le> 10 * 2 ^ 20" "length (enc_request demo_raw) < 2 ^ 63"
    by (simp_all add: demo_raw_length)
  moreover have "int (length (rows_of_series (map series_of demo_raw))) < 2 ^ 63"
    by (simp add: rows demo_rows)
  moreover have "\<forall>x \<in> set demo_raw. \<forall>s \<in> set (snd x). in64 (snd s)"
    by (simp add: demo_raw_def in64_def)
  ultimately show ?thesis
    using remote_write_end_to_end [OF ref.postgres_axioms, of demo_request "enc_request demo_raw" Inr demo_raw
        "NewHandler ''n1''" demo_state rep st'] s
    by (simp add: demo_request_def rows NewHandler_def add_rows_def demo_state_def demo_tables_def
        demo_rows)
qed

theorem unregistered_receiver_fails_witness:
  "fst (ServeHTTP ref_pg Inr (NewHandler ''remote-write'') demo_request demo_state)
      = Some (http_error ''ingest error'' 500)
    \<and> rw_db (snd (ServeHTTP ref_pg Inr (NewHandler ''remote-write'') demo_request demo_state)) = rw_db demo_state"
  by (rule unregistered_receiver_fails [OF ref.postgres_axioms, where body = "enc_request demo_raw"
        and decoded = "enc_request demo_raw" and series = demo_series])
    (simp_all add: demo_request_def demo_raw_length demo_raw_parsed demo_rows NewHandler_def demo_state_def
      demo_tables_def node_ids_def)

end
