(* ===== verification/GoScan.thy ===== *)
theory GoScan
  imports GoString
begin

text \<open>
  Reading numbers: \<open>strconv.ParseFloat(s, 64)\<close> and \<open>fmt.Sscanf(s, "%f", &f)\<close>. A number is first
  recognised (sign, digits, point, exponent, underscores between digits, the hexadecimal form),
  then its exact value is rounded once; a value too large for a double is an error. The result
  \<open>None\<close> stands for every error.
\<close>

section \<open>\<open>strconv.ParseFloat\<close>\<close>

definition is_hex_digit :: "char \<Rightarrow> bool" where
  "is_hex_digit c \<longleftrightarrow> is_digit c \<or> (97 \<le> byte (ascii_lower c) \<and> byte (ascii_lower c) \<le> 102)"

definition hex_val :: "char \<Rightarrow> int" where
  "hex_val c = (if is_digit c then digit_val c else int (byte (ascii_lower c)) - 87)"

definition eq_fold_ascii :: "string \<Rightarrow> string \<Rightarrow> bool" where
  "eq_fold_ascii s t \<longleftrightarrow> map ascii_lower s = map ascii_lower t"

text \<open>An optional sign: whether it is a minus, and what follows.\<close>

fun cut_sign :: "string \<Rightarrow> bool \<times> string" where
  "cut_sign (c # s) = (if c = CHR ''-'' then (True, s) else if c = CHR ''+'' then (False, s) else (False, c # s))"
| "cut_sign [] = (False, [])"

text \<open>The mantissa: digits in base 10 or 16, underscores, at most one point. The result is its
  digits' value, the number of digits after the point, whether a digit was seen, and the rest.\<close>

fun mantissa :: "bool \<Rightarrow> bool \<Rightarrow> int \<Rightarrow> nat \<Rightarrow> bool \<Rightarrow> string \<Rightarrow> int \<times> nat \<times> bool \<times> string" where
  "mantissa hex dot v k seen [] = (v, k, seen, [])"
| "mantissa hex dot v k seen (c # s) =
     (if c = CHR ''_'' then mantissa hex dot v k seen s
      else if c = CHR ''.'' then (if dot then (v, k, seen, c # s) else mantissa hex True v k seen s)
      else if is_digit c \<or> (hex \<and> is_hex_digit c) then
        mantissa hex dot (v * (if hex then 16 else 10) + hex_val c) (if dot then k + 1 else k) True s
      else (v, k, seen, c # s))"

text \<open>The digits of an exponent, which stop counting at 10000.\<close>

fun exp_digits :: "int \<Rightarrow> string \<Rightarrow> int \<times> string" where
  "exp_digits e [] = (e, [])"
| "exp_digits e (c # s) =
     (if c = CHR ''_'' then exp_digits e s
      else if is_digit c then exp_digits (if e < 10000 then e * 10 + digit_val c else e) s
      else (e, c # s))"

text \<open>\<open>underscoreOK\<close>: underscores stand between digits, or after a base prefix.\<close>

fun underscores_between :: "bool \<Rightarrow> char \<Rightarrow> string \<Rightarrow> bool" where
  "underscores_between hex i [] = (i \<noteq> CHR ''_'')"
| "underscores_between hex i (c # s) =
     (if is_digit c \<or> (hex \<and> is_hex_digit c) then underscores_between hex (CHR ''0'') s
      else if c = CHR ''_'' then i = CHR ''0'' \<and> underscores_between hex (CHR ''_'') s
      else i \<noteq> CHR ''_'' \<and> underscores_between hex (CHR ''!'') s)"

definition has_hex_prefix :: "string \<Rightarrow> bool" where
  "has_hex_prefix s \<longleftrightarrow> (case s of a # b # _ \<Rightarrow> a = CHR ''0'' \<and> ascii_lower b = CHR ''x'' | _ \<Rightarrow> False)"

definition has_base_prefix :: "string \<Rightarrow> bool" where
  "has_base_prefix s \<longleftrightarrow> (case s of a # b # _ \<Rightarrow> a = CHR ''0'' \<and> ascii_lower b \<in> set ''box'' | _ \<Rightarrow> False)"

definition underscoreOK :: "string \<Rightarrow> bool" where
  "underscoreOK s =
     (let t = snd (cut_sign s) in
      if has_base_prefix t then underscores_between (has_hex_prefix t) (CHR ''0'') (drop 2 t)
      else underscores_between False (CHR ''^'') t)"

definition ParseFloat :: "string \<Rightarrow> f64 option" where
  "ParseFloat s =
     (let (neg, t) = cut_sign s in
      if eq_fold_ascii t ''inf'' \<or> eq_fold_ascii t ''infinity'' then Some (if neg then NInf else PInf)
      else if eq_fold_ascii s ''nan'' then Some NaN
      else
        let hex = has_hex_prefix t \<and> 2 < length t;
            (v, k, seen, rest) = mantissa hex False 0 0 False (if hex then drop 2 t else t);
            has_exp = (case rest of c # _ \<Rightarrow> ascii_lower c = (if hex then CHR ''p'' else CHR ''e'') | [] \<Rightarrow> False);
            (eneg, ds) = cut_sign (tl rest);
            (e, rest') = (if has_exp then exp_digits 0 ds else (0, rest))
        in if \<not> seen then None
           else if has_exp \<and> (ds = [] \<or> \<not> is_digit (hd ds)) then None
           else if hex \<and> \<not> has_exp then None
           else if rest' \<noteq> [] then None
           else if CHR ''_'' \<in> set s \<and> \<not> underscoreOK s then None
           else
             let ex = (if eneg then - e else e);
                 q = (if hex then of_int v * 2 powi (ex - 4 * int k) else of_int v * 10 powi (ex - int k));
                 f = fl False q
             in if f = PInf then None else Some (if neg then fneg f else f))"

section \<open>\<open>fmt.Sscanf\<close> with the verb \<open>%f\<close>\<close>

text \<open>The scanner's buffer and the input left; \<open>accept\<close> takes one character of a set.\<close>

type_synonym scan_state = "string \<times> string"

definition accept :: "string \<Rightarrow> scan_state \<Rightarrow> bool \<times> scan_state" where
  "accept cs st = (case snd st of
      c # r \<Rightarrow> if c \<in> set cs then (True, (fst st @ [c], r)) else (False, st)
    | [] \<Rightarrow> (False, st))"

definition accept_many :: "string \<Rightarrow> scan_state \<Rightarrow> scan_state" where
  "accept_many cs st =
     (fst st @ takeWhile (\<lambda>c. c \<in> set cs) (snd st), dropWhile (\<lambda>c. c \<in> set cs) (snd st))"

text \<open>\<open>accept a && accept b && accept c\<close>: later ones are tried only after earlier ones succeeded.\<close>

fun accept_seq :: "string list \<Rightarrow> scan_state \<Rightarrow> bool \<times> scan_state" where
  "accept_seq [] st = (True, st)"
| "accept_seq (cs # css) st = (let (ok, st') = accept cs st in if ok then accept_seq css st' else (False, st'))"

definition floatToken :: "string \<Rightarrow> string" where
  "floatToken s =
     (let (nan, st) = accept_seq [''nN'', ''aA'', ''nN''] ([], s) in
      if nan then fst st
      else
        let (_, st) = accept ''+-'' st;
            (inf, st) = accept_seq [''iI'', ''nN'', ''fF''] st
        in if inf then fst st
           else
             let (hex, st) = accept_seq [''0'', ''xX''] st;
                 digits = (if hex then ''0123456789aAbBcCdDeEfF_'' else ''0123456789_'');
                 st = accept_many digits st;
                 (dot, st) = accept ''.'' st;
                 st = (if dot then accept_many digits st else st);
                 (ex, st) = accept (if hex then ''pP'' else ''eEpP'') st;
                 st = (if ex then accept_many ''0123456789_'' (snd (accept ''+-'' st)) else st)
             in fst st)"

text \<open>\<open>convertFloat\<close>: a decimal mantissa may carry a binary exponent after a \<open>p\<close>; \<open>math.Ldexp\<close>.\<close>

definition ldexp :: "f64 \<Rightarrow> int \<Rightarrow> f64" where
  "ldexp f m = (case f of Fin q \<Rightarrow> if q = 0 then f else fl (q < 0) (q * 2 powi m) | _ \<Rightarrow> f)"

definition Sscanf_f :: "string \<Rightarrow> f64 option" where
  "Sscanf_f s =
     (let t = floatToken s; p = IndexByte t (CHR ''p'') in
      if 0 \<le> p \<and> CHR ''x'' \<notin> set t \<and> CHR ''X'' \<notin> set t then
        (case (ParseFloat (take (nat p) t), Atoi (drop (nat p + 1) t)) of
           (Some f, Some m) \<Rightarrow> Some (ldexp f m)
         | _ \<Rightarrow> None)
      else ParseFloat t)"

section \<open>Reading a printed integer\<close>

lemma is_digit_iff: "is_digit c \<longleftrightarrow> c \<in> set ''0123456789''"
proof -
  have "(48::nat) \<le> n \<and> n \<le> 57 \<longleftrightarrow> n \<in> set [48,49,50,51,52,53,54,55,56,57]" for n by simp presburger
  then have "is_digit c \<longleftrightarrow> byte c \<in> set (map byte ''0123456789'')" by (simp add: is_digit_def)
  also have "\<dots> \<longleftrightarrow> c \<in> set ''0123456789''"
    unfolding set_map by (rule inj_image_mem_iff) (simp add: inj_on_def)
  finally show ?thesis .
qed

lemma digit_not_in: "is_digit c \<Longrightarrow> c \<notin> set ''nNaAiIfF+-xX._eEpP''"
  by (auto simp: is_digit_def)

lemma accept_no: "c \<notin> set cs \<Longrightarrow> accept cs (b, c # r) = (False, (b, c # r))"
  by (simp add: accept_def)

lemma accept_many_all: "\<forall>c \<in> set e. c \<in> set cs \<Longrightarrow> accept_many cs (b, e) = (b @ e, [])"
  by (simp add: accept_many_def takeWhile_eq_all_conv dropWhile_eq_Nil_conv)

lemma floatToken_digits:
  assumes "sg = [] \<or> sg = ''-''" and "ds \<noteq> []" and "list_all is_digit ds"
  shows "floatToken (sg @ ds) = sg @ ds"
proof -
  obtain d ds' where d: "ds = d # ds'" using assms(2) by (cases ds) auto
  have dig: "is_digit d" "list_all is_digit ds'" using assms(3) d by auto
  have many: "accept_many ''0123456789_'' (b, e) = (b @ e, [])" if "list_all is_digit e" for b e
  proof (rule accept_many_all)
    have "set ''0123456789'' \<subseteq> set ''0123456789_''" by (simp only: list.set) blast
    then show "\<forall>c \<in> set e. c \<in> set ''0123456789_''" using that unfolding list_all_iff is_digit_iff by blast
  qed
  have n: "d \<notin> set ''nN''" "d \<notin> set ''iI''" "d \<notin> set ''+-''" using digit_not_in [OF dig(1)] by auto
  have x: "accept ''xX'' (u, ds') = (False, (u, ds'))" for u
  proof (cases ds')
    case (Cons c r)
    then have "c \<notin> set ''xX''" using digit_not_in [of c] dig(2) by auto
    then show ?thesis unfolding Cons by (rule accept_no)
  qed (simp add: accept_def)
  have hex: "\<exists>b e. accept_seq [''0'', ''xX''] (u, ds) = (False, (b, e)) \<and> list_all is_digit e \<and> b @ e = u @ ds" for u
  proof (cases "d = CHR ''0''")
    case True
    then have "accept ''0'' (u, ds) = (True, (u @ [d], ds'))" by (simp add: accept_def d)
    with x dig(2) show ?thesis by (simp add: d)
  next
    case False
    then have "accept ''0'' (u, ds) = (False, (u, ds))" by (simp add: accept_def d)
    with assms(3) show ?thesis by simp
  qed
  have s1: "accept_seq [''nN'', ''aA'', ''nN''] ([], sg @ ds) = (False, ([], sg @ ds))"
    using assms(1) accept_no [OF n(1)] by (elim disjE) (simp_all add: d accept_no)
  have s2: "accept ''+-'' ([], sg @ ds) = (sg \<noteq> [], (sg, ds))"
    using assms(1) accept_no [OF n(3)] by (elim disjE) (simp_all add: d accept_def)
  have s3: "accept_seq [''iI'', ''nN'', ''fF''] (sg, ds) = (False, (sg, ds))"
    using accept_no [OF n(2)] by (simp add: d)
  obtain b e where h: "accept_seq [''0'', ''xX''] (sg, ds) = (False, (b, e))" "list_all is_digit e" "b @ e = sg @ ds"
    using hex by blast
  have fin: "accept cs (w, []) = (False, (w, []))" for cs w by (simp add: accept_def)
  show ?thesis
    unfolding floatToken_def Let_def s1 s2 s3 h(1) prod.case if_False many [OF h(2)] fin fst_conv
    using h(3) by simp
qed

lemma mantissa_digits:
  "list_all is_digit ds \<Longrightarrow> mantissa False False v 0 seen ds = (digits_val v ds, 0, seen \<or> ds \<noteq> [], [])"
  by (induction ds arbitrary: v seen) (auto simp: is_digit_def hex_val_def)

lemma fneg_of_int64:
  assumes "0 < n" and "n \<le> 2 ^ 63"
  shows "fneg (fl False (of_int n)) = of_int64 (- n)"
proof -
  have r: "0 < rnd (of_int n)" using rnd_mono [of 1 "of_int n"] rnd_int [of 1] assms(1) by simp
  have "rnd (of_int n) \<le> of_int (2 ^ 63)" using rnd_mono [of "of_int n" "of_int (2 ^ 63)"] assms(2) rnd_2_63 by (metis of_int_le_iff)
  then have b: "rnd (of_int n) < 2 ^ 1024" by (rule le_less_trans) simp
  with r have "\<not> rnd (of_int n) \<le> - (2 ^ 1024)" by (meson le_less_trans neg_le_0_iff_le not_less zero_le_numeral zero_le_power)
  with r b show ?thesis
    by (simp add: of_int64_def fl_def Let_def rnd_minus del: power_numeral)
qed

lemma has_hex_prefix_digits: "list_all is_digit ds \<Longrightarrow> \<not> has_hex_prefix ds"
  by (cases ds; cases "tl ds") (auto simp: has_hex_prefix_def ascii_lower_def is_digit_def)

lemma eq_fold_digit: "is_digit d \<Longrightarrow> \<not> eq_fold_ascii (d # s) ''inf'' \<and> \<not> eq_fold_ascii (d # s) ''infinity''
    \<and> \<not> eq_fold_ascii (d # s) ''nan''"
proof -
  assume "is_digit d"
  then have "byte (ascii_lower d) \<le> 57" by (auto simp: is_digit_def ascii_lower_def)
  moreover have "byte (ascii_lower (CHR ''i'')) = 105" "byte (ascii_lower (CHR ''n'')) = 110"
    by (simp_all add: ascii_lower_def)
  ultimately have "ascii_lower d \<noteq> ascii_lower (CHR ''i'')" "ascii_lower d \<noteq> ascii_lower (CHR ''n'')" by auto
  then show ?thesis by (simp add: eq_fold_ascii_def)
qed

lemma cut_sign_digit: "is_digit d \<Longrightarrow> cut_sign (d # s) = (False, d # s)"
  by (auto simp: is_digit_def)

lemma ParseFloat_itoa:
  assumes "in64 n"
  shows "ParseFloat (itoa n) = Some (of_int64 n)"
proof -
  define ds where "ds = nat_digits (nat \<bar>n\<bar>)"
  have dig: "list_all is_digit ds" "ds \<noteq> []" and v: "digits_val 0 ds = \<bar>n\<bar>"
    using nat_digits_digits digits_val_nat_digits by (simp_all add: ds_def)
  obtain d ds' where d: "ds = d # ds'" "is_digit d" using dig by (cases ds) auto
  have i: "itoa n = (if n < 0 then ''-'' @ ds else ds)" by (simp add: itoa_def ds_def)
  have c: "cut_sign (itoa n) = (n < 0, ds)" using cut_sign_digit [OF d(2), of ds'] by (simp add: i d(1) del: cut_sign.simps) simp
  have e: "\<not> eq_fold_ascii ds ''inf''" "\<not> eq_fold_ascii ds ''infinity''" "\<not> eq_fold_ascii (itoa n) ''nan''"
    using eq_fold_digit [OF d(2)] by (auto simp: d(1) i eq_fold_ascii_def ascii_lower_def)
  have "\<not> (CHR ''_'' \<in> set ds)" using dig(1) by (auto simp: list_all_iff is_digit_def)
  then have u: "\<not> (CHR ''_'' \<in> set (itoa n))" by (auto simp: i)
  have m: "mantissa False False 0 0 False ds = (\<bar>n\<bar>, 0, True, [])"
    using mantissa_digits [OF dig(1)] dig(2) v by simp
  have f: "fl False (of_int \<bar>n\<bar>) \<noteq> PInf"
  proof
    assume "fl False (of_int \<bar>n\<bar>) = PInf"
    moreover have "\<bar>n\<bar> \<le> 2 ^ 63" using assms by (auto simp: in64_def abs_le_iff)
    then have "rnd (of_int \<bar>n\<bar>) \<le> rnd (of_int (2 ^ 63))" by (intro rnd_mono) (simp only: of_int_le_iff)
    then have "rnd (of_int \<bar>n\<bar>) \<le> of_int (2 ^ 63)" by (simp only: rnd_2_63)
    then have "rnd (of_int \<bar>n\<bar>) < 2 ^ 1024" by (rule le_less_trans) simp
    ultimately show False by (auto simp: fl_def Let_def not_le split: if_splits)
  qed
  have "ParseFloat (itoa n) = Some (if n < 0 then fneg (fl False (of_int \<bar>n\<bar>)) else fl False (of_int \<bar>n\<bar>))"
    unfolding ParseFloat_def c Let_def prod.case
    using e u m f has_hex_prefix_digits [OF dig(1)] by simp
  moreover have "fneg (fl False (of_int \<bar>n\<bar>)) = of_int64 n" if "n < 0"
  proof -
    have "0 < - n" "- n \<le> 2 ^ 63" using that assms by (auto simp: in64_def)
    from fneg_of_int64 [OF this] that show ?thesis by simp
  qed
  ultimately show ?thesis by (auto simp: of_int64_def)
qed

lemma Sscanf_f_itoa:
  assumes "in64 n"
  shows "Sscanf_f (itoa n) = Some (of_int64 n)"
proof -
  define ds where "ds = nat_digits (nat \<bar>n\<bar>)"
  have dig: "list_all is_digit ds" "ds \<noteq> []" using nat_digits_digits by (simp_all add: ds_def)
  have i: "itoa n = (if n < 0 then ''-'' else []) @ ds" by (simp add: itoa_def ds_def)
  have t: "floatToken (itoa n) = itoa n" unfolding i by (rule floatToken_digits) (use dig in auto)
  have "CHR ''p'' \<notin> set (itoa n)" unfolding i using dig(1) by (auto simp: list_all_iff is_digit_def)
  then have "IndexByte (itoa n) (CHR ''p'') < 0" by (simp only: IndexByte_neg_iff not_False_eq_True)
  then show ?thesis using ParseFloat_itoa [OF assms] by (simp add: Sscanf_f_def t)
qed

end
