(* ===== verification/PromText.thy ===== *)
theory PromText
  imports GoScan PgTables
begin

text \<open>
  The Prometheus half of \<open>internal/collector/collector.go\<close>: from exposition text to samples.
\<close>

section \<open>Labels\<close>

text \<open>The state of the label splitter: the pieces so far, the current piece, and the two flags.\<close>

record split_state =
  sp_result :: "string list"
  sp_current :: string
  sp_inQuote :: bool
  sp_escaped :: bool

definition split_rune :: "nat \<Rightarrow> split_state \<Rightarrow> split_state" where
  "split_rune ch st =
     (let write = sp_current st @ encode_rune ch in
      if sp_escaped st then st\<lparr>sp_current := write, sp_escaped := False\<rparr>
      else if ch = 0x5C then st\<lparr>sp_escaped := True, sp_current := write\<rparr>
      else if ch = 0x22 then st\<lparr>sp_inQuote := \<not> sp_inQuote st, sp_current := write\<rparr>
      else if ch = 0x2C \<and> \<not> sp_inQuote st then
        (if sp_current st \<noteq> [] then st\<lparr>sp_result := sp_result st @ [sp_current st], sp_current := []\<rparr>
         else st)
      else st\<lparr>sp_current := write\<rparr>)"

definition split_flush :: "split_state \<Rightarrow> string list" where
  "split_flush st = (if sp_current st \<noteq> [] then sp_result st @ [sp_current st] else sp_result st)"

definition split_init :: split_state where
  "split_init = \<lparr>sp_result = [], sp_current = [], sp_inQuote = False, sp_escaped = False\<rparr>"

definition splitLabels :: "string \<Rightarrow> string list" where
  "splitLabels s = split_flush (fold split_rune (string_runes s) split_init)"

text \<open>Assigning to a map, as an association list without duplicate keys.\<close>

fun map_set :: "'a \<Rightarrow> 'b \<Rightarrow> ('a \<times> 'b) list \<Rightarrow> ('a \<times> 'b) list" where
  "map_set k v [] = [(k, v)]"
| "map_set k v ((k', v') # m) = (if k' = k then (k, v) # m else (k', v') # map_set k v m)"

text \<open>One pair of the label loop.\<close>

definition read_pair :: "string \<Rightarrow> MetricSample \<Rightarrow> MetricSample" where
  "read_pair pair s =
     (let eqIdx = IndexByte pair (CHR ''='') in
      if eqIdx < 0 then s
      else
        let key = TrimSpace (take (nat eqIdx) pair);
            val = TrimByte (TrimSpace (drop (nat eqIdx + 1) pair)) (CHR 0x22);
            s = s\<lparr>SLabels := map_option (map_set key val) (SLabels s)\<rparr>
        in if key = ''chart'' then s\<lparr>Chart := val\<rparr>
           else if key = ''family'' then s\<lparr>Family := val\<rparr>
           else if key = ''dimension'' then s\<lparr>Dimension := val\<rparr>
           else if key = ''instance'' then s\<lparr>Instance := val\<rparr>
           else if key = ''units'' then s\<lparr>Unit := val\<rparr>
           else s)"

section \<open>Lines\<close>

definition trim_suffixes :: "string list \<Rightarrow> string \<Rightarrow> string" where
  "trim_suffixes suffixes name = fold (\<lambda>suffix n. TrimSuffix n suffix) suffixes name"

text \<open>The second loop stops at the first suffix it removes.\<close>

fun trim_first_suffix :: "string list \<Rightarrow> string \<Rightarrow> string" where
  "trim_first_suffix [] name = name"
| "trim_first_suffix (suffix # rest) name =
     (if HasSuffix name suffix then TrimSuffix name suffix else trim_first_suffix rest name)"

definition prometheusNameToContext :: "string \<Rightarrow> string" where
  "prometheusNameToContext name =
     trim_first_suffix [''_percentage'', ''_bytes'', ''_kilobytes'', ''_megabytes'', ''_seconds'',
         ''_operations'', ''_requests'', ''_count'']
       (trim_suffixes [''_average'', ''_total'', ''_sum''] name)"

definition parseFloat :: "string \<Rightarrow> f64 option" where
  "parseFloat s =
     (let s = TrimSpace s in
      if s \<in> set [''+Inf'', ''Inf'', ''-Inf'', ''NaN''] then None else Sscanf_f s)"

definition empty_sample :: "string \<Rightarrow> int \<Rightarrow> MetricSample" where
  "empty_sample nodeID collectedAt =
     \<lparr>NodeID = nodeID, CollectedAt = collectedAt, Context = [], Chart = [], Family = [], Instance = [],
      Dimension = [], Unit = [], SValue = Fin 0, SLabels = None\<rparr>"

text \<open>The metric name, the sample with the labels read, and the text of the value.\<close>

definition split_line :: "string \<Rightarrow> MetricSample \<Rightarrow> (string \<times> MetricSample \<times> string) option" where
  "split_line line s =
     (let labelStart = IndexByte line (CHR ''{''); labelEnd = IndexByte line (CHR ''}'') in
      if 0 \<le> labelStart \<and> labelStart < labelEnd then
        let labelsStr = drop (nat labelStart + 1) (take (nat labelEnd) line) in
        Some (take (nat labelStart) line, fold read_pair (splitLabels labelsStr) s,
              TrimSpace (drop (nat labelEnd + 1) line))
      else case Fields line of
        name # value # _ \<Rightarrow> Some (name, s, value)
      | _ \<Rightarrow> None)"

definition parsePrometheusLine :: "string \<Rightarrow> string \<Rightarrow> int \<Rightarrow> MetricSample option" where
  "parsePrometheusLine line nodeID collectedAt =
     (case split_line line ((empty_sample nodeID collectedAt)\<lparr>SLabels := Some []\<rparr>) of
        None \<Rightarrow> None
      | Some (metricName, s, valueStr) \<Rightarrow>
          let s = s\<lparr>Context := prometheusNameToContext metricName\<rparr>;
              s = (if Dimension s = [] then s\<lparr>Dimension := metricName\<rparr> else s)
          in map_option (\<lambda>val. s\<lparr>SValue := val\<rparr>) (parseFloat valueStr))"

text \<open>The contexts that are let through: the configured names, raw and in Netdata's spelling.\<close>

definition enabled_prefixes :: "string list \<Rightarrow> string list" where
  "enabled_prefixes contexts =
     concat (map (\<lambda>c. [''netdata_'' @ ReplaceByte c (CHR ''.'') (CHR ''_''), c]) contexts)"

definition parse_one :: "string list \<Rightarrow> string \<Rightarrow> int \<Rightarrow> string \<Rightarrow> MetricSample list" where
  "parse_one contexts nodeID collectedAt line =
     (let line = TrimSpace line in
      if line = [] \<or> HasPrefix line ''#'' then []
      else case parsePrometheusLine line nodeID collectedAt of
        None \<Rightarrow> []
      | Some s \<Rightarrow> if list_ex (HasPrefix (Context s)) (enabled_prefixes contexts) then [s] else [])"

definition parsePrometheusResponse :: "string list \<Rightarrow> string \<Rightarrow> string \<Rightarrow> int \<Rightarrow> MetricSample list" where
  "parsePrometheusResponse contexts nodeID body collectedAt =
     concat (map (parse_one contexts nodeID collectedAt) (Split body (CHR 0x0A)))"

section \<open>Plain text\<close>

definition is_graph :: "char \<Rightarrow> bool" where
  "is_graph c \<longleftrightarrow> 33 \<le> byte c \<and> byte c \<le> 126"

lemma runes_ascii: "\<forall>b \<in> set bs. b < 128 \<Longrightarrow> runes bs = bs"
proof (induction bs)
  case (Cons b bs)
  then show ?case by (simp add: runes.simps [of "b # bs"])
qed (simp add: runes.simps)

lemma string_runes_ascii: "is_ascii s \<Longrightarrow> string_runes s = map byte s"
  by (simp add: string_runes_def is_ascii_def runes_ascii)

lemma encode_byte: "byte c < 128 \<Longrightarrow> encode_rune (byte c) = [c]"
  by (simp add: encode_rune_def)

lemma space_runes_first: "p \<in> set space_runes \<Longrightarrow> p \<noteq> [] \<and> \<not> is_graph (hd p) \<and> \<not> is_graph (last p)"
  unfolding space_runes_def by (auto simp: is_graph_def)

lemma find_none: "(\<And>x. x \<in> set xs \<Longrightarrow> \<not> P x) \<Longrightarrow> find P xs = None"
  by (induction xs) auto

lemma front_space_graph: "is_graph c \<Longrightarrow> front_space (c # s) = 0"
  unfolding front_space_def
  by (subst find_none) (auto simp: HasPrefix_iff Cons_eq_append_conv dest!: space_runes_first)

lemma back_space_graph: "is_graph c \<Longrightarrow> back_space (s @ [c]) = 0"
  unfolding back_space_def
proof (subst find_none)
  fix p assume g: "is_graph c" and p: "p \<in> set space_runes"
  have n: "p \<noteq> []" "\<not> is_graph (last p)" using space_runes_first [OF p] by blast+
  have "c = last p" if "s @ [c] = t @ p" for t
    using arg_cong [OF that, of last] n(1) by simp
  with g n(2) show "\<not> HasSuffix (s @ [c]) p" by (auto simp: HasSuffix_iff)
qed simp

lemma TrimLeftSpace_graph: "is_graph c \<Longrightarrow> TrimLeftSpace (c # s) = c # s"
  by (subst TrimLeftSpace.simps) (simp add: front_space_graph)

lemma TrimRightSpace_graph: "is_graph c \<Longrightarrow> TrimRightSpace (s @ [c]) = s @ [c]"
  by (subst TrimRightSpace.simps) (simp add: back_space_graph)

lemma TrimSpace_graph:
  assumes "s \<noteq> []" and "is_graph (hd s)" and "is_graph (last s)"
  shows "TrimSpace s = s"
proof -
  have "TrimLeftSpace s = s" using TrimLeftSpace_graph [of "hd s" "tl s"] assms(1,2) by simp
  moreover have "TrimRightSpace s = s"
    using TrimRightSpace_graph [of "last s" "butlast s"] assms(1,3) by simp
  ultimately show ?thesis by (simp add: TrimSpace_def)
qed

lemma TrimSpace_Nil [simp]: "TrimSpace [] = []"
  by (simp add: TrimSpace_def TrimLeftSpace.simps TrimRightSpace.simps)

lemma chr_blanks: "chr 9 = CHR 0x09" "chr 10 = CHR 0x0A" "chr 11 = CHR 0x0B" "chr 12 = CHR 0x0C"
    "chr 13 = CHR 0x0D" "chr 32 = CHR '' ''"
  by code_simp+

lemma front_space_blank: "front_space (CHR '' '' # s) = 1"
  by (simp add: front_space_def space_runes_def chr_blanks)

lemma TrimSpace_blank: "TrimSpace (CHR '' '' # s) = TrimSpace s"
  unfolding TrimSpace_def by (subst TrimLeftSpace.simps) (simp add: front_space_blank)

section \<open>Reading back what an exporter prints\<close>

definition Q :: char where "Q = CHR 0x22"

definition render_pair :: "string \<times> string \<Rightarrow> string" where
  "render_pair p = fst p @ [CHR ''='', Q] @ snd p @ [Q]"

definition render_line :: "string \<Rightarrow> (string \<times> string) list \<Rightarrow> int \<Rightarrow> string" where
  "render_line name labels n =
     name @ ''{'' @ Join (map render_pair labels) '','' @ ''} '' @ itoa n"

text \<open>A label name is printable without the separators; a value may also hold blanks, commas and
  equals signs, but no quote, backslash or closing brace.\<close>

definition plain_key :: "string \<Rightarrow> bool" where
  "plain_key k \<longleftrightarrow> k \<noteq> [] \<and> list_all (\<lambda>c. is_graph c \<and> c \<notin> set ''=,{}'' \<and> c \<noteq> Q \<and> c \<noteq> CHR 0x5C) k"

definition plain_value :: "string \<Rightarrow> bool" where
  "plain_value v \<longleftrightarrow> list_all (\<lambda>c. byte c < 128 \<and> c \<noteq> CHR ''}'' \<and> c \<noteq> Q \<and> c \<noteq> CHR 0x5C) v"

text \<open>The splitter on one character that is not special in its state.\<close>

definition split_char :: "char \<Rightarrow> split_state \<Rightarrow> split_state" where
  "split_char c st = split_rune (byte c) st"

lemma splitLabels_ascii: "is_ascii s \<Longrightarrow> splitLabels s = split_flush (fold split_char s split_init)"
proof -
  have "fold split_rune (map byte s) st = fold split_char s st" for st
    by (induction s arbitrary: st) (simp_all add: split_char_def)
  then show "is_ascii s \<Longrightarrow> ?thesis" by (simp add: splitLabels_def string_runes_ascii)
qed

lemma byte_specials:
  "byte c = 0x5C \<longleftrightarrow> c = CHR 0x5C" "byte c = 0x22 \<longleftrightarrow> c = Q" "byte c = 0x2C \<longleftrightarrow> c = CHR '',''"
  using of_char_eq_iff [of c "CHR 0x5C", where ?'a = nat] of_char_eq_iff [of c Q, where ?'a = nat]
    of_char_eq_iff [of c "CHR '',''", where ?'a = nat]
  by (simp_all add: Q_def)

lemma split_plain_run:
  assumes "list_all (\<lambda>c. byte c < 128 \<and> c \<noteq> Q \<and> c \<noteq> CHR 0x5C \<and> (c \<noteq> CHR '','' \<or> q)) w"
  shows "fold split_char w \<lparr>sp_result = r, sp_current = u, sp_inQuote = q, sp_escaped = False\<rparr>
    = \<lparr>sp_result = r, sp_current = u @ w, sp_inQuote = q, sp_escaped = False\<rparr>"
  using assms
proof (induction w arbitrary: u)
  case (Cons c w)
  have "byte c \<noteq> 0x5C" "byte c \<noteq> 0x22" "byte c \<noteq> 0x2C \<or> q"
    using Cons.prems by (auto simp: byte_specials)
  then have "split_char c \<lparr>sp_result = r, sp_current = u, sp_inQuote = q, sp_escaped = False\<rparr>
      = \<lparr>sp_result = r, sp_current = u @ [c], sp_inQuote = q, sp_escaped = False\<rparr>"
    using Cons.prems by (auto simp: split_char_def split_rune_def encode_byte)
  with Cons show ?case by simp
qed simp

lemma split_pair:
  assumes "plain_key (fst p)" and "plain_value (snd p)"
  shows "fold split_char (render_pair p) \<lparr>sp_result = r, sp_current = [], sp_inQuote = False, sp_escaped = False\<rparr>
    = \<lparr>sp_result = r, sp_current = render_pair p, sp_inQuote = False, sp_escaped = False\<rparr>"
proof -
  let ?st = "\<lambda>u q. \<lparr>sp_result = r, sp_current = u, sp_inQuote = q, sp_escaped = False\<rparr>"
  let ?ok = "\<lambda>q c. byte c < 128 \<and> c \<noteq> Q \<and> c \<noteq> CHR 0x5C \<and> (c \<noteq> CHR '','' \<or> q)"
  have "list_all (?ok False) (fst p)"
    using assms(1) unfolding plain_key_def by (auto elim!: list.pred_mono_strong simp: is_graph_def)
  then have k: "list_all (?ok False) (fst p @ [CHR ''=''])" by (simp add: Q_def)
  have v: "list_all (?ok True) (snd p)"
    using assms(2) unfolding plain_value_def by (auto elim!: list.pred_mono_strong)
  have q: "split_char Q (?st u b) = ?st (u @ [Q]) (\<not> b)" for u b
    using encode_byte [of Q] by (simp add: split_char_def split_rune_def Q_def)
  have e: "render_pair p = (fst p @ [CHR ''='']) @ [Q] @ snd p @ [Q]" by (simp add: render_pair_def)
  have "fold split_char (render_pair p) (?st [] False)
      = split_char Q (fold split_char (snd p) (split_char Q (fold split_char (fst p @ [CHR ''='']) (?st [] False))))"
    by (simp add: e)
  also have "\<dots> = ?st (fst p @ [CHR ''=''] @ [Q] @ snd p @ [Q]) False"
    by (simp only: split_plain_run [OF k] split_plain_run [OF v] q append_Nil append_assoc not_False_eq_True
        not_True_eq_False)
  finally show ?thesis by (simp only: e append_assoc)
qed

lemma split_pairs:
  assumes "\<forall>p \<in> set ps. plain_key (fst p) \<and> plain_value (snd p)"
  shows "split_flush (fold split_char (Join (map render_pair ps) '','')
      \<lparr>sp_result = r, sp_current = [], sp_inQuote = False, sp_escaped = False\<rparr>) = r @ map render_pair ps"
  using assms
proof (induction ps arbitrary: r)
  case (Cons p ps)
  have ne: "render_pair p \<noteq> []" by (simp add: render_pair_def)
  have comma: "split_char (CHR '','') \<lparr>sp_result = r, sp_current = render_pair p, sp_inQuote = False, sp_escaped = False\<rparr>
      = \<lparr>sp_result = r @ [render_pair p], sp_current = [], sp_inQuote = False, sp_escaped = False\<rparr>"
    by (simp add: split_char_def split_rune_def ne)
  show ?case
    using Cons.prems Cons.IH [of "r @ [render_pair p]"] ne
    by (cases "ps = []") (simp_all add: Join_Cons split_pair comma split_flush_def)
qed (simp add: split_flush_def)

lemma IndexByte_append: "c \<notin> set a \<Longrightarrow> IndexByte (a @ c # b) c = int (length a)"
  by (induction a) (auto simp: Let_def)

lemma TrimByte_quoted: "Q \<notin> set v \<Longrightarrow> TrimByte (Q # v @ [Q]) Q = v"
proof -
  assume q: "Q \<notin> set v"
  have d: "dropWhile (\<lambda>d. d = Q) w = w" if "Q \<notin> set w" for w
    using that by (cases w) auto
  have "dropWhile (\<lambda>d. d = Q) (Q # v @ [Q]) = (if v = [] then [] else v @ [Q])"
    using q by (cases v) auto
  then show ?thesis using q d [of "rev v"] by (simp add: TrimByte_def)
qed

definition set_label :: "string \<times> string \<Rightarrow> MetricSample \<Rightarrow> MetricSample" where
  "set_label p s =
     (let s = s\<lparr>SLabels := map_option (map_set (fst p) (snd p)) (SLabels s)\<rparr> in
      if fst p = ''chart'' then s\<lparr>Chart := snd p\<rparr>
      else if fst p = ''family'' then s\<lparr>Family := snd p\<rparr>
      else if fst p = ''dimension'' then s\<lparr>Dimension := snd p\<rparr>
      else if fst p = ''instance'' then s\<lparr>Instance := snd p\<rparr>
      else if fst p = ''units'' then s\<lparr>Unit := snd p\<rparr>
      else s)"

lemma read_pair_render:
  assumes "plain_key (fst p)" and "plain_value (snd p)"
  shows "read_pair (render_pair p) s = set_label p s"
proof -
  have k: "CHR ''='' \<notin> set (fst p)" "fst p \<noteq> []" "is_graph (hd (fst p))" "is_graph (last (fst p))"
    using assms(1) by (auto simp: plain_key_def list_all_iff)
  have q: "Q \<notin> set (snd p)" using assms(2) by (auto simp: plain_value_def list_all_iff)
  have i: "IndexByte (render_pair p) (CHR ''='') = int (length (fst p))"
    using IndexByte_append [OF k(1)] by (simp add: render_pair_def)
  have t: "take (length (fst p)) (render_pair p) = fst p"
    and d: "drop (length (fst p) + 1) (render_pair p) = Q # snd p @ [Q]"
    by (simp_all add: render_pair_def)
  have g: "is_graph Q" by (simp add: is_graph_def Q_def)
  have tv: "TrimSpace (Q # snd p @ [Q]) = Q # snd p @ [Q]" by (rule TrimSpace_graph) (simp_all add: g)
  have n: "nat (int (length (fst p)) + 1) = length (fst p) + 1" "nat (int (length (fst p))) + 1 = length (fst p) + 1"
    by simp_all
  show ?thesis
    unfolding read_pair_def Let_def i n nat_int t d tv TrimSpace_graph [OF k(2-4)]
      TrimByte_quoted [OF q, unfolded Q_def] set_label_def
    using TrimByte_quoted [OF q] by (simp add: Q_def)
qed

definition lookup_or :: "(string \<times> string) list \<Rightarrow> string \<Rightarrow> string \<Rightarrow> string" where
  "lookup_or ls k d = (case map_of ls k of None \<Rightarrow> d | Some v \<Rightarrow> v)"

lemma lookup_or_simps [simp]:
  "lookup_or [] k d = d"
  "lookup_or (p # ls) k d = (if fst p = k then snd p else lookup_or ls k d)"
  by (simp_all add: lookup_or_def)

lemma lookup_or_fresh: "k \<notin> fst ` set ls \<Longrightarrow> lookup_or ls k d = d"
  by (simp add: lookup_or_def map_of_eq_None_iff [THEN iffD2])

lemma map_set_fresh: "k \<notin> fst ` set m \<Longrightarrow> map_set k v m = m @ [(k, v)]"
  by (induction m) auto

text \<open>What a sequence of labels with distinct names leaves in a sample.\<close>

lemma fold_set_label:
  assumes "distinct (map fst ls)" and "SLabels s = Some m" and "fst ` set ls \<inter> fst ` set m = {}"
  shows "fold set_label ls s = s\<lparr>SLabels := Some (m @ ls), Chart := lookup_or ls ''chart'' (Chart s),
    Family := lookup_or ls ''family'' (Family s), Dimension := lookup_or ls ''dimension'' (Dimension s),
    Instance := lookup_or ls ''instance'' (Instance s), Unit := lookup_or ls ''units'' (Unit s)\<rparr>"
  using assms
proof (induction ls arbitrary: s m)
  case (Cons p ls)
  have f: "fst p \<notin> fst ` set ls" "fst p \<notin> fst ` set m" "distinct (map fst ls)"
    "fst ` set ls \<inter> fst ` set (m @ [p]) = {}"
    using Cons.prems by auto
  have l: "SLabels (set_label p s) = Some (m @ [p])"
    using Cons.prems(2) f(2) by (simp add: set_label_def Let_def map_set_fresh)
  have "fold set_label (p # ls) s = fold set_label ls (set_label p s)" by simp
  also note Cons.IH [OF f(3) l f(4)]
  also have "(set_label p s)\<lparr>SLabels := Some ((m @ [p]) @ ls),
      Chart := lookup_or ls ''chart'' (Chart (set_label p s)), Family := lookup_or ls ''family'' (Family (set_label p s)),
      Dimension := lookup_or ls ''dimension'' (Dimension (set_label p s)),
      Instance := lookup_or ls ''instance'' (Instance (set_label p s)),
      Unit := lookup_or ls ''units'' (Unit (set_label p s))\<rparr>
    = s\<lparr>SLabels := Some (m @ p # ls), Chart := lookup_or (p # ls) ''chart'' (Chart s),
      Family := lookup_or (p # ls) ''family'' (Family s), Dimension := lookup_or (p # ls) ''dimension'' (Dimension s),
      Instance := lookup_or (p # ls) ''instance'' (Instance s), Unit := lookup_or (p # ls) ''units'' (Unit s)\<rparr>"
    using f(1) by (cases s) (auto simp: set_label_def Let_def lookup_or_fresh)
  finally show ?case .
next
  case Nil
  then show ?case by (cases s) simp
qed

lemma itoa_graph: "itoa n \<noteq> [] \<and> is_graph (hd (itoa n)) \<and> is_graph (last (itoa n))"
proof -
  obtain ds where i: "itoa n = ''-'' @ ds \<or> itoa n = ds" and ds: "list_all is_digit ds" "ds \<noteq> []"
    using nat_digits_digits by (metis itoa_def)
  have "is_graph c" if "c \<in> set ds" for c
    using that ds(1) by (auto simp: list_all_iff is_digit_def is_graph_def)
  then have "is_graph (hd ds)" "is_graph (last ds)" using ds(2) by simp_all
  moreover have "is_graph (CHR ''-'')" by (simp add: is_graph_def)
  ultimately show ?thesis using i ds(2) by (elim disjE) simp_all
qed

lemma parseFloat_itoa:
  assumes "in64 n"
  shows "parseFloat (itoa n) = Some (of_int64 n)"
proof -
  have t: "TrimSpace (itoa n) = itoa n" using itoa_graph [of n] by (intro TrimSpace_graph) auto
  obtain d s where d: "itoa n = d # s \<and> is_digit d \<or> itoa n = CHR ''-'' # d # s \<and> is_digit d"
  proof (cases "n < 0")
    case True
    with nat_digits_digits [of "nat (- n)"] that show ?thesis
      by (cases "nat_digits (nat (- n))") (auto simp: itoa_def)
  next
    case False
    with nat_digits_digits [of "nat n"] that show ?thesis
      by (cases "nat_digits (nat n)") (auto simp: itoa_def)
  qed
  have "itoa n \<notin> set [''+Inf'', ''Inf'', ''-Inf'', ''NaN'']"
    using d by (auto simp: is_digit_def)
  then show ?thesis unfolding parseFloat_def Let_def t using Sscanf_f_itoa [OF assms] by (simp only: if_False)
qed

definition expected_sample :: "string \<Rightarrow> int \<Rightarrow> string \<Rightarrow> (string \<times> string) list \<Rightarrow> int \<Rightarrow> MetricSample" where
  "expected_sample nodeID ts name labels n =
     \<lparr>NodeID = nodeID, CollectedAt = ts, Context = prometheusNameToContext name,
      Chart = lookup_or labels ''chart'' [], Family = lookup_or labels ''family'' [],
      Instance = lookup_or labels ''instance'' [],
      Dimension = (if lookup_or labels ''dimension'' [] = [] then name else lookup_or labels ''dimension'' []),
      Unit = lookup_or labels ''units'' [], SValue = of_int64 n, SLabels = Some labels\<rparr>"

definition plain_labels :: "(string \<times> string) list \<Rightarrow> bool" where
  "plain_labels labels \<longleftrightarrow> distinct (map fst labels) \<and> list_all (\<lambda>p. plain_key (fst p) \<and> plain_value (snd p)) labels"

lemma joined_pairs:
  assumes "plain_labels labels"
  shows "is_ascii (Join (map render_pair labels) '','') \<and> CHR ''}'' \<notin> set (Join (map render_pair labels) '','')"
  using assms
proof (induction labels)
  case (Cons p ps)
  have "plain_key (fst p)" "plain_value (snd p)" "plain_labels ps"
    using Cons.prems by (auto simp: plain_labels_def)
  then have "\<forall>c \<in> set (fst p) \<union> set (snd p). byte c < 128 \<and> c \<noteq> CHR ''}''"
    unfolding plain_key_def plain_value_def list_all_iff is_graph_def by fastforce
  then have "is_ascii (render_pair p) \<and> CHR ''}'' \<notin> set (render_pair p)"
    by (auto simp: render_pair_def is_ascii_def Q_def)
  with Cons.IH [OF \<open>plain_labels ps\<close>] show ?case
    by (cases "ps = []") (auto simp: Join_Cons is_ascii_def)
qed (simp add: is_ascii_def)

lemma split_line_render:
  assumes "CHR ''{'' \<notin> set name" and "CHR ''}'' \<notin> set name" and "plain_labels labels"
  shows "split_line (render_line name labels n) s = Some (name, fold set_label labels s, itoa n)"
proof -
  let ?j = "Join (map render_pair labels) '',''"
  have l: "render_line name labels n = name @ CHR ''{'' # ?j @ CHR ''}'' # CHR '' '' # itoa n"
    by (simp add: render_line_def)
  have l': "render_line name labels n = (name @ CHR ''{'' # ?j) @ CHR ''}'' # CHR '' '' # itoa n"
    by (simp add: render_line_def)
  note j = joined_pairs [OF assms(3)]
  have i1: "IndexByte (render_line name labels n) (CHR ''{'') = int (length name)"
    unfolding l by (rule IndexByte_append [OF assms(1)])
  have i2: "IndexByte (render_line name labels n) (CHR ''}'') = int (length (name @ CHR ''{'' # ?j))"
    unfolding l' by (rule IndexByte_append) (use assms(2) j in auto)
  have t1: "take (length name) (render_line name labels n) = name" unfolding l by simp
  have t2: "drop (length name + 1) (take (length (name @ CHR ''{'' # ?j)) (render_line name labels n)) = ?j"
    unfolding l' by simp
  have t3: "drop (length (name @ CHR ''{'' # ?j) + 1) (render_line name labels n) = CHR '' '' # itoa n"
    unfolding l' by simp
  have v: "TrimSpace (CHR '' '' # itoa n) = itoa n"
    unfolding TrimSpace_blank using itoa_graph [of n] by (intro TrimSpace_graph) auto
  have p: "splitLabels ?j = map render_pair labels"
  proof -
    have "\<forall>p \<in> set labels. plain_key (fst p) \<and> plain_value (snd p)"
      using assms(3) by (auto simp: plain_labels_def list_all_iff)
    from split_pairs [OF this, of "[]"] j show ?thesis by (simp add: splitLabels_ascii split_init_def)
  qed
  have f: "fold read_pair (map render_pair labels) s = fold set_label labels s"
  proof -
    have "fold read_pair (map render_pair ps) s = fold set_label ps s" if "set ps \<subseteq> set labels" for ps s
      using that assms(3) by (induction ps arbitrary: s) (auto simp: read_pair_render plain_labels_def list_all_iff)
    then show ?thesis by simp
  qed
  show ?thesis
    unfolding split_line_def Let_def i1 i2 nat_int t1 t2 t3 v p f by simp
qed

lemma parse_rendered_line:
  assumes "CHR ''{'' \<notin> set name" and "CHR ''}'' \<notin> set name" and "plain_labels labels" and "in64 n"
  shows "parsePrometheusLine (render_line name labels n) nodeID ts
    = Some (expected_sample nodeID ts name labels n)"
proof -
  let ?s = "(empty_sample nodeID ts)\<lparr>SLabels := Some []\<rparr>"
  have d: "distinct (map fst labels)" using assms(3) by (simp add: plain_labels_def)
  note l = split_line_render [OF assms(1-3), of n ?s]
  have f: "fold set_label labels ?s = ?s\<lparr>SLabels := Some labels, Chart := lookup_or labels ''chart'' [],
      Family := lookup_or labels ''family'' [], Dimension := lookup_or labels ''dimension'' [],
      Instance := lookup_or labels ''instance'' [], Unit := lookup_or labels ''units'' []\<rparr>"
    using fold_set_label [OF d, of ?s "[]"] by (simp add: empty_sample_def)
  show ?thesis
    unfolding parsePrometheusLine_def l option.case prod.case f parseFloat_itoa [OF assms(4)]
    by (simp add: Let_def expected_sample_def empty_sample_def)
qed

text \<open>C19. What an exporter prints is what the collector reads: a line with a metric name, labels with
  distinct names whose values hold no quote, backslash or closing brace, and a 64-bit integer
  gives the sample with exactly these labels, its columns filled from them, and the number as
  its value.\<close>

theorem exposition_line_roundtrip:
  assumes "CHR ''{'' \<notin> set name" and "CHR ''}'' \<notin> set name" and "plain_labels labels" and "in64 n"
  shows "parsePrometheusLine (render_line name labels n) nodeID ts
    = Some (expected_sample nodeID ts name labels n)"
  by (rule parse_rendered_line [OF assms])

theorem exposition_line_roundtrip_witness:
  "parsePrometheusLine (render_line ''netdata_disk_io_bytes_total'' [(''chart'', ''disk.sda''), (''dimension'', ''rd, wr'')] (-5))
      ''n1'' 7
    = Some (expected_sample ''n1'' 7 ''netdata_disk_io_bytes_total'' [(''chart'', ''disk.sda''), (''dimension'', ''rd, wr'')] (-5))"
  by (rule exposition_line_roundtrip)
    (simp_all add: plain_labels_def plain_key_def plain_value_def is_graph_def Q_def in64_def)

lemma Split_append: "Split (a @ sep # b) sep = Split a sep @ Split b sep"
  by (induction a) (auto split: list.splits)

lemma read_pair_keeps [simp]: "NodeID (read_pair p s) = NodeID s" "CollectedAt (read_pair p s) = CollectedAt s"
  by (simp_all add: read_pair_def Let_def)

lemma fold_read_pair_keeps: "NodeID (fold read_pair ps s) = NodeID s \<and> CollectedAt (fold read_pair ps s) = CollectedAt s"
  by (induction ps arbitrary: s) simp_all

lemma parsePrometheusLine_stamp:
  "parsePrometheusLine line nodeID ts = Some s \<Longrightarrow> NodeID s = nodeID \<and> CollectedAt s = ts"
  by (auto simp: parsePrometheusLine_def split_line_def Let_def empty_sample_def fold_read_pair_keeps
      split: option.splits if_splits list.splits)

text \<open>What the collector lets through: every sample comes from one line of the text, is stamped with
  the node and the time of the collection, and its context starts with a configured context,
  raw or in Netdata's spelling; and texts one after the other are read one after the other.\<close>

theorem exposition_text_sound:
  "(\<forall>s \<in> set (parsePrometheusResponse contexts nodeID body ts).
        NodeID s = nodeID \<and> CollectedAt s = ts
        \<and> (\<exists>c \<in> set contexts. HasPrefix (Context s) c
             \<or> HasPrefix (Context s) (''netdata_'' @ ReplaceByte c (CHR ''.'') (CHR ''_'')))
        \<and> (\<exists>line \<in> set (Split body (CHR 0x0A)). parsePrometheusLine (TrimSpace line) nodeID ts = Some s))
    \<and> parsePrometheusResponse contexts nodeID (body @ CHR 0x0A # body') ts
        = parsePrometheusResponse contexts nodeID body ts @ parsePrometheusResponse contexts nodeID body' ts"
proof (intro conjI ballI)
  fix s assume "s \<in> set (parsePrometheusResponse contexts nodeID body ts)"
  then obtain line where l: "line \<in> set (Split body (CHR 0x0A))" "s \<in> set (parse_one contexts nodeID ts line)"
    by (auto simp: parsePrometheusResponse_def)
  then have p: "parsePrometheusLine (TrimSpace line) nodeID ts = Some s"
    and e: "list_ex (HasPrefix (Context s)) (enabled_prefixes contexts)"
    by (auto simp: parse_one_def Let_def split: if_splits option.splits)
  from parsePrometheusLine_stamp [OF p] show "NodeID s = nodeID" "CollectedAt s = ts" by blast+
  from e show "\<exists>c \<in> set contexts. HasPrefix (Context s) c
      \<or> HasPrefix (Context s) (''netdata_'' @ ReplaceByte c (CHR ''.'') (CHR ''_''))"
    by (auto simp: enabled_prefixes_def list_ex_iff)
  from l(1) p show "\<exists>line \<in> set (Split body (CHR 0x0A)). parsePrometheusLine (TrimSpace line) nodeID ts = Some s"
    by blast
qed (simp add: parsePrometheusResponse_def Split_append)

theorem exposition_text_sound_witness:
  "parsePrometheusResponse [''system.cpu''] ''n1''
      (''# HELP'' @ CHR 0x0A # render_line ''netdata_system_cpu_total'' [(''dimension'', ''user'')] 3) 7
    = parsePrometheusResponse [''system.cpu''] ''n1'' ''# HELP'' 7
      @ parsePrometheusResponse [''system.cpu''] ''n1'' (render_line ''netdata_system_cpu_total'' [(''dimension'', ''user'')] 3) 7"
  using exposition_text_sound [of "[''system.cpu'']" "''n1''" "''# HELP''" 7
      "render_line ''netdata_system_cpu_total'' [(''dimension'', ''user'')] 3"] by blast

section \<open>Where the reader differs from the format\<close>

text \<open>A closing brace inside a quoted label value ends the labels too early, and the line is lost.\<close>

lemma brace_in_value_loses_line:
  "parsePrometheusLine (''http{path='' @ [Q] @ ''/a}b'' @ [Q] @ ''} 1'') nodeID ts = None"
proof -
  have t: "TrimSpace (CHR ''b'' # Q # ''} 1'') = CHR ''b'' # Q # ''} 1''"
    by (rule TrimSpace_graph) (simp_all add: is_graph_def)
  have f: "floatToken (CHR ''b'' # r) = []" for r
    by (simp add: floatToken_def accept_def accept_many_def Let_def)
  have "ParseFloat [] = None" by code_simp
  then have v: "parseFloat (CHR ''b'' # Q # ''} 1'') = None"
    unfolding parseFloat_def Let_def t Sscanf_f_def f by simp
  show ?thesis
    by (simp add: parsePrometheusLine_def split_line_def Let_def Q_def t [unfolded Q_def] v [unfolded Q_def]
        del: fold_simps)
qed

text \<open>The spellings of infinity and of not-a-number are skipped only in the exposition format's own
  capitals.\<close>

lemma lower_case_nan_accepted: "parseFloat ''nan'' = Some NaN"
proof -
  have "TrimSpace ''nan'' = ''nan''" by (rule TrimSpace_graph) (simp_all add: is_graph_def)
  moreover have "Sscanf_f ''nan'' = Some NaN" by code_simp
  ultimately show ?thesis by (simp add: parseFloat_def Let_def)
qed

section \<open>The context of a line\<close>

text \<open>A line of the exposition format: a metric name, then labels in braces, or a space and no brace. What follows,
  the value and a time, is arbitrary.\<close>

definition name_char :: "char \<Rightarrow> bool" where
  "name_char c \<longleftrightarrow> is_graph c \<and> c \<noteq> CHR ''.'' \<and> c \<noteq> CHR ''{'' \<and> c \<noteq> CHR ''}''"

definition exposition_line :: "string \<Rightarrow> string \<Rightarrow> bool" where
  "exposition_line name line \<longleftrightarrow> name \<noteq> [] \<and> list_all name_char name
     \<and> (\<exists>rest. line = name @ CHR ''{'' # rest \<and> CHR ''}'' \<in> set rest
          \<or> line = name @ CHR '' '' # rest \<and> CHR ''{'' \<notin> set rest)"

lemma fields_from_word:
  "list_all is_graph u \<Longrightarrow> acc \<noteq> [] \<or> u \<noteq> [] \<Longrightarrow> fields_from acc (u @ CHR '' '' # r) = (rev acc @ u) # fields_from [] r"
proof (induction u arbitrary: acc)
  case Nil
  then show ?case by (simp add: fields_from.simps [of acc] front_space_blank)
next
  case (Cons c u)
  then show ?case by (simp add: fields_from.simps [of acc] front_space_graph)
qed

lemma exposition_name:
  assumes "exposition_line name line" and "split_line line e = Some (n, s, v)"
  shows "n = name"
proof -
  have g: "list_all is_graph name" "name \<noteq> []" "CHR ''{'' \<notin> set name" "CHR ''}'' \<notin> set name"
    using assms(1) by (auto simp: exposition_line_def name_char_def list_all_iff)
  from assms(1) consider (labels) rest where "line = name @ CHR ''{'' # rest" "CHR ''}'' \<in> set rest"
    | (plain) rest where "line = name @ CHR '' '' # rest" "CHR ''{'' \<notin> set rest"
    unfolding exposition_line_def by blast
  then show ?thesis
  proof cases
    case labels
    obtain r1 r2 where "rest = r1 @ CHR ''}'' # r2" "CHR ''}'' \<notin> set r1" using split_list_first [OF labels(2)] by blast
    then have l: "line = (name @ CHR ''{'' # r1) @ CHR ''}'' # r2" and n: "CHR ''}'' \<notin> set (name @ CHR ''{'' # r1)"
      using labels(1) g(4) by simp_all
    have "IndexByte line (CHR ''}'') = int (length (name @ CHR ''{'' # r1))" unfolding l by (rule IndexByte_append [OF n])
    moreover have "IndexByte line (CHR ''{'') = int (length name)" using labels(1) IndexByte_append [OF g(3)] by simp
    ultimately show ?thesis using assms(2) labels(1) by (simp add: split_line_def Let_def)
  next
    case plain
    then have "IndexByte line (CHR ''{'') < 0" using g(3) by (simp add: IndexByte_neg_iff)
    moreover have "Fields line = name # fields_from [] rest"
      using fields_from_word [OF g(1), of "[]" rest] g(2) plain(1) by (simp add: Fields_def)
    ultimately show ?thesis using assms(2) by (auto simp: split_line_def Let_def split: list.splits)
  qed
qed

lemma exposition_context:
  assumes "exposition_line name line" and "parsePrometheusLine line nodeID ts = Some s"
  shows "Context s = prometheusNameToContext name"
proof -
  obtain n e v where l: "split_line line ((empty_sample nodeID ts)\<lparr>SLabels := Some []\<rparr>) = Some (n, e, v)"
    using assms(2) by (auto simp: parsePrometheusLine_def split: option.splits)
  with assms(2) exposition_name [OF assms(1) l] show ?thesis
    by (auto simp: parsePrometheusLine_def Let_def)
qed

end
