(* ===== verification/Collector.thy ===== *)
theory Collector
  imports PromText
begin

text \<open>
  The rest of \<open>internal/collector/collector.go\<close>: the HTTP requests, the JSON strategies, the
  fallback to the exposition text and the resolution of the node id. The network is the
  parameter \<open>transport\<close>; reading JSON text into a tree is the parameter \<open>parse\<close>, what
  \<open>encoding/json\<close> does with the tree is modelled.
\<close>

section \<open>JSON trees and their decoding\<close>

datatype json =
    JNull | JBool bool | JNum f64 | JStr string
  | JArr "json list" | JObj "(string \<times> json) list"

text \<open>Field names are matched up to case, also for the two non-ASCII runes whose case folds to an
  ASCII letter.\<close>

fun fold_special :: "string \<Rightarrow> string" where
  "fold_special (a # b # c # s) =
     (if byte a = 0xE2 \<and> byte b = 0x84 \<and> byte c = 0xAA then CHR ''k'' # fold_special s
      else if byte a = 0xC5 \<and> byte b = 0xBF then CHR ''s'' # fold_special (c # s)
      else a # fold_special (b # c # s))"
| "fold_special [a, b] = (if byte a = 0xC5 \<and> byte b = 0xBF then ''s'' else [a, b])"
| "fold_special s = s"

definition field_named :: "string \<Rightarrow> string \<Rightarrow> bool" where
  "field_named name key \<longleftrightarrow> key = name \<or> eq_fold_ascii (fold_special key) name"

text \<open>A tree without a number out of range: decoding such a number is an error.\<close>

fun numbers_ok :: "json \<Rightarrow> bool" where
  "numbers_ok (JNum x) = is_finite x"
| "numbers_ok (JArr xs) = list_all numbers_ok xs"
| "numbers_ok (JObj fs) = list_all (\<lambda>f. numbers_ok (snd f)) fs"
| "numbers_ok _ = True"

text \<open>Decoding into \<open>string\<close>, \<open>[]interface{}\<close>, \<open>[]string\<close>, \<open>[][]interface{}\<close> and
  \<open>map[string]string\<close>: \<open>None\<close> is a type error. Decoding \<open>null\<close> gives nil, and leaves a string as it is;
  an object is decoded into the map that is there already, key by key.\<close>

definition as_string :: "json \<Rightarrow> string option" where
  "as_string j = (case j of JStr s \<Rightarrow> Some s | JNull \<Rightarrow> Some [] | _ \<Rightarrow> None)"

definition as_array :: "json \<Rightarrow> json list option" where
  "as_array j = (case j of JArr xs \<Rightarrow> if numbers_ok j then Some xs else None | JNull \<Rightarrow> Some [] | _ \<Rightarrow> None)"

fun all_some :: "'a option list \<Rightarrow> 'a list option" where
  "all_some [] = Some []"
| "all_some (None # xs) = None"
| "all_some (Some x # xs) = map_option ((#) x) (all_some xs)"

definition as_list :: "(json \<Rightarrow> 'a option) \<Rightarrow> json \<Rightarrow> 'a list option" where
  "as_list f j = (case j of JArr xs \<Rightarrow> all_some (map f xs) | JNull \<Rightarrow> Some [] | _ \<Rightarrow> None)"

definition as_map :: "(json \<Rightarrow> 'a option) \<Rightarrow> json \<Rightarrow> (string \<times> 'a) list option \<Rightarrow> (string \<times> 'a) list option option" where
  "as_map f j old = (case j of
      JObj fs \<Rightarrow> map_option (\<lambda>kvs. Some (fold (\<lambda>(k, v). map_set k v) kvs (case old of None \<Rightarrow> [] | Some m \<Rightarrow> m)))
        (all_some (map (\<lambda>(k, v). map_option (Pair k) (f v)) fs))
    | JNull \<Rightarrow> Some None | _ \<Rightarrow> None)"

text \<open>The fields of a struct that match a name, in the order of the text.\<close>

definition fields_named :: "string \<Rightarrow> (string \<times> json) list \<Rightarrow> json list" where
  "fields_named name fs = map snd (filter (\<lambda>f. field_named name (fst f)) fs)"

text \<open>Decoding into a string field that holds \<open>old\<close>.\<close>

definition into_string :: "json \<Rightarrow> string \<Rightarrow> string option" where
  "into_string j old = (if j = JNull then Some old else as_string j)"

text \<open>A field is decoded once per occurrence of its name, each time into what the last one has left.\<close>

definition struct_field :: "(json \<Rightarrow> 'a \<Rightarrow> 'a option) \<Rightarrow> 'a \<Rightarrow> string \<Rightarrow> (string \<times> json) list \<Rightarrow> 'a option" where
  "struct_field f zero name fs = fold (\<lambda>j r. Option.bind r (f j)) (fields_named name fs) (Some zero)"

record group_entry =
  ge_Labels :: "(string \<times> string) list option"
  ge_Point :: "json list"

definition as_group_entry :: "json \<Rightarrow> group_entry option" where
  "as_group_entry j = (case j of
      JObj fs \<Rightarrow>
        (case (struct_field (as_map as_string) None ''labels'' fs, struct_field (\<lambda>j _. as_array j) [] ''point'' fs) of
           (Some ls, Some p) \<Rightarrow> Some \<lparr>ge_Labels = ls, ge_Point = p\<rparr>
         | _ \<Rightarrow> None)
    | JNull \<Rightarrow> Some \<lparr>ge_Labels = None, ge_Point = []\<rparr>
    | _ \<Rightarrow> None)"

definition as_grouped :: "json \<Rightarrow> (string \<times> group_entry) list option" where
  "as_grouped j = (case j of
      JObj fs \<Rightarrow> map_option (\<lambda>m. case m of None \<Rightarrow> [] | Some kvs \<Rightarrow> kvs)
        (struct_field (as_map as_group_entry) None ''result'' fs)
    | JNull \<Rightarrow> Some []
    | _ \<Rightarrow> None)"

definition as_flat :: "json \<Rightarrow> (string list \<times> json list list) option" where
  "as_flat j = (case j of
      JObj fs \<Rightarrow>
        (case (struct_field (\<lambda>j _. as_list as_string j) [] ''labels'' fs, struct_field (\<lambda>j _. as_list as_array j) [] ''data'' fs) of
           (Some ls, Some d) \<Rightarrow> Some (ls, d)
         | _ \<Rightarrow> None)
    | JNull \<Rightarrow> Some ([], [])
    | _ \<Rightarrow> None)"

definition as_object :: "json \<Rightarrow> (string \<times> json) list option" where
  "as_object j = (case j of JObj fs \<Rightarrow> if numbers_ok j then Some fs else None | JNull \<Rightarrow> Some [] | _ \<Rightarrow> None)"

text \<open>\<open>obj[key].(string)\<close> and \<open>toFloat64\<close> of a decoded value; a missing key is \<open>nil\<close>.\<close>

definition obj_get :: "(string \<times> json) list \<Rightarrow> string \<Rightarrow> json" where
  "obj_get obj key = (case map_of (rev obj) key of None \<Rightarrow> JNull | Some v \<Rightarrow> v)"

definition toFloat64 :: "json \<Rightarrow> f64 option" where
  "toFloat64 v = (case v of JNum n \<Rightarrow> Some n | _ \<Rightarrow> None)"

section \<open>The JSON strategies\<close>

definition grouped_sample :: "string \<Rightarrow> int \<Rightarrow> string \<times> group_entry \<Rightarrow> MetricSample list" where
  "grouped_sample nodeID collectedAt ke =
     (let (key, entry) = ke in
      case ge_Point entry of
        [] \<Rightarrow> []
      | p # _ \<Rightarrow>
          (case toFloat64 p of
             None \<Rightarrow> []
           | Some val \<Rightarrow>
               let parts = SplitN key (CHR '','') 4;
                   part = (\<lambda>i. if i < length parts then TrimSpace (parts ! i) else []);
                   s = (empty_sample nodeID collectedAt)\<lparr>SValue := val, SLabels := ge_Labels entry,
                         Context := part 0, Dimension := part 1, Instance := part 3\<rparr>
               in if Context s \<noteq> [] \<and> Dimension s \<noteq> [] then [s] else []))"

text \<open>One row of the flat form: column 0 is a time in seconds, when it is a positive number.\<close>

definition flat_row :: "(f64 \<Rightarrow> int) \<Rightarrow> string \<Rightarrow> int \<Rightarrow> string list \<Rightarrow> json list \<Rightarrow> MetricSample list" where
  "flat_row impl nodeID collectedAt labels row =
     (if length row < 2 then []
      else
        let ts = (case toFloat64 (hd row) of
              Some t \<Rightarrow> if flt (Fin 0) t then f2i impl t * 1000000000 else collectedAt
            | None \<Rightarrow> collectedAt)
        in concat (map (\<lambda>(l, v). case toFloat64 v of
               None \<Rightarrow> []
             | Some val \<Rightarrow> [(empty_sample nodeID ts)\<lparr>Context := ''unknown'', Dimension := l, SValue := val\<rparr>])
             (zip (tl labels) (tl row))))"

definition obj_string :: "(string \<times> json) list \<Rightarrow> string \<Rightarrow> string" where
  "obj_string obj key = (case obj_get obj key of JStr s \<Rightarrow> s | _ \<Rightarrow> [])"

definition object_sample :: "string \<Rightarrow> int \<Rightarrow> (string \<times> json) list \<Rightarrow> MetricSample list" where
  "object_sample nodeID collectedAt obj =
     (let s = (empty_sample nodeID collectedAt)\<lparr>Context := obj_string obj ''context'',
            Dimension := obj_string obj ''dimension'', Instance := obj_string obj ''instance'',
            Chart := obj_string obj ''chart'', Family := obj_string obj ''family'', Unit := obj_string obj ''unit'',
            SValue := (case toFloat64 (obj_get obj ''value'') of Some v \<Rightarrow> v | None \<Rightarrow> Fin 0)\<rparr>
      in if Context s \<noteq> [] \<and> Dimension s \<noteq> [] then [s] else [])"

text \<open>The three strategies; \<open>None\<close> where the reply has another shape. The grouped form ranges over a
  Go map: its samples are listed in the order of the text, one of the orders the loop may take.\<close>

definition grouped_samples :: "string \<Rightarrow> int \<Rightarrow> json \<Rightarrow> MetricSample list option" where
  "grouped_samples nodeID collectedAt j = (case as_grouped j of
      Some kes \<Rightarrow> if kes = [] then None else Some (concat (map (grouped_sample nodeID collectedAt) kes))
    | None \<Rightarrow> None)"

definition flat_samples :: "(f64 \<Rightarrow> int) \<Rightarrow> string \<Rightarrow> int \<Rightarrow> json \<Rightarrow> MetricSample list option" where
  "flat_samples impl nodeID collectedAt j = (case as_flat j of
      Some (labels, rows) \<Rightarrow>
        if rows = [] \<or> labels = [] then None
        else Some (concat (map (flat_row impl nodeID collectedAt labels) rows))
    | None \<Rightarrow> None)"

definition object_samples :: "string \<Rightarrow> int \<Rightarrow> json \<Rightarrow> MetricSample list option" where
  "object_samples nodeID collectedAt j = (case as_list as_object j of
      Some objs \<Rightarrow> if objs = [] then None else Some (concat (map (object_sample nodeID collectedAt) objs))
    | None \<Rightarrow> None)"

definition parseJSONResponse :: "(string \<Rightarrow> json option) \<Rightarrow> (f64 \<Rightarrow> int) \<Rightarrow> string \<Rightarrow> string \<Rightarrow> int
    \<Rightarrow> string + MetricSample list" where
  "parseJSONResponse parse impl nodeID body collectedAt =
     (let failed = Inl (''could not parse JSON response (body length: '' @ itoa (int (length body)) @ '')'') in
      case parse body of
        None \<Rightarrow> failed
      | Some j \<Rightarrow>
          (case grouped_samples nodeID collectedAt j of
             Some samples \<Rightarrow> Inr samples
           | None \<Rightarrow>
               (case flat_samples impl nodeID collectedAt j of
                  Some samples \<Rightarrow> Inr samples
                | None \<Rightarrow>
                    (case object_samples nodeID collectedAt j of
                       Some samples \<Rightarrow> Inr samples
                     | None \<Rightarrow> failed))))"

section \<open>Requests\<close>

record collector =
  c_baseURL :: string
  c_apiKey :: string
  c_nodeID :: string
  c_contexts :: "string list"
  c_interval :: int

definition newCollector :: "string \<Rightarrow> string \<Rightarrow> string \<Rightarrow> string list \<Rightarrow> int \<Rightarrow> collector" where
  "newCollector baseURL apiKey nodeID contexts intervalSec =
     \<lparr>c_baseURL = TrimRightByte baseURL (CHR ''/''), c_apiKey = apiKey, c_nodeID = nodeID,
      c_contexts = contexts, c_interval = intervalSec\<rparr>"

record http_request =
  hr_url :: string
  hr_authorization :: "string option"

text \<open>What comes back: a transport error, or a status, the body read, and the error reading it.\<close>

record http_response =
  hs_status :: int
  hs_body :: string
  hs_read_error :: "string option"

type_synonym transport = "http_request \<Rightarrow> string + http_response"

definition setAuth :: "collector \<Rightarrow> http_request \<Rightarrow> http_request" where
  "setAuth c req = (if c_apiKey c \<noteq> [] then req\<lparr>hr_authorization := Some (''Bearer '' @ c_apiKey c)\<rparr> else req)"

definition doGet :: "transport \<Rightarrow> collector \<Rightarrow> string \<Rightarrow> string + string" where
  "doGet transport c rawURL =
     (case transport (setAuth c \<lparr>hr_url = rawURL, hr_authorization = None\<rparr>) of
        Inl e \<Rightarrow> Inl e
      | Inr resp \<Rightarrow>
          if hs_status resp \<noteq> 200 then
            Inl (''HTTP '' @ itoa (hs_status resp) @ '': '' @ take 512 (hs_body resp))
          else (case hs_read_error resp of
              Some e \<Rightarrow> Inl e
            | None \<Rightarrow> Inr (take (50 * 1024 * 1024) (hs_body resp))))"

text \<open>\<open>url.QueryEscape\<close>.\<close>

definition hex_upper :: "nat \<Rightarrow> char" where
  "hex_upper n = (if n < 10 then chr (48 + n) else chr (55 + n))"

definition query_escape_char :: "char \<Rightarrow> string" where
  "query_escape_char c =
     (if is_digit c \<or> 97 \<le> byte (ascii_lower c) \<and> byte (ascii_lower c) \<le> 122 \<or> c \<in> set ''-_.~'' then [c]
      else if c = CHR '' '' then ''+''
      else [CHR ''%'', hex_upper (byte c div 16), hex_upper (byte c mod 16)])"

definition QueryEscape :: "string \<Rightarrow> string" where
  "QueryEscape s = concat (map query_escape_char s)"

definition collectJSON :: "(string \<Rightarrow> json option) \<Rightarrow> (f64 \<Rightarrow> int) \<Rightarrow> transport \<Rightarrow> collector \<Rightarrow> int
    \<Rightarrow> string + MetricSample list" where
  "collectJSON parse impl transport c now =
     (let u = c_baseURL c @ ''/api/v3/data?contexts='' @ QueryEscape (Join (c_contexts c) '','')
            @ ''&after=-'' @ itoa (c_interval c)
            @ ''&points=1&time_group=avg&group_by=dimension,node,instance&format=json''
      in case doGet transport c u of
           Inl e \<Rightarrow> Inl (''querying JSON API: '' @ e)
         | Inr body \<Rightarrow> parseJSONResponse parse impl (c_nodeID c) body now)"

definition collectPrometheus :: "transport \<Rightarrow> collector \<Rightarrow> int \<Rightarrow> string + MetricSample list" where
  "collectPrometheus transport c now =
     (case doGet transport c (c_baseURL c @ ''/api/v3/allmetrics?format=prometheus&source=average'') of
        Inl e \<Rightarrow> Inl (''querying Prometheus API: '' @ e)
      | Inr body \<Rightarrow> Inr (parsePrometheusResponse (c_contexts c) (c_nodeID c) body now))"

text \<open>The two clock readings are taken after the respective replies.\<close>

definition Collect :: "(string \<Rightarrow> json option) \<Rightarrow> (f64 \<Rightarrow> int) \<Rightarrow> transport \<Rightarrow> collector \<Rightarrow> int \<Rightarrow> int
    \<Rightarrow> string + MetricSample list" where
  "Collect parse impl transport c now1 now2 =
     (case collectJSON parse impl transport c now1 of
        Inl e \<Rightarrow> collectPrometheus transport c now2
      | Inr [] \<Rightarrow> collectPrometheus transport c now2
      | Inr samples \<Rightarrow> Inr samples)"

section \<open>The node id\<close>

definition info_fields :: "json \<Rightarrow> (string \<times> string) option" where
  "info_fields j = (case j of
      JObj fs \<Rightarrow> (case (struct_field into_string [] ''hostname'' fs, struct_field into_string [] ''uid'' fs) of
          (Some h, Some u) \<Rightarrow> Some (h, u) | _ \<Rightarrow> None)
    | JNull \<Rightarrow> Some ([], [])
    | _ \<Rightarrow> None)"

definition info_id :: "(string \<Rightarrow> json option) \<Rightarrow> transport \<Rightarrow> collector \<Rightarrow> string" where
  "info_id parse transport c =
     (case transport (setAuth c \<lparr>hr_url = c_baseURL c @ ''/api/v1/info'', hr_authorization = None\<rparr>) of
        Inl e \<Rightarrow> []
      | Inr resp \<Rightarrow>
          if hs_status resp \<noteq> 200 then []
          else (case parse (hs_body resp) of
              None \<Rightarrow> []
            | Some j \<Rightarrow>
                (case info_fields j of
                   None \<Rightarrow> []
                 | Some (h, u) \<Rightarrow> if u \<noteq> [] then u else h)))"

definition ResolveNodeID :: "(string \<Rightarrow> json option) \<Rightarrow> transport \<Rightarrow> string + string \<Rightarrow> collector
    \<Rightarrow> (string + string) \<times> collector" where
  "ResolveNodeID parse transport os_hostname c =
     (if c_nodeID c \<noteq> [] then (Inr (c_nodeID c), c)
      else
        let i = info_id parse transport c in
        if i \<noteq> [] then (Inr i, c\<lparr>c_nodeID := i\<rparr>)
        else (case os_hostname of
            Inl e \<Rightarrow> (Inl (''resolving node ID: '' @ e), c)
          | Inr h \<Rightarrow> (Inr h, c\<lparr>c_nodeID := h\<rparr>)))"

section \<open>What the JSON strategies return\<close>

lemma all_some_iff: "all_some xs = Some ys \<longleftrightarrow> xs = map Some ys"
proof (induction xs arbitrary: ys)
  case (Cons x xs)
  then show ?case by (cases x; cases ys) auto
qed auto

lemma map_set_set: "set (map_set k v m) \<subseteq> insert (k, v) (set m)"
  by (induction m) (auto split: if_splits)

lemma map_set_all: "set (fold (\<lambda>(k, v). map_set k v) ps m) \<subseteq> set ps \<union> set m"
proof (induction ps arbitrary: m)
  case (Cons p ps)
  with map_set_set [of "fst p" "snd p" m] show ?case
    by (cases p) (fastforce dest: subsetD [OF Cons.IH])
qed simp

lemma as_map_values:
  assumes "as_map f j old = Some (Some kvs)" and "(k, v) \<in> set kvs"
  shows "(\<exists>j'. f j' = Some v) \<or> (\<exists>m. old = Some m \<and> (k, v) \<in> set m)"
proof -
  from assms(1) obtain fs ps where ps: "map (\<lambda>(k, v). map_option (Pair k) (f v)) fs = map Some ps"
    and kvs: "kvs = fold (\<lambda>(k, v). map_set k v) ps (case old of None \<Rightarrow> [] | Some m \<Rightarrow> m)"
    by (auto simp: as_map_def all_some_iff split: json.splits)
  have "set kvs \<subseteq> set ps \<union> set (case old of None \<Rightarrow> [] | Some m \<Rightarrow> m)" unfolding kvs by (rule map_set_all)
  with assms(2) consider "(k, v) \<in> set ps" | m where "old = Some m" "(k, v) \<in> set m"
    by (cases old) auto
  then show ?thesis
  proof cases
    case 1
    then have "Some (k, v) \<in> set (map (\<lambda>(k, v). map_option (Pair k) (f v)) fs)" unfolding ps by simp
    then obtain a b where "map_option (Pair a) (f b) = Some (k, v)" by (auto simp: image_iff dest: sym)
    then show ?thesis by auto
  qed blast
qed

text \<open>What every occurrence of the field keeps, the field has.\<close>

lemma struct_field_inv:
  assumes "struct_field f zero name fs = Some v" and "P zero" and "\<And>j old v. P old \<Longrightarrow> f j old = Some v \<Longrightarrow> P v"
  shows "P v"
proof -
  have none: "fold (\<lambda>j r. Option.bind r (f j)) js None = None" for js by (induction js) simp_all
  have "P v" if "fold (\<lambda>j r. Option.bind r (f j)) js (Some a) = Some v" "P a" for js a
    using that
  proof (induction js arbitrary: a)
    case (Cons j js)
    then show ?case by (cases "f j a") (auto simp: none assms(3))
  qed simp
  with assms(1,2) show ?thesis by (simp add: struct_field_def)
qed

definition finite_numbers :: "json list \<Rightarrow> bool" where
  "finite_numbers js \<longleftrightarrow> (\<forall>j \<in> set js. \<forall>x. toFloat64 j = Some x \<longrightarrow> is_finite x)"

lemma as_array_finite: "as_array j = Some xs \<Longrightarrow> finite_numbers xs"
  by (auto simp: as_array_def finite_numbers_def toFloat64_def list_all_iff split: json.splits if_splits)

lemma as_group_entry_finite: "as_group_entry j = Some e \<Longrightarrow> finite_numbers (ge_Point e)"
proof -
  assume "as_group_entry j = Some e"
  then obtain ls p fs where "e = \<lparr>ge_Labels = ls, ge_Point = p\<rparr>"
    and "p = [] \<or> struct_field (\<lambda>j _. as_array j) [] ''point'' fs = Some p"
    by (auto simp: as_group_entry_def split: json.splits option.splits)
  moreover have nil: "finite_numbers []" by (simp add: finite_numbers_def)
  ultimately show ?thesis
    using struct_field_inv [of "\<lambda>j _. as_array j" "[]" "''point''" fs p finite_numbers] as_array_finite by auto
qed

lemma as_grouped_finite:
  assumes "as_grouped j = Some kvs" and "ke \<in> set kvs"
  shows "finite_numbers (ge_Point (snd ke))"
proof -
  let ?P = "\<lambda>m. \<forall>kvs. m = Some kvs \<longrightarrow> (\<forall>(k, v) \<in> set kvs. finite_numbers (ge_Point v))"
  obtain fs where f: "struct_field (as_map as_group_entry) None ''result'' fs = Some (Some kvs)"
    using assms by (auto simp: as_grouped_def split: json.splits option.splits)
  have "?P (Some kvs)"
  proof (rule struct_field_inv [OF f])
    fix j old v assume "?P old" and "as_map as_group_entry j old = Some v"
    then show "?P v" using as_map_values as_group_entry_finite by fastforce
  qed simp
  with assms(2) show ?thesis by fastforce
qed

lemma as_flat_finite:
  assumes "as_flat j = Some (ls, rows)" and "row \<in> set rows"
  shows "finite_numbers row"
proof -
  obtain fs where f: "struct_field (\<lambda>j _. as_list as_array j) [] ''data'' fs = Some rows"
    using assms by (auto simp: as_flat_def split: json.splits option.splits)
  have "\<forall>row \<in> set rows. finite_numbers row"
  proof (rule struct_field_inv [OF f])
    fix j' v assume "as_list as_array j' = Some v"
    then obtain js where "v = [] \<or> map as_array js = map Some v"
      by (auto simp: as_list_def all_some_iff split: json.splits)
    then have "\<forall>row \<in> set v. Some row \<in> as_array ` set js" by (metis empty_iff empty_set image_eqI list.set_map)
    then show "\<forall>row \<in> set v. finite_numbers row" by (auto dest: sym intro: as_array_finite)
  qed simp
  with assms(2) show ?thesis by blast
qed

lemma grouped_sample_ok:
  assumes "s \<in> set (grouped_sample nodeID ts ke)" and "finite_numbers (ge_Point (snd ke))"
  shows "NodeID s = nodeID \<and> Context s \<noteq> [] \<and> Dimension s \<noteq> [] \<and> is_finite (SValue s)"
proof -
  obtain key e where ke: "ke = (key, e)" by fastforce
  obtain p ps where p: "ge_Point e = p # ps"
    using assms(1) by (cases "ge_Point e") (auto simp: grouped_sample_def ke)
  obtain v where v: "toFloat64 p = Some v"
    using assms(1) by (cases "toFloat64 p") (auto simp: grouped_sample_def ke p)
  have "is_finite v" using assms(2) p v by (auto simp: finite_numbers_def ke)
  then show ?thesis
    using assms(1) by (auto simp: grouped_sample_def ke p v Let_def empty_sample_def split: if_splits)
qed

lemma in_set_tl: "x \<in> set (tl xs) \<Longrightarrow> x \<in> set xs"
  by (cases xs) auto

lemma flat_row_ok:
  assumes "s \<in> set (flat_row impl nodeID ts labels row)" and "finite_numbers row"
  shows "NodeID s = nodeID \<and> Context s = ''unknown'' \<and> Dimension s \<in> set (tl labels) \<and> is_finite (SValue s)"
proof -
  obtain t where "s \<in> set (concat (map (\<lambda>(l, v). case toFloat64 v of None \<Rightarrow> []
      | Some val \<Rightarrow> [(empty_sample nodeID t)\<lparr>Context := ''unknown'', Dimension := l, SValue := val\<rparr>])
      (zip (tl labels) (tl row))))"
    using assms(1) by (simp add: flat_row_def Let_def split: if_splits)
  then obtain l v where z: "(l, v) \<in> set (zip (tl labels) (tl row))"
    and m: "s \<in> set (case toFloat64 v of None \<Rightarrow> []
      | Some val \<Rightarrow> [(empty_sample nodeID t)\<lparr>Context := ''unknown'', Dimension := l, SValue := val\<rparr>])"
    by auto
  obtain x where x: "toFloat64 v = Some x" using m by (cases "toFloat64 v") auto
  with m have s: "s = (empty_sample nodeID t)\<lparr>Context := ''unknown'', Dimension := l, SValue := x\<rparr>" by simp
  have "v \<in> set row" "l \<in> set (tl labels)" using z by (auto dest: set_zip_leftD set_zip_rightD intro: in_set_tl)
  with assms(2) x s show ?thesis by (auto simp: finite_numbers_def empty_sample_def)
qed

lemma object_sample_ok:
  assumes "s \<in> set (object_sample nodeID ts obj)" and "numbers_ok (JObj obj)"
  shows "NodeID s = nodeID \<and> Context s \<noteq> [] \<and> Dimension s \<noteq> [] \<and> is_finite (SValue s)"
proof -
  have "is_finite x" if "toFloat64 (obj_get obj ''value'') = Some x" for x
  proof -
    from that have "map_of (rev obj) ''value'' = Some (JNum x)"
      by (auto simp: toFloat64_def obj_get_def split: json.splits option.splits)
    then have "(''value'', JNum x) \<in> set obj" using map_of_SomeD by fastforce
    with assms(2) show ?thesis by (auto simp: list_all_iff)
  qed
  with assms(1) show ?thesis
    by (auto simp: object_sample_def Let_def empty_sample_def split: if_splits option.splits)
qed

lemma as_object_numbers: "as_object j = Some obj \<Longrightarrow> numbers_ok (JObj obj)"
  by (auto simp: as_object_def split: json.splits if_splits)

lemma parseJSONResponse_samples:
  assumes "parseJSONResponse parse impl nodeID body ts = Inr ss" and "s \<in> set ss"
  shows "NodeID s = nodeID \<and> Context s \<noteq> [] \<and> is_finite (SValue s)
    \<and> (Dimension s \<noteq> []
      \<or> Context s = ''unknown'' \<and> (\<exists>j ls rows. parse body = Some j \<and> as_flat j = Some (ls, rows) \<and> Dimension s \<in> set (tl ls)))"
proof -
  from assms(1) obtain j where j: "parse body = Some j"
    and "grouped_samples nodeID ts j = Some ss \<or> flat_samples impl nodeID ts j = Some ss
      \<or> object_samples nodeID ts j = Some ss"
    by (auto simp: parseJSONResponse_def Let_def split: option.splits)
  then consider (grouped) kvs ke where "as_grouped j = Some kvs" "ke \<in> set kvs" "s \<in> set (grouped_sample nodeID ts ke)"
    | (flat) ls rows row where "as_flat j = Some (ls, rows)" "row \<in> set rows" "s \<in> set (flat_row impl nodeID ts ls row)"
    | (objects) objs obj where "as_list as_object j = Some objs" "obj \<in> set objs" "s \<in> set (object_sample nodeID ts obj)"
    using assms(2)
    by (auto simp: grouped_samples_def flat_samples_def object_samples_def split: option.splits if_splits)
  then show ?thesis
  proof cases
    case grouped
    from grouped_sample_ok [OF grouped(3) as_grouped_finite [OF grouped(1,2)]] show ?thesis by blast
  next
    case flat
    from flat_row_ok [OF flat(3) as_flat_finite [OF flat(1,2)]] j flat(1) show ?thesis by auto
  next
    case objects
    then obtain js where "map as_object js = map Some objs"
      by (auto simp: as_list_def all_some_iff split: json.splits)
    then have "Some obj \<in> as_object ` set js" using objects(2) by (metis image_eqI list.set_map)
    then obtain o' where "as_object o' = Some obj" by (auto dest: sym)
    then have "numbers_ok (JObj obj)" by (rule as_object_numbers)
    from object_sample_ok [OF objects(3) this] show ?thesis by blast
  qed
qed

text \<open>C33. What the JSON reply can put into the table: whichever of the three shapes the reply has, every
  sample carries the collector's node, a context that is not empty and a finite value; its dimension is not
  empty either, unless the reply has the flat shape, whose samples are those of the context
  \<open>unknown\<close> and take a column label of the reply as it is.\<close>

theorem parseJSONResponse_sound:
  assumes "parseJSONResponse parse impl nodeID body ts = Inr ss" and "s \<in> set ss"
  shows "NodeID s = nodeID \<and> Context s \<noteq> [] \<and> is_finite (SValue s)
    \<and> (Dimension s \<noteq> []
      \<or> Context s = ''unknown'' \<and> (\<exists>j ls rows. parse body = Some j \<and> as_flat j = Some (ls, rows) \<and> Dimension s \<in> set (tl ls)))"
  by (rule parseJSONResponse_samples [OF assms])

text \<open>The flat shape does not look at its labels: an empty one becomes an empty dimension.\<close>

lemma flat_empty_dimension:
  "parseJSONResponse (\<lambda>_. Some (JObj [(''labels'', JArr [JStr ''time'', JStr []]), (''data'', JArr [JArr [JNum (Fin 0), JNum (Fin 1)]])]))
     impl nodeID body ts = Inr [(empty_sample nodeID ts)\<lparr>Context := ''unknown'', SValue := Fin 1\<rparr>]"
proof -
  have "\<not> field_named ''result'' ''labels''" "\<not> field_named ''result'' ''data''" "field_named ''labels'' ''labels''"
    "\<not> field_named ''labels'' ''data''" "\<not> field_named ''data'' ''labels''" "field_named ''data'' ''data''" by code_simp+
  then show ?thesis
    by (simp add: parseJSONResponse_def grouped_samples_def as_grouped_def flat_samples_def as_flat_def flat_row_def as_list_def
        as_array_def as_string_def struct_field_def fields_named_def toFloat64_def empty_sample_def Let_def)
qed

text \<open>The composite keys of the grouped shape are cut at their first three commas: the context, the
  dimension and the instance of the sample are the trimmed parts, whatever commas the instance
  holds, and the node part is not used.\<close>

theorem grouped_key_parts:
  assumes "CHR '','' \<notin> set c" and "CHR '','' \<notin> set d" and "CHR '','' \<notin> set n"
    and "TrimSpace c \<noteq> []" and "TrimSpace d \<noteq> []"
  shows "grouped_sample nodeID ts (c @ '','' @ d @ '','' @ n @ '','' @ i, \<lparr>ge_Labels = ls, ge_Point = JNum v # js\<rparr>)
    = [(empty_sample nodeID ts)\<lparr>SValue := v, SLabels := ls, Context := TrimSpace c, Dimension := TrimSpace d,
        Instance := TrimSpace i\<rparr>]"
proof -
  have cut: "SplitN (a @ CHR '','' # r) (CHR '','') (Suc (Suc k)) = a # SplitN r (CHR '','') (Suc k)"
    if "CHR '','' \<notin> set a" for a r k
    using IndexByte_append [OF that, of r] by (simp add: Let_def nat_add_distrib)
  have "SplitN (c @ '','' @ d @ '','' @ n @ '','' @ i) (CHR '','') 4 = [c, d, n, i]"
    using assms(1-3) by (simp add: numeral_eq_Suc cut del: SplitN.simps(3))
  with assms(4,5) show ?thesis
    by (simp add: grouped_sample_def toFloat64_def Let_def numeral_eq_Suc)
qed

theorem parseJSONResponse_sound_witness:
  "let ss = [(empty_sample ''n1'' 9)\<lparr>Context := ''system.cpu'', Dimension := ''user'', SValue := Fin 2\<rparr>];
       j = JArr [JObj [(''context'', JStr ''system.cpu''), (''dimension'', JStr ''user''), (''value'', JNum (Fin 2))]]
   in parseJSONResponse (\<lambda>_. Some j) (\<lambda>_. 0) ''n1'' [] 9 = Inr ss
     \<and> (\<forall>s \<in> set ss. NodeID s = ''n1'' \<and> is_finite (SValue s))"
proof -
  let ?s = "(empty_sample ''n1'' 9)\<lparr>Context := ''system.cpu'', Dimension := ''user'', SValue := Fin 2\<rparr>"
  let ?j = "JArr [JObj [(''context'', JStr ''system.cpu''), (''dimension'', JStr ''user''), (''value'', JNum (Fin 2))]]"
  have r: "parseJSONResponse (\<lambda>_. Some ?j) (\<lambda>_. 0) ''n1'' [] 9 = Inr [?s]"
    by (simp add: parseJSONResponse_def grouped_samples_def as_grouped_def flat_samples_def as_flat_def
        object_samples_def as_list_def as_object_def object_sample_def obj_string_def obj_get_def
        toFloat64_def empty_sample_def Let_def)
  from parseJSONResponse_sound [OF r, of ?s] r show ?thesis unfolding Let_def by simp
qed

theorem grouped_key_parts_witness:
  "grouped_sample ''n1'' 9 (''disk.io'' @ '','' @ ''reads'' @ '','' @ ''node'' @ '','' @ ''sda,1'',
      \<lparr>ge_Labels = None, ge_Point = [JNum (Fin 2)]\<rparr>)
    = [(empty_sample ''n1'' 9)\<lparr>SValue := Fin 2, SLabels := None, Context := TrimSpace ''disk.io'',
        Dimension := TrimSpace ''reads'', Instance := TrimSpace ''sda,1''\<rparr>]"
  by (rule grouped_key_parts) (simp_all add: TrimSpace_graph is_graph_def)

text \<open>A node id, once resolved, is kept: later calls do not ask again.\<close>

lemma ResolveNodeID_cached:
  "ResolveNodeID parse transport os c = (Inr i, c') \<Longrightarrow> i \<noteq> []
    \<Longrightarrow> ResolveNodeID parse' transport' os' c' = (Inr i, c')"
  by (auto simp: ResolveNodeID_def Let_def split: if_splits sum.splits)

text \<open>Whatever strategy answers, the samples carry the collector's node.\<close>

lemma parsePrometheusResponse_node: "s \<in> set (parsePrometheusResponse contexts nodeID body ts) \<Longrightarrow> NodeID s = nodeID"
  by (auto simp: parsePrometheusResponse_def parse_one_def Let_def split: if_splits option.splits)
    (metis parsePrometheusLine_stamp)

lemma Collect_node:
  assumes "Collect parse impl transport c now1 now2 = Inr ss" and "s \<in> set ss"
  shows "NodeID s = c_nodeID c"
proof -
  have "collectPrometheus transport c now2 = Inr ss \<or> collectJSON parse impl transport c now1 = Inr ss"
    using assms(1) by (auto simp: Collect_def split: sum.splits list.splits)
  then show ?thesis
    using assms(2) parseJSONResponse_samples parsePrometheusResponse_node
    by (fastforce simp: collectPrometheus_def collectJSON_def Let_def split: sum.splits)
qed

lemma ResolveNodeID_node: "ResolveNodeID parse transport os c = (Inr i, c') \<Longrightarrow> c_nodeID c' = i"
  by (auto simp: ResolveNodeID_def Let_def split: if_splits sum.splits)

end
