(* ===== verification/Scheduler.thy ===== *)
theory Scheduler
  imports Breaker PgStore SelfMetrics Collector
begin

text \<open>
  \<open>internal/scheduler/scheduler.go\<close>: the collection cycle with its retries behind the circuit
  breaker, the retention clean-up, and the loop that runs both. What a cycle meets outside
  (replies, cancellation, clock) is the record \<open>cycle_env\<close>.
\<close>

section \<open>State\<close>

record scheduler =
  s_interval :: int
  s_nodeID :: string
  s_hostname :: string
  s_baseURL :: string
  s_retentionDays :: int

text \<open>The scheduler with what its cycles change: the pool, the process counters, the breaker, and the
  retention period the clean-up goroutine was started with.\<close>

record 'db world =
  w_sched :: scheduler
  w_breaker :: breaker
  w_db :: 'db
  w_metrics :: Metrics
  w_retention :: "int option"

definition newScheduler :: "int \<Rightarrow> string \<Rightarrow> string \<Rightarrow> string \<Rightarrow> scheduler" where
  "newScheduler intervalSec nodeID hostname baseURL =
     \<lparr>s_interval = wrap64 (intervalSec * 1000000000), s_nodeID = nodeID, s_hostname = hostname,
      s_baseURL = baseURL, s_retentionDays = 30\<rparr>"

definition scheduler_breaker :: breaker where
  "scheduler_breaker = newBreaker 5 (60 * 1000000000)"

definition SetRetentionDays :: "int \<Rightarrow> 'db world \<Rightarrow> 'db world" where
  "SetRetentionDays days w = w\<lparr>w_sched := (w_sched w)\<lparr>s_retentionDays := days\<rparr>\<rparr>"

section \<open>One collection cycle\<close>

text \<open>
  What a cycle meets: the clock readings in the order the code makes them, the result of each
  collection attempt, and whether the context is done before the wait after an attempt ends.
\<close>

record cycle_env =
  e_allow :: int
  e_state :: int
  e_start :: int
  e_collect :: "nat \<Rightarrow> string + MetricSample list"
  e_cancelled :: "nat \<Rightarrow> string option"
  e_record1 :: int
  e_record2 :: int
  e_end :: int

text \<open>The retry loop: cancelled with the context's error, or done with the samples and \<open>lastErr\<close>.\<close>

datatype retry_result = Cancelled string | Collected "MetricSample list" "string option"

fun retry_loop :: "cycle_env \<Rightarrow> string option \<Rightarrow> nat list \<Rightarrow> retry_result" where
  "retry_loop env lastErr [] = Collected [] lastErr"
| "retry_loop env lastErr (attempt # rest) =
     (case e_collect env attempt of
        Inr samples \<Rightarrow> Collected samples lastErr
      | Inl err \<Rightarrow>
          if attempt < 3 then
            (case e_cancelled env attempt of
               Some e \<Rightarrow> Cancelled e
             | None \<Rightarrow> retry_loop env (Some err) rest)
          else retry_loop env (Some err) rest)"

definition upd_metrics :: "(Metrics \<Rightarrow> Metrics) \<Rightarrow> 'db world \<Rightarrow> 'db world" where
  "upd_metrics f w = w\<lparr>w_metrics := f (w_metrics w)\<rparr>"

definition fail_cycle :: "cycle_env \<Rightarrow> 'db world \<Rightarrow> 'db world" where
  "fail_cycle env w = w\<lparr>w_breaker := RecordFailure (e_record1 env) (e_record2 env) (w_breaker w)\<rparr>"

text \<open>The end of a cycle: what happens with the samples and \<open>lastErr\<close> of the retry loop.\<close>

definition finish_cycle :: "('db, 'tx) pg \<Rightarrow> cycle_env \<Rightarrow> MetricSample list \<Rightarrow> string option \<Rightarrow> 'db world
    \<Rightarrow> string option \<times> 'db world" where
  "finish_cycle pg env samples lastErr w =
     (if lastErr \<noteq> None \<and> samples = [] then
        (lastErr, fail_cycle env (upd_metrics (\<lambda>m. m\<lparr>CollectionErrors := add64 1 (CollectionErrors m)\<rparr>) w))
      else if samples = [] then (None, w)
      else case InsertSamples pg (w_db w) samples of
          ((inserted, Some err), db) \<Rightarrow> (Some err, fail_cycle env (w\<lparr>w_db := db\<rparr>))
        | ((inserted, None), db) \<Rightarrow>
            let elapsed = sat64 (e_end env - e_start env) in
            (None,
             upd_metrics (\<lambda>m. m\<lparr>CollectionTotal := add64 1 (CollectionTotal m),
                 SamplesInserted := add64 inserted (SamplesInserted m),
                 CollectionDuration := Record elapsed (CollectionDuration m)\<rparr>)
               (w\<lparr>w_db := db, w_breaker := RecordSuccess (e_record1 env) (w_breaker w)\<rparr>)))"

definition collectOnce :: "('db, 'tx) pg \<Rightarrow> cycle_env \<Rightarrow> 'db world \<Rightarrow> string option \<times> 'db world" where
  "collectOnce pg env w =
     (case Allow (e_allow env) (w_breaker w) of
        (Some err, b) \<Rightarrow> (Some err, w\<lparr>w_breaker := snd (State (e_state env) b)\<rparr>)
      | (None, b) \<Rightarrow>
          let w = w\<lparr>w_breaker := b\<rparr>; s = w_sched w in
          case UpsertNode pg (w_db w) (s_nodeID s) (s_hostname s) (s_baseURL s) of
            (Some err, db) \<Rightarrow> (Some err, w\<lparr>w_db := db\<rparr>)
          | (None, db) \<Rightarrow>
              let w = w\<lparr>w_db := db\<rparr> in
              case retry_loop env None [1, 2, 3] of
                Cancelled err \<Rightarrow> (Some err, w)
              | Collected samples lastErr \<Rightarrow> finish_cycle pg env samples lastErr w)"

section \<open>Retention\<close>

definition day_ns :: int where "day_ns = 24 * hour_ns"

definition retention_period :: "int \<Rightarrow> int" where
  "retention_period days = wrap64 (wrap64 (days * 24) * hour_ns)"

text \<open>One clean-up; \<open>t1\<close>, \<open>t2\<close>, \<open>t3\<close> are its three readings of the clock.\<close>

definition runRetention :: "('db, 'tx) pg \<Rightarrow> int \<Rightarrow> int \<Rightarrow> int \<Rightarrow> int \<Rightarrow> 'db world \<Rightarrow> 'db world" where
  "runRetention pg t1 t2 t3 retention w =
     (let (_, db1) = AggregateHourly pg (w_db w) (t1 + - hour_ns);
          (_, db2) = AggregateDaily pg db1 (t2 + - 24 * hour_ns);
          ((deleted, err), db3) = DeleteOldSamples pg db2 t3 retention;
          w = w\<lparr>w_db := db3\<rparr>
      in if err \<noteq> None then w
         else if deleted > 0 then upd_metrics (\<lambda>m. m\<lparr>RetentionDeleted := add64 deleted (RetentionDeleted m)\<rparr>) w
         else w)"

section \<open>The loops\<close>

text \<open>
  The scheduler runs the cycles of one goroutine and the clean-ups of another; each works through
  the pool and the counters one at a time, so a run is a sequence of events. Starting fixes the
  retention period of the clean-up goroutine, if there is one.
\<close>

datatype sched_event =
    Tick cycle_env
  | Cleanup int int int
  | SetDays int

definition start_run :: "'db world \<Rightarrow> 'db world" where
  "start_run w =
     w\<lparr>w_retention := (if s_retentionDays (w_sched w) > 0
                        then Some (retention_period (s_retentionDays (w_sched w))) else None)\<rparr>"

fun sched_exec :: "('db, 'tx) pg \<Rightarrow> sched_event \<Rightarrow> 'db world \<Rightarrow> 'db world" where
  "sched_exec pg (Tick env) w = snd (collectOnce pg env w)"
| "sched_exec pg (Cleanup t1 t2 t3) w =
     (case w_retention w of None \<Rightarrow> w | Some retention \<Rightarrow> runRetention pg t1 t2 t3 retention w)"
| "sched_exec pg (SetDays days) w = SetRetentionDays days w"

definition sched_run :: "('db, 'tx) pg \<Rightarrow> sched_event list \<Rightarrow> 'db world \<Rightarrow> 'db world" where
  "sched_run pg evs w = fold (sched_exec pg) evs w"

text \<open>A cycle's attempts made by the collector: attempt \<open>k\<close> meets the network \<open>net k\<close>.\<close>

definition with_collector :: "(string \<Rightarrow> json option) \<Rightarrow> (f64 \<Rightarrow> int) \<Rightarrow> collector \<Rightarrow> (nat \<Rightarrow> transport)
    \<Rightarrow> (nat \<Rightarrow> int) \<Rightarrow> cycle_env \<Rightarrow> cycle_env" where
  "with_collector parse impl c net clock env =
     env\<lparr>e_collect := (\<lambda>k. Collect parse impl (net k) c (clock (2 * k)) (clock (2 * k + 1)))\<rparr>"

section \<open>What the store does for the scheduler\<close>

text \<open>A cycle stores all samples of one attempt and counts it, or stores nothing.\<close>

definition stored_nothing :: "('db \<Rightarrow> tables) \<Rightarrow> 'db world \<Rightarrow> 'db world \<Rightarrow> bool" where
  "stored_nothing tables w w' \<longleftrightarrow>
     tb_samples (tables (w_db w')) = tb_samples (tables (w_db w))
     \<and> CollectionTotal (w_metrics w') = CollectionTotal (w_metrics w)
     \<and> SamplesInserted (w_metrics w') = SamplesInserted (w_metrics w)
     \<and> RetentionDeleted (w_metrics w') = RetentionDeleted (w_metrics w)"

definition stored_all :: "(int \<Rightarrow> int) \<Rightarrow> ('db \<Rightarrow> tables) \<Rightarrow> MetricSample list \<Rightarrow> 'db world \<Rightarrow> 'db world \<Rightarrow> bool" where
  "stored_all stamp tables ss w w' \<longleftrightarrow>
     tb_samples (tables (w_db w')) = insert_new (tb_samples (tables (w_db w))) (map (row_of stamp) ss)
     \<and> CollectionTotal (w_metrics w') = add64 1 (CollectionTotal (w_metrics w))
     \<and> SamplesInserted (w_metrics w') = add64 (count_rows (tables (w_db w')) - count_rows (tables (w_db w)))
         (SamplesInserted (w_metrics w))
     \<and> RetentionDeleted (w_metrics w') = RetentionDeleted (w_metrics w)"

lemma retry_loop_samples: "retry_loop env e ks = Collected ss le \<Longrightarrow> ss = [] \<or> (\<exists>k \<in> set ks. e_collect env k = Inr ss)"
  by (induction env e ks rule: retry_loop.induct) (auto split: sum.splits if_splits option.splits)

text \<open>The roll-ups write their own tables only.\<close>

locale rollup_db = postgres +
  assumes rollup_ok: "q = hourly_sql \<or> q = daily_sql \<Longrightarrow> Exec pg db q as = (r, db') \<Longrightarrow>
      tb_samples (tables db') = tb_samples (tables db) \<and> tb_nodes (tables db') = tb_nodes (tables db)"
begin

lemma AggregateHourly_samples:
  "AggregateHourly pg db t = (r, db') \<Longrightarrow> tb_samples (tables db') = tb_samples (tables db)"
  by (auto simp: AggregateHourly_def Let_def split: sum.splits prod.splits dest: rollup_ok [OF disjI1 [OF refl]])

lemma AggregateDaily_samples:
  "AggregateDaily pg db t = (r, db') \<Longrightarrow> tb_samples (tables db') = tb_samples (tables db)"
  by (auto simp: AggregateDaily_def split: sum.splits prod.splits dest: rollup_ok [OF disjI2 [OF refl]])

lemma UpsertNode_samples:
  "UpsertNode pg db n h u = (r, db') \<Longrightarrow> tb_samples (tables db') = tb_samples (tables db)"
  by (cases r) (auto dest: UpsertNode_ok UpsertNode_error)

lemma finish_cycle_cases:
  assumes "finish_cycle pg env ss le w = (r, w')" and "int (length ss) < 2 ^ 63"
  shows "r = None \<and> ss \<noteq> [] \<and> stored_all stamp tables ss w w' \<or> stored_nothing tables w w'"
proof (cases "ss = []")
  case True
  with assms(1) show ?thesis
    by (auto simp: finish_cycle_def fail_cycle_def upd_metrics_def stored_nothing_def split: if_splits)
next
  case False
  obtain n ri db' where i: "InsertSamples pg (w_db w) ss = ((n, ri), db')" by (metis prod.exhaust)
  show ?thesis
  proof (cases ri)
    case (Some e)
    with assms(1) False i InsertSamples_error [OF i [unfolded Some]] show ?thesis
      by (auto simp: finish_cycle_def fail_cycle_def stored_nothing_def)
  next
    case None
    with assms(1) False i InsertSamples_ok [OF i [unfolded None] assms(2)] show ?thesis
      by (auto simp: finish_cycle_def Let_def upd_metrics_def stored_all_def add_rows_def)
  qed
qed

lemma collectOnce_attempts:
  assumes "collectOnce pg env w = (r, w')"
    and len: "\<And>k ss. e_collect env k = Inr ss \<Longrightarrow> int (length ss) < 2 ^ 63"
  shows "(\<exists>k ss. k \<in> {1, 2, 3} \<and> r = None \<and> e_collect env k = Inr ss \<and> ss \<noteq> [] \<and> stored_all stamp tables ss w w')
    \<or> stored_nothing tables w w'"
proof -
  obtain ra b where a: "Allow (e_allow env) (w_breaker w) = (ra, b)" by fastforce
  let ?s = "w_sched w"
  obtain ru db where u: "UpsertNode pg (w_db w) (s_nodeID ?s) (s_hostname ?s) (s_baseURL ?s) = (ru, db)"
    by fastforce
  note us = UpsertNode_samples [OF u]
  show ?thesis
  proof (cases "ra = None \<and> ru = None \<and> (\<exists>ss le. retry_loop env None [1, 2, 3] = Collected ss le)")
    case False
    with assms(1) a u us have "stored_nothing tables w w'"
      by (cases ra; cases ru; cases "retry_loop env None [1, 2, 3]")
        (auto simp: collectOnce_def Let_def stored_nothing_def)
    then show ?thesis ..
  next
    case True
    then obtain ss le where c: "retry_loop env None [1, 2, 3] = Collected ss le" by blast
    have "int (length ss) < 2 ^ 63" using retry_loop_samples [OF c] len by fastforce
    moreover have "finish_cycle pg env ss le (w\<lparr>w_breaker := b, w_db := db\<rparr>) = (r, w')"
      using assms(1) a u c True by (simp add: collectOnce_def Let_def)
    ultimately have "r = None \<and> ss \<noteq> [] \<and> stored_all stamp tables ss w w' \<or> stored_nothing tables w w'"
      using finish_cycle_cases [of env ss le "w\<lparr>w_breaker := b, w_db := db\<rparr>" r w'] us
      by (auto simp: stored_all_def stored_nothing_def count_rows_def)
    moreover have "ss = [] \<or> (\<exists>k. k \<in> {1, 2, 3} \<and> e_collect env k = Inr ss)" using retry_loop_samples [OF c] by auto
    ultimately show ?thesis by blast
  qed
qed

lemma collectOnce_cases:
  assumes "collectOnce pg env w = (r, w')"
    and "\<And>k ss. e_collect env k = Inr ss \<Longrightarrow> int (length ss) < 2 ^ 63"
  shows "(\<exists>k ss. r = None \<and> e_collect env k = Inr ss \<and> ss \<noteq> [] \<and> stored_all stamp tables ss w w')
    \<or> stored_nothing tables w w'"
  using collectOnce_attempts [OF assms(1)] assms(2) by blast

lemma runRetention_ledger:
  obtains k where "0 \<le> k"
    and "count_rows (tables (w_db (runRetention pg t1 t2 t3 d w))) + k = count_rows (tables (w_db w))"
    and "w_metrics (runRetention pg t1 t2 t3 d w) = (w_metrics w)\<lparr>RetentionDeleted :=
      (if 0 < k then add64 k (RetentionDeleted (w_metrics w)) else RetentionDeleted (w_metrics w))\<rparr>"
proof -
  obtain r1 db1 where 1: "AggregateHourly pg (w_db w) (t1 + - hour_ns) = (r1, db1)" by fastforce
  obtain r2 db2 where 2: "AggregateDaily pg db1 (t2 + - 24 * hour_ns) = (r2, db2)" by fastforce
  obtain n err db3 where 3: "DeleteOldSamples pg db2 t3 d = ((n, err), db3)" by (metis prod.exhaust)
  have c: "count_rows (tables db2) = count_rows (tables (w_db w))"
    using AggregateHourly_samples [OF 1] AggregateDaily_samples [OF 2] by (simp add: count_rows_def)
  note r = runRetention_def [of pg t1 t2 t3 d w, unfolded 1 2 3 Let_def prod.case]
  show ?thesis
  proof (cases err)
    case None
    note ok = DeleteOldSamples_ok [OF 3 [unfolded None]]
    have "count_rows (tables db3) \<le> count_rows (tables db2)"
      using ok by (simp add: count_rows_def length_filter_le)
    with ok c r None show ?thesis by (intro that [of n]) (auto simp: upd_metrics_def)
  next
    case (Some e)
    from DeleteOldSamples_error [OF 3 [unfolded Some]] c r Some show ?thesis
      by (intro that [of 0]) (auto simp: count_rows_def)
  qed
qed

end

lemma rollup_statement_shape: "q = hourly_sql \<or> q = daily_sql \<Longrightarrow> hd q = CHR 0x0A \<and> q ! 15 = CHR ''h''"
  by (auto simp: hourly_sql_def daily_sql_def rollup_header_def br_def numeral_eq_Suc)

lemma other_statement_shapes:
  "hd delete_sql \<noteq> CHR 0x0A" "hd record_version_sql \<noteq> CHR 0x0A" "upsert_sql ! 15 \<noteq> CHR ''h''"
  by (simp_all add: delete_sql_def record_version_sql_def upsert_sql_def br_def numeral_eq_Suc)

lemma ref_exec_rollup: "q = hourly_sql \<or> q = daily_sql \<Longrightarrow> snd (ref_exec t q as) = t"
proof -
  assume "q = hourly_sql \<or> q = daily_sql"
  from rollup_statement_shape [OF this] other_statement_shapes
  have "q \<noteq> upsert_sql" "q \<noteq> delete_sql" "q \<noteq> record_version_sql" by blast+
  then show ?thesis unfolding ref_exec_def by (simp split: list.split sql_arg.split)
qed

interpretation ref_rollup: rollup_db ref_pg id snd fst micro
proof unfold_locales
  fix q as r db db' assume "q = hourly_sql \<or> q = daily_sql" and "Exec ref_pg db q as = (r, db')"
  with ref_exec_rollup [of q db as] have "db' = db" by (simp add: ref_pg_def)
  then show "tb_samples (id db') = tb_samples (id db) \<and> tb_nodes (id db') = tb_nodes (id db)" by simp
qed

section \<open>The ledger\<close>

definition ledger :: "('db \<Rightarrow> tables) \<Rightarrow> 'db world \<Rightarrow> int" where
  "ledger tables w =
     (count_rows (tables (w_db w)) - SamplesInserted (w_metrics w) + RetentionDeleted (w_metrics w)) mod 2 ^ 64"

lemma add64_mod: "(a - add64 k n + c) mod 2 ^ 64 = (a - (n + k) + c) mod 2 ^ 64"
  "(a - b + add64 k n) mod 2 ^ 64 = (a - b + (n + k)) mod 2 ^ 64"
proof -
  have w: "add64 k n mod 2 ^ 64 = (n + k) mod 2 ^ 64" by (simp only: add64_def wrap64_cong)
  show "(a - add64 k n + c) mod 2 ^ 64 = (a - (n + k) + c) mod 2 ^ 64"
    by (rule mod_add_cong [OF mod_diff_cong [OF refl w] refl])
  show "(a - b + add64 k n) mod 2 ^ 64 = (a - b + (n + k)) mod 2 ^ 64"
    by (rule mod_add_cong [OF refl w])
qed

lemma ledger_stored:
  assumes "SamplesInserted (w_metrics w') = add64 (count_rows (tables (w_db w')) - count_rows (tables (w_db w)))
      (SamplesInserted (w_metrics w))" and "RetentionDeleted (w_metrics w') = RetentionDeleted (w_metrics w)"
  shows "ledger tables w' = ledger tables w"
  unfolding ledger_def assms add64_mod(1) by (rule arg_cong [where f = "\<lambda>x. x mod 2 ^ 64"]) simp

lemma ledger_deleted:
  assumes "RetentionDeleted (w_metrics w') = add64 k (RetentionDeleted (w_metrics w))"
    and "count_rows (tables (w_db w')) = count_rows (tables (w_db w)) - k"
    and "SamplesInserted (w_metrics w') = SamplesInserted (w_metrics w)"
  shows "ledger tables w' = ledger tables w"
  unfolding ledger_def assms add64_mod(2) by (rule arg_cong [where f = "\<lambda>x. x mod 2 ^ 64"]) simp

text \<open>The result lists of an event are short enough for their length to be a Go \<open>int\<close>.\<close>

definition event_ok :: "sched_event \<Rightarrow> bool" where
  "event_ok e \<longleftrightarrow> (\<forall>env. e = Tick env \<longrightarrow> (\<forall>k ss. e_collect env k = Inr ss \<longrightarrow> int (length ss) < 2 ^ 63))"

lemma sched_exec_ledger:
  assumes "rollup_db pg tables tx_tables base stamp" and "event_ok e"
  shows "ledger tables (sched_exec pg e w) = ledger tables w"
proof (cases e)
  case (Tick env)
  obtain r w' where c: "collectOnce pg env w = (r, w')" by fastforce
  from rollup_db.collectOnce_cases [OF assms(1) c] assms(2) Tick
  have "(\<exists>ss. stored_all stamp tables ss w w') \<or> stored_nothing tables w w'"
    unfolding event_ok_def by blast
  then have "ledger tables w' = ledger tables w"
  proof
    assume "\<exists>ss. stored_all stamp tables ss w w'"
    then show ?thesis by (intro ledger_stored) (auto simp: stored_all_def)
  qed (simp add: ledger_def stored_nothing_def count_rows_def)
  then show ?thesis using c Tick by simp
next
  case (Cleanup t1 t2 t3)
  show ?thesis
  proof (cases "w_retention w")
    case (Some d)
    obtain k where k: "0 \<le> k" "count_rows (tables (w_db (runRetention pg t1 t2 t3 d w))) + k = count_rows (tables (w_db w))"
      "w_metrics (runRetention pg t1 t2 t3 d w) = (w_metrics w)\<lparr>RetentionDeleted :=
        (if 0 < k then add64 k (RetentionDeleted (w_metrics w)) else RetentionDeleted (w_metrics w))\<rparr>"
      by (rule rollup_db.runRetention_ledger [OF assms(1)])
    then have c: "count_rows (tables (w_db (runRetention pg t1 t2 t3 d w))) = count_rows (tables (w_db w)) - k" by simp
    have "ledger tables (runRetention pg t1 t2 t3 d w) = ledger tables w"
    proof (cases "0 < k")
      case True
      show ?thesis by (rule ledger_deleted [OF _ c]) (simp_all add: k(3) True)
    next
      case False
      with k(1,3) c show ?thesis by (simp add: ledger_def)
    qed
    then show ?thesis using Cleanup Some by simp
  qed (simp add: Cleanup)
next
  case (SetDays d)
  then show ?thesis by (simp add: ledger_def SetRetentionDays_def)
qed

text \<open>The counters account for the table. Over any sequence of cycles, clean-ups and changes of the
  retention setting, whatever fails, the number of stored rows minus the samples-inserted counter
  plus the retention-deleted counter stays the same, modulo 2^64.\<close>

theorem counters_account_for_rows:
  assumes "rollup_db pg tables tx_tables base stamp" and "list_all event_ok evs"
  shows "ledger tables (sched_run pg evs w) = ledger tables w"
  using assms(2)
proof (induction evs arbitrary: w)
  case (Cons e evs)
  then show ?case using sched_exec_ledger [OF assms(1), of e w] by (simp add: sched_run_def)
qed (simp add: sched_run_def)

text \<open>C8. A cycle is all or nothing: it either returns no error, has stored all samples of one of its
  attempts and counts itself and the rows it added, or leaves the sample table and these counters
  as they were.\<close>

theorem collectOnce_all_or_nothing:
  assumes "rollup_db pg tables tx_tables base stamp" and "event_ok (Tick env)"
    and "collectOnce pg env w = (r, w')"
  shows "(\<exists>k ss. r = None \<and> e_collect env k = Inr ss \<and> ss \<noteq> [] \<and> stored_all stamp tables ss w w')
    \<or> stored_nothing tables w w'"
  by (rule rollup_db.collectOnce_cases [OF assms(1,3)]) (use assms(2) in \<open>simp add: event_ok_def\<close>)

definition demo_env :: "(nat \<Rightarrow> string + MetricSample list) \<Rightarrow> cycle_env" where
  "demo_env collect = \<lparr>e_allow = 0, e_state = 0, e_start = 0, e_collect = collect, e_cancelled = \<lambda>_. None,
     e_record1 = 1, e_record2 = 2, e_end = 3\<rparr>"

definition demo_world :: "tables world" where
  "demo_world = \<lparr>w_sched = newScheduler 10 ''n1'' ''h'' ''u'', w_breaker = scheduler_breaker, w_db = demo_tables,
     w_metrics = Global, w_retention = Some 3000\<rparr>"

definition demo_collect :: "nat \<Rightarrow> string + MetricSample list" where
  "demo_collect k = (if k = 1 then Inl ''down'' else Inr [demo_sample 9000])"

theorem counters_account_for_rows_witness:
  "ledger id (sched_run ref_pg [Tick (demo_env demo_collect), SetDays 1, Cleanup 9 9 9, Tick (demo_env demo_collect)] demo_world)
    = ledger id demo_world"
  by (rule counters_account_for_rows [OF ref_rollup.rollup_db_axioms])
    (auto simp: event_ok_def demo_env_def demo_collect_def)

theorem collectOnce_all_or_nothing_witness:
  "let (r, w) = collectOnce ref_pg (demo_env demo_collect) demo_world in
     (\<exists>ss. r = None \<and> ss \<noteq> [] \<and> stored_all micro id ss demo_world w) \<or> stored_nothing id demo_world w"
proof -
  obtain r w where c: "collectOnce ref_pg (demo_env demo_collect) demo_world = (r, w)" by fastforce
  have "event_ok (Tick (demo_env demo_collect))" by (auto simp: event_ok_def demo_env_def demo_collect_def)
  from collectOnce_all_or_nothing [OF ref_rollup.rollup_db_axioms this c] c show ?thesis by auto
qed

section \<open>Outages\<close>















text \<open>\<open>lastErr\<close> is not reset by a later attempt that succeeds: an empty answer after a failed attempt is
  reported as that failure and counted by the breaker, an empty answer at once is neither.\<close>

lemma stale_error_recorded:
  assumes "e_collect env 1 = Inl err" and "e_cancelled env 1 = None" and "e_collect env 2 = Inr []"
  shows "retry_loop env None [1, 2, 3] = Collected [] (Some err)"
    and "fst (finish_cycle pg env [] (Some err) w) = Some err"
    and "w_breaker (snd (finish_cycle pg env [] (Some err) w))
      = RecordFailure (e_record1 env) (e_record2 env) (w_breaker w)"
  using assms by (simp_all add: finish_cycle_def fail_cycle_def upd_metrics_def)

text \<open>The period of the clean-ups is the one of the start: no event changes it, a new setting included.\<close>

lemma sched_exec_retention: "w_retention (sched_exec pg e w) = w_retention w"
  by (cases e) (auto simp: collectOnce_def finish_cycle_def fail_cycle_def upd_metrics_def runRetention_def
      SetRetentionDays_def Let_def split: prod.splits option.splits retry_result.splits)

lemma retention_fixed_at_start: "w_retention (sched_run pg evs (start_run w)) = w_retention (start_run w)"
proof -
  have "w_retention (fold (sched_exec pg) evs v) = w_retention v" for v
    by (induction evs arbitrary: v) (simp_all add: sched_exec_retention)
  then show ?thesis by (simp add: sched_run_def)
qed

section \<open>What the daily clean-ups roll up\<close>

text \<open>A database that records the statements it is given. A sample collected at \<open>c\<close> is rolled up by a
  statement when \<open>c\<close> is in the half-open window the two arguments of \<open>hourly_sql\<close> give.\<close>

definition log_pg :: "((string \<times> sql_arg list) list, unit) pg" where
  "log_pg = \<lparr>Begin = \<lambda>_. Inl ''no transaction'', TxExec = \<lambda>_ _ _. (Inl ''no transaction'', ()),
     Commit = \<lambda>_. (None, []), Rollback = \<lambda>_. [], Exec = \<lambda>db q as. (Inr 0, db @ [(q, as)]),
     QueryBool = \<lambda>_ _ _. Inr True\<rparr>"

fun in_window :: "int \<Rightarrow> string \<times> sql_arg list \<Rightarrow> bool" where
  "in_window c (q, [ATime lo, ATime hi]) \<longleftrightarrow> q = hourly_sql \<and> lo \<le> c \<and> c < hi"
| "in_window c _ \<longleftrightarrow> False"

lemma runRetention_log:
  "w_db (runRetention log_pg t1 t2 t3 d w) = w_db w @
     [(hourly_sql, [ATime (t1 - 4 * hour_ns), ATime (t1 - hour_ns)]), (daily_sql, [ATime (t2 - 24 * hour_ns)]),
      (delete_sql, [ATime (t3 + wrap64 (- d))])]"
  by (simp add: runRetention_def AggregateHourly_def AggregateDaily_def DeleteOldSamples_def log_pg_def hour_ns_def)

lemma cleanup_windows:
  assumes "w_retention w \<noteq> None"
  shows "(\<exists>e \<in> set (w_db (sched_run log_pg (map (\<lambda>t. Cleanup t t t) ts) w)). in_window c e)
    \<longleftrightarrow> (\<exists>e \<in> set (w_db w). in_window c e) \<or> (\<exists>t \<in> set ts. t - 4 * hour_ns \<le> c \<and> c < t - hour_ns)"
  using assms
proof (induction ts arbitrary: w)
  case (Cons t ts)
  let ?w = "sched_exec log_pg (Cleanup t t t) w"
  have "w_retention ?w \<noteq> None" using Cons.prems by (simp only: sched_exec_retention not_False_eq_True)
  from Cons.IH [OF this] Cons.prems show ?case
    by (auto simp: sched_run_def runRetention_log)
qed (simp add: sched_run_def)

text \<open>C32. The daily clean-up leaves a gap of 21 hours a day in the hourly roll-ups. With clean-ups every 24
  hours, as the ticker makes them, the \<open>j\<close>-th at \<open>t0 + 24 j\<close> hours, exactly the samples from four
  hours to one hour before a clean-up are rolled up.\<close>

theorem daily_rollup_gap:
  fixes t0 c :: int
  assumes "w_retention w \<noteq> None" and "w_db w = []" and "t0 \<le> c" and "c < t0 + 24 * hour_ns * (int n - 1)"
  shows "(\<exists>e \<in> set (w_db (sched_run log_pg
      (map (\<lambda>j. Cleanup (t0 + 24 * hour_ns * int j) (t0 + 24 * hour_ns * int j) (t0 + 24 * hour_ns * int j)) [0..<n]) w)).
      in_window c e) \<longleftrightarrow> 20 * hour_ns \<le> (c - t0) mod (24 * hour_ns) \<and> (c - t0) mod (24 * hour_ns) < 23 * hour_ns"
    (is "?L \<longleftrightarrow> ?R")
proof -
  let ?h = hour_ns
  define d where "d = (c - t0) div (24 * ?h)"
  define m where "m = (c - t0) mod (24 * ?h)"
  have h: "0 < ?h" by (simp add: hour_ns_def)
  have c: "c = t0 + 24 * ?h * d + m" by (simp add: d_def m_def)
  have m: "0 \<le> m" "m < 24 * ?h" using h by (simp_all add: m_def)
  have d: "0 \<le> d" using h assms(3) by (simp add: d_def pos_imp_zdiv_nonneg_iff)
  have dn: "d + 1 < int n"
  proof -
    have "24 * ?h * d < 24 * ?h * (int n - 1)" using c m assms(4) by linarith
    then show ?thesis using h by simp
  qed
  have "?L \<longleftrightarrow> (\<exists>j < n. t0 + 24 * ?h * int j - 4 * ?h \<le> c \<and> c < t0 + 24 * ?h * int j - ?h)"
    using cleanup_windows [OF assms(1), of "map (\<lambda>j. t0 + 24 * ?h * int j) [0..<n]" c] assms(2)
    by (simp add: comp_def) auto
  also have "\<dots> \<longleftrightarrow> 20 * ?h \<le> m \<and> m < 23 * ?h"
  proof
    assume "\<exists>j < n. t0 + 24 * ?h * int j - 4 * ?h \<le> c \<and> c < t0 + 24 * ?h * int j - ?h"
    then obtain j where j: "24 * ?h * int j - 4 * ?h \<le> 24 * ?h * d + m" "24 * ?h * d + m < 24 * ?h * int j - ?h"
      unfolding c by auto
    then have "int j < d + 2" and "d < int j" using m unfolding hour_ns_def by linarith+
    then have "int j = d + 1" by linarith
    with j show "20 * ?h \<le> m \<and> m < 23 * ?h" by (simp add: algebra_simps)
  next
    assume r: "20 * ?h \<le> m \<and> m < 23 * ?h"
    have i: "int (nat (d + 1)) = d + 1" using d by simp
    then have "nat (d + 1) < n" using dn by linarith
    then show "\<exists>j < n. t0 + 24 * ?h * int j - 4 * ?h \<le> c \<and> c < t0 + 24 * ?h * int j - ?h"
      by (intro exI [of _ "nat (d + 1)"] conjI) (use r c d in \<open>simp_all add: i algebra_simps\<close>)
  qed
  finally show ?thesis by (simp only: m_def)
qed

theorem daily_rollup_gap_witness:
  "\<not> (\<exists>e \<in> set (w_db (sched_run log_pg
      (map (\<lambda>j. Cleanup (0 + 24 * hour_ns * int j) (0 + 24 * hour_ns * int j) (0 + 24 * hour_ns * int j)) [0..<3])
      \<lparr>w_sched = newScheduler 10 ''n1'' ''h'' ''u'', w_breaker = scheduler_breaker, w_db = [], w_metrics = Global,
       w_retention = Some 3000\<rparr>)). in_window (5 * hour_ns) e)"
  by (subst daily_rollup_gap) (simp_all add: hour_ns_def)

end
