(* ===== verification/Config.thy ===== *)
theory Config
  imports GoScan
begin

text \<open>
  The configuration of \<open>internal/config\<close>: defaults, the YAML file, the environment on top of it, and
  validation. The file system, the YAML reader and the environment are parameters: reading the
  file, decoding it into a configuration that already holds values, and \<open>os.Getenv\<close>.
\<close>

section \<open>The data\<close>

record NodeConfig =
  BaseURL :: string
  NodeAPIKey :: string
  ConfiguredID :: string

record PoolConfig =
  MinConns :: int
  MaxConns :: int
  MaxConnLifetime :: int
  MaxConnIdleTime :: int
  HealthCheckPeriod :: int

record DerivedContext =
  dc_Name :: string
  dc_Expression :: string
  dc_InputA :: string
  dc_InputB :: string
  dc_Unit :: string

record Config =
  NetdataBaseURL :: string
  NetdataAPIKey :: string
  PostgresDSN :: string
  CollectionIntervalSeconds :: int
  CfgNodeID :: string
  EnabledContexts :: "string list"
  MCPBindAddr :: string
  LogLevel :: string
  LogFormat :: string
  RetentionDays :: int
  MCPAuthToken :: string
  RateLimitRPS :: f64
  TLSCertFile :: string
  TLSKeyFile :: string
  Nodes :: "NodeConfig list"
  DerivedContexts :: "DerivedContext list"
  Pool :: PoolConfig

definition DefaultContexts :: "string list" where
  "DefaultContexts =
     [''system.cpu'', ''system.ram'', ''system.swap'', ''system.io'', ''system.pgpgio'', ''system.ip'',
      ''disk.io'', ''disk.ops'', ''disk.util'', ''disk.space'', ''disk.inodes'', ''apps.cpu'', ''apps.mem'']"

definition DefaultPoolConfig :: PoolConfig where
  "DefaultPoolConfig =
     \<lparr>MinConns = 2, MaxConns = 10, MaxConnLifetime = 30 * 60000000000, MaxConnIdleTime = 5 * 60000000000,
      HealthCheckPeriod = 30 * 1000000000\<rparr>"

definition Defaults :: Config where
  "Defaults =
     \<lparr>NetdataBaseURL = ''http://localhost:19999'', NetdataAPIKey = [], PostgresDSN = [],
      CollectionIntervalSeconds = 60, CfgNodeID = [], EnabledContexts = DefaultContexts,
      MCPBindAddr = ''127.0.0.1:8765'', LogLevel = ''info'', LogFormat = ''text'', RetentionDays = 30,
      MCPAuthToken = [], RateLimitRPS = Fin 0, TLSCertFile = [], TLSKeyFile = [], Nodes = [],
      DerivedContexts = [], Pool = DefaultPoolConfig\<rparr>"

section \<open>The environment\<close>

type_synonym environ = "string \<Rightarrow> string"

text \<open>The shape of an override: a variable that is set and not empty is read, and what it reads as, if
  anything, replaces the field.\<close>

definition override :: "environ \<Rightarrow> string \<Rightarrow> (string \<Rightarrow> 'a option) \<Rightarrow> ('a \<Rightarrow> Config \<Rightarrow> Config) \<Rightarrow> Config \<Rightarrow> Config" where
  "override env var read put cfg =
     (if env var = [] then cfg else case read (env var) of None \<Rightarrow> cfg | Some x \<Rightarrow> put x cfg)"

text \<open>A comma-separated list: the parts that are not blank, trimmed; an empty list does not count.\<close>

definition read_list :: "string \<Rightarrow> string list option" where
  "read_list v = (let ts = filter (\<lambda>t. t \<noteq> []) (map TrimSpace (Split v (CHR '','')))
     in if ts = [] then None else Some ts)"

definition applyEnv :: "environ \<Rightarrow> Config \<Rightarrow> Config" where
  "applyEnv env cfg = fold (\<lambda>f c. f c)
     [override env ''NETDATA_BASE_URL'' Some (\<lambda>v c. c\<lparr>NetdataBaseURL := v\<rparr>),
      override env ''NETDATA_API_KEY'' Some (\<lambda>v c. c\<lparr>NetdataAPIKey := v\<rparr>),
      override env ''POSTGRES_DSN'' Some (\<lambda>v c. c\<lparr>PostgresDSN := v\<rparr>),
      override env ''COLLECTION_INTERVAL_SECONDS'' Atoi (\<lambda>n c. c\<lparr>CollectionIntervalSeconds := n\<rparr>),
      override env ''NODE_ID'' Some (\<lambda>v c. c\<lparr>CfgNodeID := v\<rparr>),
      override env ''ENABLED_CONTEXTS'' read_list (\<lambda>ts c. c\<lparr>EnabledContexts := ts\<rparr>),
      override env ''MCP_BIND_ADDR'' Some (\<lambda>v c. c\<lparr>MCPBindAddr := v\<rparr>),
      override env ''LOG_LEVEL'' Some (\<lambda>v c. c\<lparr>LogLevel := v\<rparr>),
      override env ''LOG_FORMAT'' Some (\<lambda>v c. c\<lparr>LogFormat := v\<rparr>),
      override env ''RETENTION_DAYS'' Atoi (\<lambda>n c. c\<lparr>RetentionDays := n\<rparr>),
      override env ''MCP_AUTH_TOKEN'' Some (\<lambda>v c. c\<lparr>MCPAuthToken := v\<rparr>),
      override env ''RATE_LIMIT_RPS'' ParseFloat (\<lambda>x c. c\<lparr>RateLimitRPS := x\<rparr>),
      override env ''TLS_CERT_FILE'' Some (\<lambda>v c. c\<lparr>TLSCertFile := v\<rparr>),
      override env ''TLS_KEY_FILE'' Some (\<lambda>v c. c\<lparr>TLSKeyFile := v\<rparr>),
      override env ''NETDATA_NODES'' read_list
        (\<lambda>us c. c\<lparr>Nodes := map (\<lambda>u. \<lparr>BaseURL = u, NodeAPIKey = [], ConfiguredID = []\<rparr>) us\<rparr>)] cfg"

section \<open>Validation and loading\<close>

definition Validate :: "Config \<Rightarrow> string option" where
  "Validate c =
     (if PostgresDSN c = [] then Some ''postgres_dsn is required (set POSTGRES_DSN or postgres_dsn in config)''
      else if CollectionIntervalSeconds c < 1
      then Some (''collection_interval_seconds must be >= 1, got '' @ itoa (CollectionIntervalSeconds c))
      else if EnabledContexts c = [] then Some ''enabled_contexts must not be empty''
      else None)"

definition Load :: "(string \<Rightarrow> string + string) \<Rightarrow> (string \<Rightarrow> Config \<Rightarrow> Config \<times> string option) \<Rightarrow> environ
    \<Rightarrow> string \<Rightarrow> Config \<times> string option" where
  "Load readFile unmarshal env path =
     (let from_file =
        (if path = [] then (Defaults, None)
         else case readFile path of
             Inl e \<Rightarrow> (Defaults, Some (''reading config file '' @ path @ '': '' @ e))
           | Inr data \<Rightarrow>
               (case unmarshal data Defaults of
                  (cfg, Some e) \<Rightarrow> (cfg, Some (''parsing config file '' @ path @ '': '' @ e))
                | (cfg, None) \<Rightarrow> (cfg, None)))
      in case from_file of
           (cfg, Some e) \<Rightarrow> (cfg, Some e)
         | (cfg, None) \<Rightarrow> let cfg = applyEnv env cfg in (cfg, Validate cfg))"

definition EffectiveNodes :: "Config \<Rightarrow> NodeConfig list" where
  "EffectiveNodes c =
     (if Nodes c \<noteq> [] then Nodes c
      else [\<lparr>BaseURL = NetdataBaseURL c, NodeAPIKey = NetdataAPIKey c, ConfiguredID = CfgNodeID c\<rparr>])"

section \<open>What loading guarantees\<close>

text \<open>Reading one field of the result.\<close>

definition env_or :: "environ \<Rightarrow> string \<Rightarrow> (string \<Rightarrow> 'a option) \<Rightarrow> 'a \<Rightarrow> 'a" where
  "env_or env var read x = (if env var = [] then x else case read (env var) of None \<Rightarrow> x | Some y \<Rightarrow> y)"

definition node_at :: "string \<Rightarrow> NodeConfig" where
  "node_at u = \<lparr>BaseURL = u, NodeAPIKey = [], ConfiguredID = []\<rparr>"

lemma override_field:
  "override env var read1 (\<lambda>v c. c\<lparr>NetdataBaseURL := v\<rparr>) = NetdataBaseURL_update (env_or env var read1)"
  "override env var read2 (\<lambda>v c. c\<lparr>NetdataAPIKey := v\<rparr>) = NetdataAPIKey_update (env_or env var read2)"
  "override env var read3 (\<lambda>v c. c\<lparr>PostgresDSN := v\<rparr>) = PostgresDSN_update (env_or env var read3)"
  "override env var read4 (\<lambda>v c. c\<lparr>CollectionIntervalSeconds := v\<rparr>) = CollectionIntervalSeconds_update (env_or env var read4)"
  "override env var read5 (\<lambda>v c. c\<lparr>CfgNodeID := v\<rparr>) = CfgNodeID_update (env_or env var read5)"
  "override env var read6 (\<lambda>v c. c\<lparr>EnabledContexts := v\<rparr>) = EnabledContexts_update (env_or env var read6)"
  "override env var read7 (\<lambda>v c. c\<lparr>MCPBindAddr := v\<rparr>) = MCPBindAddr_update (env_or env var read7)"
  "override env var read8 (\<lambda>v c. c\<lparr>LogLevel := v\<rparr>) = LogLevel_update (env_or env var read8)"
  "override env var read9 (\<lambda>v c. c\<lparr>LogFormat := v\<rparr>) = LogFormat_update (env_or env var read9)"
  "override env var read10 (\<lambda>v c. c\<lparr>RetentionDays := v\<rparr>) = RetentionDays_update (env_or env var read10)"
  "override env var read11 (\<lambda>v c. c\<lparr>MCPAuthToken := v\<rparr>) = MCPAuthToken_update (env_or env var read11)"
  "override env var read12 (\<lambda>v c. c\<lparr>RateLimitRPS := v\<rparr>) = RateLimitRPS_update (env_or env var read12)"
  "override env var read13 (\<lambda>v c. c\<lparr>TLSCertFile := v\<rparr>) = TLSCertFile_update (env_or env var read13)"
  "override env var read14 (\<lambda>v c. c\<lparr>TLSKeyFile := v\<rparr>) = TLSKeyFile_update (env_or env var read14)"
  by - (rule ext, simp add: override_def env_or_def split: option.split)+

lemma override_nodes:
  "override env var read_list (\<lambda>us c. c\<lparr>Nodes := map (\<lambda>u. \<lparr>BaseURL = u, NodeAPIKey = [], ConfiguredID = []\<rparr>) us\<rparr>)
    = Nodes_update (env_or env var (map_option (map node_at) \<circ> read_list))"
  by (rule ext) (simp add: override_def env_or_def node_at_def split: option.split)

lemma applyEnv_fields:
  "applyEnv env c =
     \<lparr>NetdataBaseURL = env_or env ''NETDATA_BASE_URL'' Some (NetdataBaseURL c),
      NetdataAPIKey = env_or env ''NETDATA_API_KEY'' Some (NetdataAPIKey c),
      PostgresDSN = env_or env ''POSTGRES_DSN'' Some (PostgresDSN c),
      CollectionIntervalSeconds = env_or env ''COLLECTION_INTERVAL_SECONDS'' Atoi (CollectionIntervalSeconds c),
      CfgNodeID = env_or env ''NODE_ID'' Some (CfgNodeID c),
      EnabledContexts = env_or env ''ENABLED_CONTEXTS'' read_list (EnabledContexts c),
      MCPBindAddr = env_or env ''MCP_BIND_ADDR'' Some (MCPBindAddr c),
      LogLevel = env_or env ''LOG_LEVEL'' Some (LogLevel c),
      LogFormat = env_or env ''LOG_FORMAT'' Some (LogFormat c),
      RetentionDays = env_or env ''RETENTION_DAYS'' Atoi (RetentionDays c),
      MCPAuthToken = env_or env ''MCP_AUTH_TOKEN'' Some (MCPAuthToken c),
      RateLimitRPS = env_or env ''RATE_LIMIT_RPS'' ParseFloat (RateLimitRPS c),
      TLSCertFile = env_or env ''TLS_CERT_FILE'' Some (TLSCertFile c),
      TLSKeyFile = env_or env ''TLS_KEY_FILE'' Some (TLSKeyFile c),
      Nodes = env_or env ''NETDATA_NODES'' (map_option (map node_at) \<circ> read_list) (Nodes c),
      DerivedContexts = DerivedContexts c, Pool = Pool c\<rparr>"
  unfolding applyEnv_def override_field override_nodes by (cases c) simp

lemma env_or_idem: "env_or env var read (env_or env var read x) = env_or env var read x"
  by (simp add: env_or_def split: option.split)

lemma env_or_known: "env var \<noteq> [] \<Longrightarrow> read (env var) = Some y \<Longrightarrow> env_or env var read x = y"
  by (simp add: env_or_def)

lemma Validate_None: "Validate c = None \<longleftrightarrow> PostgresDSN c \<noteq> [] \<and> 1 \<le> CollectionIntervalSeconds c \<and> EnabledContexts c \<noteq> []"
  by (auto simp: Validate_def)

lemma Load_ok_env: "Load readFile unmarshal env path = (cfg, None) \<Longrightarrow> \<exists>c. cfg = applyEnv env c \<and> Validate cfg = None"
  by (auto simp: Load_def Let_def split: if_splits sum.splits prod.splits option.splits)

text \<open>C22. A loaded configuration is usable: when \<open>Load\<close> reports no error there is a connection string, the
  interval is at least a second, there is a context to collect and a node to collect from, and
  applying the environment again changes nothing.\<close>

theorem Load_wellformed:
  assumes "Load readFile unmarshal env path = (cfg, None)"
  shows "PostgresDSN cfg \<noteq> [] \<and> 1 \<le> CollectionIntervalSeconds cfg \<and> EnabledContexts cfg \<noteq> []
    \<and> EffectiveNodes cfg \<noteq> [] \<and> applyEnv env cfg = cfg"
proof -
  obtain c where c: "cfg = applyEnv env c" and v: "Validate cfg = None" using Load_ok_env [OF assms] by blast
  have "applyEnv env cfg = cfg" unfolding c applyEnv_fields by (simp add: env_or_idem)
  with v show ?thesis by (simp add: Validate_None EffectiveNodes_def)
qed

text \<open>The string settings and the variable each is read from.\<close>

definition string_settings :: "(string \<times> (Config \<Rightarrow> string)) list" where
  "string_settings =
     [(''NETDATA_BASE_URL'', NetdataBaseURL), (''NETDATA_API_KEY'', NetdataAPIKey), (''POSTGRES_DSN'', PostgresDSN),
      (''NODE_ID'', CfgNodeID), (''MCP_BIND_ADDR'', MCPBindAddr), (''LOG_LEVEL'', LogLevel),
      (''LOG_FORMAT'', LogFormat), (''MCP_AUTH_TOKEN'', MCPAuthToken), (''TLS_CERT_FILE'', TLSCertFile),
      (''TLS_KEY_FILE'', TLSKeyFile)]"

lemma string_setting_env: "(var, get) \<in> set string_settings \<Longrightarrow> get (applyEnv env c) = env_or env var Some (get c)"
  unfolding string_settings_def applyEnv_fields
  by (simp only: list.set insert_iff empty_iff prod.inject, elim disjE conjE FalseE) simp_all

text \<open>The environment wins, whatever the file says: a string variable that is set is the setting; a
  number is the setting when it parses; and what does not parse leaves the file's value in place.\<close>

theorem Load_env_wins:
  assumes "Load readFile unmarshal env path = (cfg, None)"
  shows "(\<forall>(var, get) \<in> set string_settings. env var \<noteq> [] \<longrightarrow> get cfg = env var)
    \<and> (\<forall>n. Atoi (env ''COLLECTION_INTERVAL_SECONDS'') = Some n \<longrightarrow> CollectionIntervalSeconds cfg = n)
    \<and> (\<forall>n. Atoi (env ''RETENTION_DAYS'') = Some n \<longrightarrow> RetentionDays cfg = n)
    \<and> (path = [] \<longrightarrow> Atoi (env ''RETENTION_DAYS'') = None \<longrightarrow> RetentionDays cfg = 30)
    \<and> (\<forall>ts. read_list (env ''ENABLED_CONTEXTS'') = Some ts \<longrightarrow> EnabledContexts cfg = ts)"
proof (intro conjI allI impI)
  obtain c where c: "cfg = applyEnv env c" using Load_ok_env [OF assms] by blast
  have e: "Atoi [] = None" "read_list [] = None"
    by (simp_all add: Atoi_def read_list_def TrimSpace_def TrimLeftSpace.simps TrimRightSpace.simps)
  show "\<forall>(var, get) \<in> set string_settings. env var \<noteq> [] \<longrightarrow> get cfg = env var"
    unfolding c 
  proof (intro ballI, clarify)
    fix var and get :: "Config \<Rightarrow> string" assume "(var, get) \<in> set string_settings" and "env var \<noteq> []"
    then show "get (applyEnv env c) = env var" using string_setting_env [of var get env c] by (simp add: env_or_def)
  qed
  show "CollectionIntervalSeconds cfg = n" if "Atoi (env ''COLLECTION_INTERVAL_SECONDS'') = Some n" for n
    using that e unfolding c applyEnv_fields by (auto simp: env_or_def)
  show "RetentionDays cfg = n" if "Atoi (env ''RETENTION_DAYS'') = Some n" for n
    using that e unfolding c applyEnv_fields by (auto simp: env_or_def)
  show "EnabledContexts cfg = ts" if "read_list (env ''ENABLED_CONTEXTS'') = Some ts" for ts
    using that e unfolding c applyEnv_fields by (auto simp: env_or_def)
  show "RetentionDays cfg = 30" if "path = []" and "Atoi (env ''RETENTION_DAYS'') = None"
  proof -
    have "cfg = applyEnv env Defaults" using assms that(1) by (simp add: Load_def Let_def)
    with that(2) show ?thesis unfolding applyEnv_fields by (simp add: env_or_def Defaults_def)
  qed
qed

definition demo_environ :: environ where
  "demo_environ = (\<lambda>_. [])(''POSTGRES_DSN'' := ''d'', ''RETENTION_DAYS'' := ''7'')"

lemma demo_load: "Load (\<lambda>_. Inl ''none'') (\<lambda>_ c. (c, None)) demo_environ [] = (applyEnv demo_environ Defaults, None)"
proof -
  have "Validate (applyEnv demo_environ Defaults) = None"
    unfolding Validate_None applyEnv_fields
    by (simp add: env_or_def demo_environ_def Defaults_def DefaultContexts_def)
  then show ?thesis by (simp add: Load_def Let_def)
qed

theorem Load_wellformed_witness: "EffectiveNodes (applyEnv demo_environ Defaults) \<noteq> []"
  using Load_wellformed [OF demo_load] by blast

theorem Load_env_wins_witness: "RetentionDays (applyEnv demo_environ Defaults) = 7"
proof -
  have "Atoi (demo_environ ''RETENTION_DAYS'') = Some 7"
    by (simp add: demo_environ_def Atoi_def is_digit_def digit_val_def in64_def Let_def)
  with Load_env_wins [OF demo_load] show ?thesis by blast
qed

end
