(* ===== verification/Webhook.thy ===== *)
theory Webhook
  imports GoString
begin

text \<open>
  The notifier of \<open>internal/webhook/webhook.go\<close>: which webhooks a detection is sent to, and the
  cool-down that keeps them from repeating. Posting is a parameter that answers an error or a
  status; the clock readings are an argument, one list of readings per configuration.
\<close>

section \<open>State and operations\<close>

record webhook =
  wh_URL :: string
  wh_MinConfidence :: f64
  wh_CooldownMinutes :: int
  wh_IncludeEvidence :: bool

record evidence =
  ev_Context :: string
  ev_Dimension :: string
  ev_AvgValue :: f64
  ev_MaxValue :: f64

record payload =
  pl_Timestamp :: int
  pl_NodeID :: string
  pl_BottleneckType :: string
  pl_Confidence :: f64
  pl_Explanation :: string
  pl_Evidence :: "evidence list"

record notifier =
  nt_configs :: "webhook list"
  nt_lastSent :: "string \<rightharpoonup> int"

definition NewNotifier :: "webhook list \<Rightarrow> notifier" where
  "NewNotifier configs = \<lparr>nt_configs = configs, nt_lastSent = Map.empty\<rparr>"

text \<open>\<open>json.Marshal\<close> of a payload fails exactly when one of its floats is not finite.\<close>

definition marshals :: "payload \<Rightarrow> bool" where
  "marshals p \<longleftrightarrow> is_finite (pl_Confidence p)
     \<and> list_all (\<lambda>e. is_finite (ev_AvgValue e) \<and> is_finite (ev_MaxValue e)) (pl_Evidence p)"

text \<open>Posting: the URL and the payload give the wrapped error of building or sending the request, or the status of the answer.\<close>

type_synonym poster = "string \<Rightarrow> payload \<Rightarrow> string + int"

definition webhook_send :: "poster \<Rightarrow> string \<Rightarrow> payload \<Rightarrow> string option" where
  "webhook_send post url p =
     (if \<not> marshals p then Some ''marshaling payload: json: unsupported value''
      else case post url p of
        Inl e \<Rightarrow> Some e
      | Inr status \<Rightarrow> if status \<ge> 400 then Some (''webhook returned HTTP '' @ itoa status) else None)"

definition cooldown_key :: "payload \<Rightarrow> string" where
  "cooldown_key p = pl_NodeID p @ '':'' @ pl_BottleneckType p"

definition min_confidence :: "webhook \<Rightarrow> f64" where
  "min_confidence cfg = (if feq (wh_MinConfidence cfg) (Fin 0) then flit (7 / 10) else wh_MinConfidence cfg)"

definition cooldown :: "webhook \<Rightarrow> int" where
  "cooldown cfg = (let d = wrap64 (wh_CooldownMinutes cfg * 60000000000)
     in if d = 0 then 15 * 60000000000 else d)"

text \<open>What one pass of the loop decides before it posts, at the reading \<open>t\<close> of the cool-down test.\<close>

definition webhook_due :: "int \<Rightarrow> payload \<Rightarrow> webhook \<Rightarrow> (string \<rightharpoonup> int) \<Rightarrow> bool" where
  "webhook_due t p cfg lastSent \<longleftrightarrow>
     wh_URL cfg \<noteq> [] \<and> \<not> flt (pl_Confidence p) (min_confidence cfg)
     \<and> (case lastSent (cooldown_key p) of
          None \<Rightarrow> True | Some sentAt \<Rightarrow> \<not> sat64 (t - sentAt) < cooldown cfg)"

text \<open>One pass, with the readings \<open>t1\<close> of the cool-down test, \<open>t2\<close> of the timestamp and \<open>t3\<close> after the
  answer; it returns the payload it posted successfully, if any.\<close>

definition notify_one :: "poster \<Rightarrow> payload \<Rightarrow> webhook \<Rightarrow> int \<times> int \<times> int \<Rightarrow> (string \<rightharpoonup> int)
    \<Rightarrow> (string \<times> payload) option \<times> (string \<rightharpoonup> int)" where
  "notify_one post payload cfg ts lastSent =
     (case ts of (t1, t2, t3) \<Rightarrow>
      if \<not> webhook_due t1 payload cfg lastSent then (None, lastSent)
      else
        let p = payload\<lparr>pl_Timestamp := t2, pl_Evidence := (if wh_IncludeEvidence cfg then pl_Evidence payload else [])\<rparr>
        in case webhook_send post (wh_URL cfg) p of
             Some e \<Rightarrow> (None, lastSent)
           | None \<Rightarrow> (Some (wh_URL cfg, p), lastSent(cooldown_key payload \<mapsto> t3)))"

fun notify_loop :: "poster \<Rightarrow> payload \<Rightarrow> webhook list \<Rightarrow> (int \<times> int \<times> int) list \<Rightarrow> (string \<rightharpoonup> int)
    \<Rightarrow> (string \<times> payload) list \<times> (string \<rightharpoonup> int)" where
  "notify_loop post p (cfg # cfgs) (ts # tss) lastSent =
     (let (sent, lastSent) = notify_one post p cfg ts lastSent;
          (sents, lastSent) = notify_loop post p cfgs tss lastSent
      in ((case sent of None \<Rightarrow> [] | Some s \<Rightarrow> [s]) @ sents, lastSent))"
| "notify_loop post p _ _ lastSent = ([], lastSent)"

definition Notify :: "poster \<Rightarrow> payload \<Rightarrow> (int \<times> int \<times> int) list \<Rightarrow> notifier \<Rightarrow> (string \<times> payload) list \<times> notifier" where
  "Notify post p tss n =
     (if nt_configs n = [] \<or> pl_BottleneckType p = ''none'' then ([], n)
      else let (sents, lastSent) = notify_loop post p (nt_configs n) tss (nt_lastSent n)
           in (sents, n\<lparr>nt_lastSent := lastSent\<rparr>))"

section \<open>The cool-down\<close>

text \<open>Bottleneck types have no colon, so two detections share a key only when they agree on both.\<close>

lemma cooldown_key_type:
  "CHR '':'' \<notin> set (pl_BottleneckType p) \<Longrightarrow>
    takeWhile (\<lambda>c. c \<noteq> CHR '':'') (rev (cooldown_key p)) = rev (pl_BottleneckType p)"
  unfolding cooldown_key_def rev_append by (subst append_assoc, subst takeWhile_append2) auto

lemma cooldown_key_inj:
  assumes "CHR '':'' \<notin> set (pl_BottleneckType p)" and "CHR '':'' \<notin> set (pl_BottleneckType q)"
  shows "cooldown_key p = cooldown_key q \<longleftrightarrow> pl_NodeID p = pl_NodeID q \<and> pl_BottleneckType p = pl_BottleneckType q"
proof
  assume k: "cooldown_key p = cooldown_key q"
  then have "pl_BottleneckType p = pl_BottleneckType q"
    using cooldown_key_type [OF assms(1)] cooldown_key_type [OF assms(2)] by simp
  with k show "pl_NodeID p = pl_NodeID q \<and> pl_BottleneckType p = pl_BottleneckType q"
    by (simp add: cooldown_key_def)
qed (simp add: cooldown_key_def)

lemma cooldown_shape: "in64 (cooldown cfg)"
  by (simp add: cooldown_def Let_def in64_def [of "900000000000"])

text \<open>A run of one key: the times of the deliveries, each with the cool-down of the webhook that made it
  and the time its test read. \<open>readings_ok\<close> says the clock does not run backwards.\<close>

definition readings_ok :: "int \<Rightarrow> int \<times> int \<times> int \<Rightarrow> bool" where
  "readings_ok t ts \<longleftrightarrow> (case ts of (t1, t2, t3) \<Rightarrow> t \<le> t1 \<and> t1 \<le> t2 \<and> t2 \<le> t3)"

fun clock_ok :: "int \<Rightarrow> (int \<times> int \<times> int) list \<Rightarrow> bool" where
  "clock_ok t [] = True"
| "clock_ok t (ts # tss) = (readings_ok t ts \<and> clock_ok (snd (snd ts)) tss)"

lemma notify_one_cases:
  assumes "notify_one post p cfg (t1, t2, t3) ls = (r, ls')"
  shows "r = None \<and> ls' = ls
    \<or> (\<exists>q. r = Some (wh_URL cfg, q) \<and> webhook_due t1 p cfg ls \<and> pl_Timestamp q = t2
        \<and> ls' = ls(cooldown_key p \<mapsto> t3) \<and> marshals q)"
  using assms by (auto simp: notify_one_def Let_def webhook_send_def split: if_splits option.splits sum.splits)

lemma not_due_soon:
  assumes "ls (cooldown_key p) = Some sentAt" and "t - sentAt < cooldown cfg" and "0 < cooldown cfg"
  shows "\<not> webhook_due t p cfg ls"
proof -
  have "sat64 (t - sentAt) < cooldown cfg"
    using assms(2,3) cooldown_shape [of cfg] by (auto simp: sat64_def in64_def)
  with assms(1) show ?thesis by (simp add: webhook_due_def)
qed

text \<open>While the key is cooling down for every configuration, nothing is sent.\<close>

lemma notify_loop_quiet:
  "ls (cooldown_key p) = Some sentAt \<Longrightarrow> \<forall>cfg \<in> set cfgs. \<forall>ts \<in> set tss. 0 < cooldown cfg \<and> fst ts - sentAt < cooldown cfg \<Longrightarrow>
    notify_loop post p cfgs tss ls = ([], ls)"
proof (induction post p cfgs tss ls rule: notify_loop.induct)
  case (1 post p cfg cfgs ts tss ls)
  obtain t1 t2 t3 where ts: "ts = (t1, t2, t3)" by (cases ts)
  with 1(3) have "t1 - sentAt < cooldown cfg" "0 < cooldown cfg" by auto
  then have "\<not> webhook_due t1 p cfg ls" using not_due_soon 1(2) by blast
  then have one: "notify_one post p cfg ts ls = (None, ls)" by (simp add: notify_one_def ts)
  with 1 show ?case by (simp add: Let_def)
qed simp_all

lemma clock_ok_later: "clock_ok t tss \<Longrightarrow> ts \<in> set tss \<Longrightarrow> t \<le> fst ts"
proof (induction t tss rule: clock_ok.induct)
  case (2 t ts' tss)
  then show ?case by (auto simp: readings_ok_def split: prod.splits)
qed simp

text \<open>C31. A detection reaches at most one webhook per call: the first delivery starts the cool-down all
  webhooks share, so while the whole call is shorter than the cool-downs the rest are skipped.\<close>

theorem one_webhook_per_detection:
  assumes "clock_ok t tss" and "\<forall>cfg \<in> set (nt_configs n). \<forall>ts \<in> set tss. fst ts - t < cooldown cfg"
    and "Notify post p tss n = (sents, n')"
  shows "length sents \<le> 1
    \<and> (sents \<noteq> [] \<longrightarrow> (\<exists>sentAt. t \<le> sentAt \<and> nt_lastSent n' = (nt_lastSent n)(cooldown_key p \<mapsto> sentAt)))
    \<and> (sents = [] \<longrightarrow> n' = n)"
proof -
  have loop: "length sents \<le> 1 \<and> (sents \<noteq> [] \<longrightarrow> (\<exists>sentAt. t \<le> sentAt \<and> ls' = ls(cooldown_key p \<mapsto> sentAt)))
      \<and> (sents = [] \<longrightarrow> ls' = ls)"
    if "notify_loop post p cfgs tss ls = (sents, ls')" and "clock_ok t tss"
      and "\<forall>cfg \<in> set cfgs. \<forall>ts \<in> set tss. fst ts - t < cooldown cfg" for cfgs tss ls ls' sents t
    using that
  proof (induction post p cfgs tss ls arbitrary: sents ls' t rule: notify_loop.induct)
    case (1 post p cfg cfgs ts tss ls)
    obtain t1 t2 t3 where ts: "ts = (t1, t2, t3)" by (cases ts)
    obtain r ls1 where one: "notify_one post p cfg ts ls = (r, ls1)" by fastforce
    have clock: "t \<le> t3" "clock_ok t3 tss" using "1.prems"(2) by (auto simp: readings_ok_def ts)
    have later: "\<forall>cfg \<in> set cfgs. \<forall>ts \<in> set tss. 0 < cooldown cfg \<and> fst ts - t3 < cooldown cfg"
      using "1.prems"(3) clock clock_ok_later by fastforce
    from notify_one_cases [OF one [unfolded ts]] show ?case
    proof
      assume n: "r = None \<and> ls1 = ls"
      obtain s l where rest: "notify_loop post p cfgs tss ls = (s, l)" by fastforce
      have "s = sents" "l = ls'" using "1.prems"(1) one n rest by (auto simp: Let_def)
      moreover have "clock_ok t tss" using clock by (cases tss) (auto simp: readings_ok_def)
      moreover have "\<forall>cfg \<in> set cfgs. \<forall>ts \<in> set tss. fst ts - t < cooldown cfg"
        using "1.prems"(3) by auto
      ultimately show ?thesis using "1.IH" [OF refl one [symmetric, unfolded n]] n one rest by auto
    next
      assume "\<exists>q. r = Some (wh_URL cfg, q) \<and> webhook_due t1 p cfg ls \<and> pl_Timestamp q = t2
        \<and> ls1 = ls(cooldown_key p \<mapsto> t3) \<and> marshals q"
      then obtain q where q: "r = Some (wh_URL cfg, q)" "ls1 = ls(cooldown_key p \<mapsto> t3)" by blast
      have "notify_loop post p cfgs tss ls1 = ([], ls1)"
        by (rule notify_loop_quiet [of _ _ t3]) (use q later in \<open>simp_all\<close>)
      with "1.prems"(1) one q clock(1) show ?thesis by (auto simp: Let_def)
    qed
  qed auto
  show ?thesis
  proof (cases "nt_configs n = [] \<or> pl_BottleneckType p = ''none''")
    case False
    then obtain ls' where l: "notify_loop post p (nt_configs n) tss (nt_lastSent n) = (sents, ls')"
      and n': "n' = n\<lparr>nt_lastSent := ls'\<rparr>"
      using assms(3) by (auto simp: Notify_def split: prod.splits)
    from loop [OF l assms(1,2)] n' show ?thesis by auto
  qed (use assms(3) in \<open>auto simp: Notify_def\<close>)
qed

definition demo_webhook :: "string \<Rightarrow> webhook" where
  "demo_webhook u = \<lparr>wh_URL = u, wh_MinConfidence = Fin 0, wh_CooldownMinutes = 0, wh_IncludeEvidence = False\<rparr>"

definition demo_payload :: payload where
  "demo_payload = \<lparr>pl_Timestamp = 0, pl_NodeID = ''n1'', pl_BottleneckType = ''cpu'', pl_Confidence = Fin 1,
     pl_Explanation = [], pl_Evidence = []\<rparr>"

lemma demo_cooldown: "cooldown (demo_webhook u) = 900000000000"
  by (simp add: cooldown_def demo_webhook_def wrap64_def)

theorem one_webhook_per_detection_witness:
  "length (fst (Notify (\<lambda>_ _. Inr 200) demo_payload [(1, 2, 3), (4, 5, 6)]
     (NewNotifier [demo_webhook ''http://a'', demo_webhook ''http://b'']))) \<le> 1"
proof -
  have c: "clock_ok 0 [(1, 2, 3), (4, 5, 6)]" by (simp add: readings_ok_def)
  show ?thesis
    by (rule one_webhook_per_detection [OF c _ prod.collapse [symmetric], THEN conjunct1])
      (simp add: NewNotifier_def demo_cooldown)
qed

end
