(* ===== verification/Tenant.thy ===== *)
theory Tenant
  imports GoString
begin

text \<open>
  The tenant middleware of \<open>internal/tenant/tenant.go\<close>. SHA-256 and the token lookup in PostgreSQL are
  parameters; a lookup answers an error, or the row with its expiry time.
\<close>

record Info =
  TenantID :: string
  TenantName :: string
  TokenLabel :: string
  Scopes :: "string list"

text \<open>What the middleware reads of a request: a header, and the first query parameter of a name.\<close>

record token_request =
  tr_header :: "string \<Rightarrow> string"
  tr_query :: "string \<Rightarrow> string"

definition extractBearerToken :: "token_request \<Rightarrow> string" where
  "extractBearerToken r =
     (let auth = tr_header r ''Authorization'' in
      if HasPrefix auth ''Bearer '' then TrimPrefix auth ''Bearer '' else tr_query r ''token'')"

text \<open>\<open>hex.EncodeToString\<close>.\<close>

definition hex_digit :: "nat \<Rightarrow> char" where
  "hex_digit n = (if n < 10 then chr (48 + n) else chr (87 + n))"

definition hex_encode :: "string \<Rightarrow> string" where
  "hex_encode bs = concat (map (\<lambda>b. [hex_digit (byte b div 16), hex_digit (byte b mod 16)]) bs)"

definition HashToken :: "(string \<Rightarrow> string) \<Rightarrow> string \<Rightarrow> string" where
  "HashToken sha256 raw = hex_encode (sha256 raw)"

definition token_sql :: string where
  "token_sql =
     [CHR 0x0A] @ replicate 2 (CHR 0x09) @ ''SELECT t.id, t.name, at.label, at.scopes, at.expires_at'' @ [CHR 0x0A]
     @ replicate 2 (CHR 0x09) @ ''FROM api_tokens at'' @ [CHR 0x0A]
     @ replicate 2 (CHR 0x09) @ ''JOIN tenants t ON t.id = at.tenant_id'' @ [CHR 0x0A]
     @ replicate 2 (CHR 0x09) @ ''WHERE at.token_hash = $1'' @ [CHR 0x0A, CHR 0x09]"

type_synonym token_query = "string \<Rightarrow> string \<Rightarrow> string + Info \<times> int option"

text \<open>The result is the pair the function returns: a pointer and an error, both possibly nil.\<close>

definition resolveToken :: "(string \<Rightarrow> string) \<Rightarrow> token_query \<Rightarrow> int \<Rightarrow> string \<Rightarrow> Info option \<times> string option" where
  "resolveToken sha256 query now rawToken =
     (case query token_sql (HashToken sha256 rawToken) of
        Inl e \<Rightarrow> (None, Some e)
      | Inr (info, expiresAt) \<Rightarrow>
          (case expiresAt of
             Some t \<Rightarrow> if t < now then (None, None) else (Some info, None)
           | None \<Rightarrow> (Some info, None)))"

text \<open>What becomes of a request: an error reply of the middleware, or the next handler with the context
  value it finds under \<open>tenantKey\<close>; \<open>FromContext\<close> reads that value.\<close>

datatype tenant_outcome = Unauthorized string | PassOn "Info option option"

definition FromContext :: "Info option option \<Rightarrow> Info option" where
  "FromContext v = (case v of None \<Rightarrow> None | Some info \<Rightarrow> info)"

definition Middleware :: "(string \<Rightarrow> string) \<Rightarrow> token_query \<Rightarrow> bool \<Rightarrow> int \<Rightarrow> token_request \<Rightarrow> tenant_outcome" where
  "Middleware sha256 query multiTenant now r =
     (if \<not> multiTenant then PassOn None
      else let token = extractBearerToken r in
        if token = [] then Unauthorized ''missing bearer token''
        else case resolveToken sha256 query now token of
            (info, Some err) \<Rightarrow> Unauthorized ''invalid or expired token''
          | (info, None) \<Rightarrow> PassOn (Some info))"

section \<open>Who gets through\<close>

text \<open>The tokens a table of hashes stands for: a lookup finds the row of the hash or fails.\<close>

definition table_query :: "(string \<times> Info \<times> int option) list \<Rightarrow> token_query" where
  "table_query tokens q h =
     (if q \<noteq> token_sql then Inl ''unexpected statement''
      else case map_of tokens h of None \<Rightarrow> Inl ''no rows in result set'' | Some row \<Rightarrow> Inr row)"

definition expired :: "int \<Rightarrow> int option \<Rightarrow> bool" where
  "expired now e \<longleftrightarrow> (case e of None \<Rightarrow> False | Some t \<Rightarrow> t < now)"

lemma hex_digit_inj: "m < 16 \<Longrightarrow> n < 16 \<Longrightarrow> hex_digit m = hex_digit n \<longleftrightarrow> m = n"
  by (auto simp: hex_digit_def of_char_eq_iff [symmetric] simp del: of_char_eq_iff split: if_splits)

lemma hex_pair_inj:
  assumes "hex_digit (byte a div 16) = hex_digit (byte b div 16)" and "hex_digit (byte a mod 16) = hex_digit (byte b mod 16)"
  shows "a = b"
proof -
  have "byte c div 16 < 16" for c :: char using nat_of_char_less_256 [of c] by linarith
  with assms have "byte a div 16 = byte b div 16" "byte a mod 16 = byte b mod 16"
    by (simp_all add: hex_digit_inj)
  then have "byte a = byte b" by (metis div_mult_mod_eq)
  then show ?thesis by simp
qed

lemma hex_encode_inj: "hex_encode a = hex_encode b \<longleftrightarrow> a = b"
proof (induction a arbitrary: b)
  case Nil
  then show ?case by (cases b) (simp_all add: hex_encode_def)
next
  case (Cons x a)
  then show ?case by (cases b) (auto simp: hex_encode_def dest: hex_pair_inj)
qed

text \<open>C30. In multi-tenant mode a request reaches the handler exactly when its token's hash is registered.
  The handler then finds the token's tenant if the token has not expired; with an expired token the
  request is let through too, and the handler finds no tenant, as in single-tenant mode.\<close>

theorem tenant_gate:
  assumes "extractBearerToken r \<noteq> []"
  shows "Middleware sha256 (table_query tokens) True now r =
    (case map_of tokens (HashToken sha256 (extractBearerToken r)) of
       None \<Rightarrow> Unauthorized ''invalid or expired token''
     | Some (info, e) \<Rightarrow> PassOn (Some (if expired now e then None else Some info)))
    \<and> (\<forall>info e. map_of tokens (HashToken sha256 (extractBearerToken r)) = Some (info, e) \<and> expired now e \<longrightarrow>
         (\<exists>v. Middleware sha256 (table_query tokens) True now r = PassOn v
           \<and> FromContext v = FromContext None))"
  using assms
  by (auto simp: Middleware_def resolveToken_def table_query_def expired_def FromContext_def Let_def split: option.splits)

definition demo_info :: Info where
  "demo_info = \<lparr>TenantID = ''t1'', TenantName = ''Tenant'', TokenLabel = ''ci'', Scopes = []\<rparr>"

definition demo_token_request :: token_request where
  "demo_token_request = \<lparr>tr_header = (\<lambda>h. if h = ''Authorization'' then ''Bearer abc'' else []), tr_query = \<lambda>_. []\<rparr>"

lemma demo_token: "extractBearerToken demo_token_request = ''abc''"
  by (simp add: extractBearerToken_def demo_token_request_def HasPrefix_def TrimPrefix_def)

theorem tenant_gate_witness:
  "Middleware id (table_query [(HashToken id ''abc'', demo_info, Some 10)]) True 11 demo_token_request = PassOn (Some None)"
  using tenant_gate [of demo_token_request id "[(HashToken id ''abc'', demo_info, Some 10)]" 11]
  by (simp add: demo_token expired_def)

text \<open>A token answers for itself only: with a collision-free hash, two tokens share a registration exactly
  when they are the same.\<close>

lemma HashToken_inj: "inj sha256 \<Longrightarrow> HashToken sha256 a = HashToken sha256 b \<longleftrightarrow> a = b"
  by (simp add: HashToken_def hex_encode_inj inj_eq)

end
