(* ===== verification/Derived.thy ===== *)
theory Derived
  imports Config PgTables
begin

text \<open>
  \<open>internal/derived/derived.go\<close>: metrics computed from the samples of a collection by the definitions
  of the configuration. The clock reading is an argument; \<open>uni_lower\<close> is the Unicode case table.
\<close>

section \<open>The computation\<close>

definition sample_id :: "MetricSample \<Rightarrow> string" where
  "sample_id s = Context s @ ''.'' @ Dimension s"

text \<open>The index: per name the sample collected last, the first of those collected at once.\<close>

definition index_sample :: "MetricSample \<Rightarrow> (string \<rightharpoonup> MetricSample) \<Rightarrow> string \<rightharpoonup> MetricSample" where
  "index_sample s latest =
     (case latest (sample_id s) of
        Some existing \<Rightarrow> if CollectedAt existing < CollectedAt s then latest(sample_id s \<mapsto> s) else latest
      | None \<Rightarrow> latest(sample_id s \<mapsto> s))"

definition latest_samples :: "MetricSample list \<Rightarrow> string \<rightharpoonup> MetricSample" where
  "latest_samples samples = fold index_sample samples Map.empty"

definition derived_value :: "(string \<Rightarrow> string) \<Rightarrow> (string \<rightharpoonup> MetricSample) \<Rightarrow> DerivedContext \<Rightarrow> MetricSample \<Rightarrow> f64 option" where
  "derived_value uni_lower latest def sampleA =
     (let a = SValue sampleA; e = ToLower uni_lower (dc_Expression def); b = latest (dc_InputB def) in
      if e = ''a'' then Some a
      else if e = ''a * 100'' then Some (fmul a (flit 100))
      else if e = ''a / b * 100'' then
        (case b of None \<Rightarrow> None
         | Some sampleB \<Rightarrow> if feq (SValue sampleB) (Fin 0) then None
             else Some (fmul (fdiv a (SValue sampleB)) (flit 100)))
      else if e = ''a / b'' then
        (case b of None \<Rightarrow> None
         | Some sampleB \<Rightarrow> if feq (SValue sampleB) (Fin 0) then None else Some (fdiv a (SValue sampleB)))
      else if e = ''a - b'' then map_option (\<lambda>sampleB. fsub a (SValue sampleB)) b
      else if e = ''a + b'' then map_option (\<lambda>sampleB. fadd a (SValue sampleB)) b
      else None)"

definition derive_one :: "(string \<Rightarrow> string) \<Rightarrow> string \<Rightarrow> int \<Rightarrow> (string \<rightharpoonup> MetricSample) \<Rightarrow> DerivedContext \<Rightarrow> MetricSample list" where
  "derive_one uni_lower nodeID now latest def =
     (case latest (dc_InputA def) of
        None \<Rightarrow> []
      | Some sampleA \<Rightarrow>
          (case derived_value uni_lower latest def sampleA of
             None \<Rightarrow> []
           | Some val \<Rightarrow>
               [\<lparr>NodeID = nodeID, CollectedAt = now, Context = dc_Name def, Chart = dc_Name def, Family = [],
                 Instance = [], Dimension = ''value'', Unit = dc_Unit def, SValue = val,
                 SLabels = Some [(''derived'', ''true'')]\<rparr>]))"

definition Compute :: "(string \<Rightarrow> string) \<Rightarrow> string \<Rightarrow> DerivedContext list \<Rightarrow> MetricSample list \<Rightarrow> int \<Rightarrow> MetricSample list" where
  "Compute uni_lower nodeID definitions samples now =
     (if definitions = [] then []
      else let latest = latest_samples samples
           in concat (map (derive_one uni_lower nodeID now latest) definitions))"

section \<open>The index and the values\<close>

text \<open>The reference: the first sample of the name that no other sample of the name is later than.\<close>

definition latest_spec :: "MetricSample list \<Rightarrow> string \<Rightarrow> MetricSample option" where
  "latest_spec samples k =
     (let xs = filter (\<lambda>s. sample_id s = k) samples
      in find (\<lambda>s. \<forall>t \<in> set xs. CollectedAt t \<le> CollectedAt s) xs)"

lemma find_append: "find P (xs @ ys) = (case find P xs of None \<Rightarrow> find P ys | Some x \<Rightarrow> Some x)"
  by (induction xs) auto

lemma find_max_exists:
  fixes f :: "'a \<Rightarrow> int"
  assumes "xs \<noteq> []"
  shows "find (\<lambda>s. \<forall>t \<in> set xs. f t \<le> f s) xs \<noteq> None"
proof -
  have "Max (f ` set xs) \<in> f ` set xs" using assms by (intro Max_in) auto
  then obtain m where "m \<in> set xs" "f m = Max (f ` set xs)" by auto
  then have "m \<in> set xs \<and> (\<forall>t \<in> set xs. f t \<le> f m)" by (simp add: Max_ge)
  then show ?thesis by (auto simp: find_None_iff)
qed

lemma find_max_snoc:
  fixes f :: "'a \<Rightarrow> int"
  shows "find (\<lambda>s. \<forall>t \<in> set (xs @ [x]). f t \<le> f s) (xs @ [x])
    = (case find (\<lambda>s. \<forall>t \<in> set xs. f t \<le> f s) xs of
         None \<Rightarrow> Some x | Some m \<Rightarrow> if f m < f x then Some x else Some m)"
proof (cases "xs = []")
  case False
  then obtain m where m: "find (\<lambda>s. \<forall>t \<in> set xs. f t \<le> f s) xs = Some m"
    using find_max_exists [of xs f] by fastforce
  then have mx: "\<forall>t \<in> set xs. f t \<le> f m" by (auto simp: find_Some_iff)
  show ?thesis
  proof (cases "f m < f x")
    case True
    then have "find (\<lambda>s. \<forall>t \<in> set (xs @ [x]). f t \<le> f s) xs = None"
      using mx by (force simp: find_None_iff)
    moreover have "\<forall>t \<in> set (xs @ [x]). f t \<le> f x" using True mx by fastforce
    ultimately show ?thesis using True m by (simp add: find_append)
  next
    case F: False
    have "find (\<lambda>s. \<forall>t \<in> set (xs @ [x]). f t \<le> f s) xs = find (\<lambda>s. \<forall>t \<in> set xs. f t \<le> f s) xs"
    proof (rule find_cong [OF refl])
      fix s assume "s \<in> set xs"
      have "f x \<le> f s" if "\<forall>t \<in> set xs. f t \<le> f s"
      proof -
        have "m \<in> set xs" using m by (auto simp: find_Some_iff)
        with that F show ?thesis by fastforce
      qed
      then show "(\<forall>t \<in> set (xs @ [x]). f t \<le> f s) = (\<forall>t \<in> set xs. f t \<le> f s)" by auto
    qed
    then show ?thesis using F m by (simp only: find_append) simp
  qed
qed simp

lemma latest_spec_snoc:
  "latest_spec (samples @ [s]) k =
     (if sample_id s = k
      then case latest_spec samples k of None \<Rightarrow> Some s | Some m \<Rightarrow> if CollectedAt m < CollectedAt s then Some s else Some m
      else latest_spec samples k)"
  unfolding latest_spec_def Let_def using find_max_snoc [where f = CollectedAt and xs = "filter (\<lambda>s. sample_id s = k) samples" and x = s] by simp

lemma fold_index_spec: "fold index_sample samples Map.empty = latest_spec samples"
proof (induction samples rule: rev_induct)
  case Nil
  then show ?case by (simp add: latest_spec_def)
next
  case (snoc s samples)
  then show ?case by (auto simp: fold_append index_sample_def latest_spec_snoc fun_eq_iff split: option.splits)
qed

text \<open>C23. The index is the reference: it holds for every name the sample collected last and, of several
  collected at the same time, the first.\<close>

theorem latest_samples_equiv: "latest_samples samples = latest_spec samples"
  unfolding latest_samples_def by (rule fold_index_spec)

lemma latest_samples_mem:
  assumes "latest_samples samples k = Some s"
  shows "s \<in> set samples \<and> sample_id s = k"
proof -
  have "latest_spec samples k = Some s" using assms by (simp add: latest_samples_def fold_index_spec)
  then have "find (\<lambda>s. \<forall>t \<in> set (filter (\<lambda>s. sample_id s = k) samples). CollectedAt t \<le> CollectedAt s)
      (filter (\<lambda>s. sample_id s = k) samples) = Some s"
    by (simp add: latest_spec_def)
  then have "s \<in> set (filter (\<lambda>s. sample_id s = k) samples)" unfolding find_Some_iff by (metis nth_mem)
  then show ?thesis by simp
qed

lemma flit_100: "flit 100 = Fin 100"
  using of_int64_exact [of 100] by (simp add: flit_of_int [of 100, simplified])

lemma fdiv_not_nan: "is_finite a \<Longrightarrow> is_finite b \<Longrightarrow> fval b \<noteq> 0 \<Longrightarrow> \<not> is_nan (fdiv a b)"
  by (cases a; cases b) (simp_all add: fdiv_def Let_def)

lemma fmul_100_not_nan: "\<not> is_nan a \<Longrightarrow> \<not> is_nan (fmul a (flit 100))"
  by (cases a) (simp_all add: flit_100 fmul_def Let_def fsigned_inf_def)

lemma fadd_sub_not_nan: "is_finite a \<Longrightarrow> is_finite b \<Longrightarrow> \<not> is_nan (fadd a b)" "is_finite a \<Longrightarrow> is_finite b \<Longrightarrow> \<not> is_nan (fsub a b)"
proof -
  show *: "\<not> is_nan (fadd a b)" if "is_finite a" "is_finite b" for a b
    using that by (cases a; cases b) (simp_all add: fadd_def)
  then show "is_finite a \<Longrightarrow> is_finite b \<Longrightarrow> \<not> is_nan (fsub a b)" by (simp add: fsub_def)
qed

lemma derived_value_not_nan:
  assumes "derived_value uni_lower latest def sa = Some v" and "is_finite (SValue sa)"
    and "\<And>k s. latest k = Some s \<Longrightarrow> is_finite (SValue s)"
  shows "\<not> is_nan v"
proof -
  have z: "fval (SValue b) \<noteq> 0" if "is_finite (SValue b)" and "\<not> feq (SValue b) (Fin 0)" for b :: MetricSample
    using that by (auto simp: feq_def fle_fval)
  have "is_finite (SValue b)" if "latest (dc_InputB def) = Some b" for b using assms(3) that by blast
  then show ?thesis
    using assms(1,2) unfolding derived_value_def Let_def
    by (auto split: if_splits option.splits simp: is_finite_not_nan fmul_100_not_nan fdiv_not_nan z fadd_sub_not_nan)
qed

lemma derive_one_mem:
  assumes "r \<in> set (derive_one uni_lower nodeID now latest def)"
  obtains sa v where "latest (dc_InputA def) = Some sa" and "derived_value uni_lower latest def sa = Some v"
    and "Context r = dc_Name def" "Unit r = dc_Unit def" "NodeID r = nodeID" "CollectedAt r = now" "SValue r = v"
proof (cases "latest (dc_InputA def)")
  case (Some sa)
  with assms that show ?thesis by (cases "derived_value uni_lower latest def sa") (simp_all add: derive_one_def)
qed (use assms in \<open>simp add: derive_one_def\<close>)

text \<open>A derived sample is computed, for one of the definitions in their order, from a collected sample
  of the name of its first input, carries the node and the time of the computation, and is never
  NaN when the collected values are finite: no expression divides by zero.\<close>

theorem Compute_sound:
  assumes "\<forall>s \<in> set samples. is_finite (SValue s)" and "r \<in> set (Compute uni_lower nodeID defs samples now)"
  shows "(\<exists>def \<in> set defs. \<exists>a \<in> set samples. sample_id a = dc_InputA def \<and> Context r = dc_Name def \<and> Unit r = dc_Unit def)
    \<and> NodeID r = nodeID \<and> CollectedAt r = now \<and> \<not> is_nan (SValue r)
    \<and> length (Compute uni_lower nodeID defs samples now) \<le> length defs"
proof -
  let ?l = "latest_samples samples"
  obtain def where d: "def \<in> set defs" and m: "r \<in> set (derive_one uni_lower nodeID now ?l def)"
    using assms(2) by (auto simp: Compute_def Let_def split: if_splits)
  from m obtain sa v where a: "?l (dc_InputA def) = Some sa"
    and v: "derived_value uni_lower ?l def sa = Some v"
    and r: "Context r = dc_Name def" "Unit r = dc_Unit def" "NodeID r = nodeID" "CollectedAt r = now" "SValue r = v"
    by (rule derive_one_mem)
  have fin: "is_finite (SValue s)" if "?l k = Some s" for k s
    using assms(1) latest_samples_mem [OF that] by blast
  have "length (concat (map (derive_one uni_lower nodeID now ?l) ds)) \<le> length ds" for ds
    by (induction ds) (auto simp: derive_one_def split: option.splits)
  then have len: "length (Compute uni_lower nodeID defs samples now) \<le> length defs" by (simp add: Compute_def)
  have "\<not> is_nan v" by (rule derived_value_not_nan [OF v fin [OF a] fin])
  with latest_samples_mem [OF a] d r len show ?thesis by blast
qed

definition demo_input :: "string \<Rightarrow> int \<Rightarrow> rat \<Rightarrow> MetricSample" where
  "demo_input d t v = \<lparr>NodeID = ''n1'', CollectedAt = t, Context = ''system.ram'', Chart = [], Family = [],
     Instance = [], Dimension = d, Unit = ''MiB'', SValue = Fin v, SLabels = None\<rparr>"

definition demo_derived :: DerivedContext where
  "demo_derived = \<lparr>dc_Name = ''custom.copy'', dc_Expression = ''a'', dc_InputA = ''system.ram.used'', dc_InputB = [],
     dc_Unit = ''MiB''\<rparr>"

lemma demo_compute: "Compute id ''n1'' [demo_derived] [demo_input ''used'' 5 7] 9 =
  [\<lparr>NodeID = ''n1'', CollectedAt = 9, Context = ''custom.copy'', Chart = ''custom.copy'', Family = [], Instance = [],
    Dimension = ''value'', Unit = ''MiB'', SValue = Fin 7, SLabels = Some [(''derived'', ''true'')]\<rparr>]"
  by (simp add: Compute_def derive_one_def derived_value_def latest_samples_def index_sample_def sample_id_def
      demo_input_def demo_derived_def ToLower_def is_ascii_def ascii_lower_def Let_def)

theorem Compute_sound_witness:
  "CollectedAt (hd (Compute id ''n1'' [demo_derived] [demo_input ''used'' 5 7] 9)) = 9"
proof -
  let ?r = "hd (Compute id ''n1'' [demo_derived] [demo_input ''used'' 5 7] 9)"
  have "\<forall>s \<in> set [demo_input ''used'' 5 7]. is_finite (SValue s)" by (simp add: demo_input_def)
  moreover have "?r \<in> set (Compute id ''n1'' [demo_derived] [demo_input ''used'' 5 7] 9)" unfolding demo_compute by simp
  ultimately show ?thesis by (rule Compute_sound [THEN conjunct2, THEN conjunct2, THEN conjunct1])
qed

end
