(* ===== verification/Reload.thy ===== *)
theory Reload
  imports RateLimit Config
begin

text \<open>
  \<open>internal/reload/reload.go\<close>: the settings that can be read again from the environment while the
  service runs. \<open>Reload\<close> holds the lock for its whole body; \<open>impl\<close> is the platform's conversion of
  a float out of range.
\<close>

record ReloadableConfig =
  rc_logLevel :: string
  rc_rateLimiter :: "rate_limiter option"
  rc_authToken :: string

definition newReloadable :: ReloadableConfig where
  "newReloadable = \<lparr>rc_logLevel = ''info'', rc_rateLimiter = None, rc_authToken = []\<rparr>"

definition Reload :: "(f64 \<Rightarrow> int) \<Rightarrow> environ \<Rightarrow> ReloadableConfig \<Rightarrow> ReloadableConfig" where
  "Reload impl env rc =
     (let rc = (let v = env ''LOG_LEVEL'' in
            if v \<noteq> [] \<and> rc_logLevel rc \<noteq> v then rc\<lparr>rc_logLevel := v\<rparr> else rc);
          rc = (let v = env ''MCP_AUTH_TOKEN'' in if v \<noteq> [] then rc\<lparr>rc_authToken := v\<rparr> else rc)
      in let v = env ''RATE_LIMIT_RPS'' in
         if v = [] then rc
         else case ParseFloat v of
             None \<Rightarrow> rc
           | Some rps \<Rightarrow>
               if flt (Fin 0) rps
               then rc\<lparr>rc_rateLimiter := Some (NewRateLimiter rps (wrap64 (wrap64 (f2i impl rps * 2) + 1)))\<rparr>
               else rc)"

text \<open>The levels of \<open>log/slog\<close>.\<close>

definition ParseLogLevel :: "(string \<Rightarrow> string) \<Rightarrow> string \<Rightarrow> int" where
  "ParseLogLevel uni_lower level =
     (let l = ToLower uni_lower level in
      if l = ''debug'' then - 4
      else if l = ''warn'' \<or> l = ''warning'' then 4
      else if l = ''error'' then 8
      else 0)"

section \<open>The limiter a reload installs\<close>

lemma burst_fits:
  "0 \<le> k \<Longrightarrow> k \<le> 2 ^ 51 \<Longrightarrow> in64 (k * 2) \<and> in64 (k * 2 + 1) \<and> 2 * k + 1 \<le> 2 ^ 53 \<and> 1 \<le> 2 * k + 1"
  by (simp add: in64_def)

lemma reload_burst:
  assumes "is_finite rps" and "flt (Fin 0) rps" and "fval rps \<le> 2 ^ 51"
  shows "wrap64 (wrap64 (f2i impl rps * 2) + 1) = 2 * \<lfloor>fval rps\<rfloor> + 1 \<and> 0 \<le> \<lfloor>fval rps\<rfloor> \<and> \<lfloor>fval rps\<rfloor> \<le> 2 ^ 51"
proof -
  have p: "0 < fval rps" using assms(1,2) by (simp add: flt_fval)
  then have b: "0 \<le> \<lfloor>fval rps\<rfloor>" by simp
  have "(of_int \<lfloor>fval rps\<rfloor> :: rat) \<le> of_int (2 ^ 51)" using of_int_floor_le [of "fval rps"] assms(3) by simp
  then have c: "\<lfloor>fval rps\<rfloor> \<le> 2 ^ 51" by (simp only: of_int_le_iff)
  have "f2i impl rps = \<lfloor>fval rps\<rfloor>"
    using assms(1) p b c by (simp add: f2i_def trunc_rat_def in64_def)
  moreover have "in64 (\<lfloor>fval rps\<rfloor> * 2)" "in64 (\<lfloor>fval rps\<rfloor> * 2 + 1)"
    using burst_fits [OF b c] by blast+
  ultimately show ?thesis using b c by (simp only: wrap64_id) simp
qed

text \<open>A reload installs a well-formed limiter or keeps the old one: when the variable is a positive
  finite rate up to 2^51 the new limiter has the parameters its invariant asks for, an odd burst of
  at least one and no client on record, so every client starts over; with an empty, malformed, zero,
  negative or NaN variable the limiter in use stays.\<close>

theorem Reload_limiter:
  assumes "\<forall>rps. ParseFloat (env ''RATE_LIMIT_RPS'') = Some rps \<and> flt (Fin 0) rps \<longrightarrow> is_finite rps \<and> fval rps \<le> 2 ^ 51"
  shows "rc_rateLimiter (Reload impl env rc) = rc_rateLimiter rc
      \<and> (\<forall>rps. env ''RATE_LIMIT_RPS'' \<noteq> [] \<and> ParseFloat (env ''RATE_LIMIT_RPS'') = Some rps \<longrightarrow> \<not> flt (Fin 0) rps)
    \<or> (\<exists>rps rl. ParseFloat (env ''RATE_LIMIT_RPS'') = Some rps \<and> rc_rateLimiter (Reload impl env rc) = Some rl
        \<and> rl_params_ok (rl_rate rl) (rl_burst rl) \<and> limiter_ok rps (rl_burst rl) t rl
        \<and> odd (rl_burst rl) \<and> rl_visitors rl = Map.empty)"
proof (cases "env ''RATE_LIMIT_RPS'' \<noteq> [] \<and> (\<exists>rps. ParseFloat (env ''RATE_LIMIT_RPS'') = Some rps \<and> flt (Fin 0) rps)")
  case False
  then show ?thesis by (auto simp: Reload_def Let_def split: option.splits)
next
  case True
  then obtain rps where p: "ParseFloat (env ''RATE_LIMIT_RPS'') = Some rps" "flt (Fin 0) rps" by blast
  let ?rl = "NewRateLimiter rps (wrap64 (wrap64 (f2i impl rps * 2) + 1))"
  note b = reload_burst [OF _ p(2), of impl]
  have f: "is_finite rps" "fval rps \<le> 2 ^ 51" using assms p by blast+
  have "2 * \<lfloor>fval rps\<rfloor> + 1 \<le> 2 ^ 53" "1 \<le> 2 * \<lfloor>fval rps\<rfloor> + 1" using burst_fits b [OF f] by blast+
  then have "rl_params_ok (rl_rate ?rl) (rl_burst ?rl)"
    using b [OF f] f p(2) flt_imp_fle by (simp only: rl_params_ok_def NewRateLimiter_def rate_limiter.simps)
  moreover have "rc_rateLimiter (Reload impl env rc) = Some ?rl"
    using True p by (simp add: Reload_def Let_def)
  moreover have "limiter_ok rps (rl_burst ?rl) t ?rl" "odd (rl_burst ?rl)" "rl_visitors ?rl = Map.empty"
    using b [OF f] by (simp_all add: limiter_ok_def NewRateLimiter_def)
  ultimately show ?thesis using p by blast
qed

lemma demo_rate: "ParseFloat (itoa 5) = Some (Fin 5)"
  using ParseFloat_itoa [of 5] by (simp add: of_int64_exact)

theorem Reload_limiter_witness:
  "\<exists>rl. rc_rateLimiter (Reload (\<lambda>_. 0) ((\<lambda>_. [])(''RATE_LIMIT_RPS'' := itoa 5)) newReloadable) = Some rl \<and> odd (rl_burst rl)"
proof -
  let ?env = "(\<lambda>_. [])(''RATE_LIMIT_RPS'' := itoa 5)"
  have "itoa 5 \<noteq> []" by (simp add: itoa_def nat_digits.simps)
  moreover have "\<forall>rps. ParseFloat (?env ''RATE_LIMIT_RPS'') = Some rps \<and> flt (Fin 0) rps \<longrightarrow> is_finite rps \<and> fval rps \<le> 2 ^ 51"
    by (simp add: demo_rate)
  ultimately show ?thesis
    using Reload_limiter [of ?env "\<lambda>_. 0" newReloadable 0] demo_rate by (auto simp: newReloadable_def)
qed

text \<open>A level or a token is replaced exactly when its variable is set; reloading twice is reloading once,
  up to the limiter.\<close>

lemma Reload_strings:
  "rc_logLevel (Reload impl env rc) = (if env ''LOG_LEVEL'' = [] then rc_logLevel rc else env ''LOG_LEVEL'')"
  "rc_authToken (Reload impl env rc) = (if env ''MCP_AUTH_TOKEN'' = [] then rc_authToken rc else env ''MCP_AUTH_TOKEN'')"
  by (auto simp: Reload_def Let_def split: option.splits)

end
