(* ===== verification/Http.thy ===== *)
theory Http
  imports RateLimit RwIngest Config
begin

text \<open>
  The HTTP side of the service: the rate-limiting wrapper and the client address of
  \<open>internal/middleware/ratelimit.go\<close>, and the health handlers, the middlewares and the routing of
  \<open>cmd/netdata-postgres-mcp/main.go\<close>. A handler is a function of the clock reading it makes, the request
  and the state of the service; the MCP server behind the middlewares is a parameter.
\<close>

section \<open>Requests, replies, state\<close>

text \<open>A body: what reading it to the end gives, and the readers of \<open>http.MaxBytesReader\<close> around it.\<close>

datatype body_reader = Body "string + bytes" | MaxBytesReader int body_reader

fun read_all :: "body_reader \<Rightarrow> string + bytes" where
  "read_all (Body b) = b"
| "read_all (MaxBytesReader n r) =
     (case read_all r of
        Inl e \<Rightarrow> Inl e
      | Inr bs \<Rightarrow> if int (length bs) > n then Inl ''http: request body too large'' else Inr bs)"

record http_req =
  hq_method :: string
  hq_path :: string
  hq_header :: "string \<Rightarrow> string"
  hq_query :: "string \<Rightarrow> string"
  hq_remoteAddr :: string
  hq_body :: "body_reader option"

text \<open>A reply: status, headers set, and a body that is a JSON object of strings or a text.\<close>

datatype reply_body = JsonMap "(string \<times> string) list" | PlainBody string

record http_reply =
  hr_status :: int
  hr_headers :: "(string \<times> string) list"
  hr_body :: reply_body

definition json_reply :: "int \<Rightarrow> (string \<times> string) list \<Rightarrow> (string \<times> string) list \<Rightarrow> http_reply" where
  "json_reply status headers obj =
     \<lparr>hr_status = status, hr_headers = (''Content-Type'', ''application/json'') # headers, hr_body = JsonMap obj\<rparr>"

record ('db, 'mcp) service =
  sv_metrics :: Metrics
  sv_limiter :: "rate_limiter option"
  sv_db :: 'db
  sv_mcp :: 'mcp

text \<open>No reply is what a panic leaves.\<close>

type_synonym ('db, 'mcp) handler =
  "int \<Rightarrow> http_req \<Rightarrow> ('db, 'mcp) service \<Rightarrow> http_reply option \<times> ('db, 'mcp) service"

definition count_metric :: "(Metrics \<Rightarrow> Metrics) \<Rightarrow> ('db, 'mcp) service \<Rightarrow> ('db, 'mcp) service" where
  "count_metric f sv = sv\<lparr>sv_metrics := f (sv_metrics sv)\<rparr>"

section \<open>The client address\<close>

text \<open>\<open>net.SplitHostPort\<close>: the host and the port, or an error.\<close>

definition LastIndexByte :: "string \<Rightarrow> char \<Rightarrow> int" where
  "LastIndexByte s c = (let i = IndexByte (rev s) c in if i < 0 then - 1 else int (length s) - 1 - i)"

definition no_brackets :: "string \<Rightarrow> string \<Rightarrow> bool" where
  "no_brackets s t \<longleftrightarrow> IndexByte s (CHR ''['') < 0 \<and> IndexByte t (CHR '']'') < 0"

definition SplitHostPort :: "string \<Rightarrow> (string \<times> string) option" where
  "SplitHostPort s =
     (let i = LastIndexByte s (CHR '':'') in
      if i < 0 then None
      else if hd s = CHR ''['' then
        (let close = IndexByte s (CHR '']'') in
         if close < 0 \<or> close + 1 \<noteq> i then None
         else if no_brackets (drop 1 s) (drop (nat close + 1) s)
         then Some (take (nat close - 1) (drop 1 s), drop (nat i + 1) s) else None)
      else
        (let host = take (nat i) s in
         if IndexByte host (CHR '':'') \<ge> 0 \<or> \<not> no_brackets s s then None
         else Some (host, drop (nat i + 1) s)))"

text \<open>\<open>trust\<close> is the package variable \<open>TrustProxy\<close>, false by default.\<close>

definition extractIP :: "bool \<Rightarrow> http_req \<Rightarrow> string" where
  "extractIP trust r =
     (let xff = hq_header r ''X-Forwarded-For''; xri = hq_header r ''X-Real-IP'' in
      if trust \<and> xff \<noteq> [] then TrimSpace (takeWhile (\<lambda>c. c \<noteq> CHR '','') xff)
      else if trust \<and> xri \<noteq> [] then xri
      else case SplitHostPort (hq_remoteAddr r) of
          None \<Rightarrow> hq_remoteAddr r
        | Some (ip, port) \<Rightarrow> ip)"

section \<open>The middlewares\<close>

definition em_dash :: string where "em_dash = map chr [0xE2, 0x80, 0x94]"

definition rate_limit_reply :: http_reply where
  "rate_limit_reply = json_reply 429 [(''Retry-After'', ''1'')]
     [(''error'', ''rate limit exceeded '' @ em_dash @ '' try again later'')]"

definition rateLimitHandler :: "bool \<Rightarrow> ('db, 'mcp) handler \<Rightarrow> ('db, 'mcp) handler" where
  "rateLimitHandler trust next now r sv =
     (case sv_limiter sv of
        None \<Rightarrow> next now r sv
      | Some rl \<Rightarrow>
          (case rl_Allow now (extractIP trust r) rl of
             (False, rl') \<Rightarrow>
               (Some rate_limit_reply,
                count_metric (\<lambda>m. m\<lparr>RateLimitRejects := add64 1 (RateLimitRejects m)\<rparr>) (sv\<lparr>sv_limiter := Some rl'\<rparr>))
           | (True, rl') \<Rightarrow> next now r (sv\<lparr>sv_limiter := Some rl'\<rparr>)))"

definition unauthorized_reply :: http_reply where
  "unauthorized_reply = json_reply 401 []
     [(''error'', ''unauthorized '' @ em_dash @ '' provide Authorization: Bearer <token>'')]"

definition presented_auth :: "http_req \<Rightarrow> string" where
  "presented_auth r =
     (let auth = hq_header r ''Authorization''; q = hq_query r ''token'' in
      if auth = [] \<and> q \<noteq> [] then ''Bearer '' @ q else auth)"

definition authMiddleware :: "string \<Rightarrow> ('db, 'mcp) handler \<Rightarrow> ('db, 'mcp) handler" where
  "authMiddleware token next now r sv =
     (if presented_auth r \<noteq> ''Bearer '' @ token
      then (Some unauthorized_reply, count_metric (\<lambda>m. m\<lparr>AuthFailures := add64 1 (AuthFailures m)\<rparr>) sv)
      else next now r sv)"

definition limit_body :: "int \<Rightarrow> http_req \<Rightarrow> http_req" where
  "limit_body maxBytes r = r\<lparr>hq_body := map_option (MaxBytesReader maxBytes) (hq_body r)\<rparr>"

definition maxBodyMiddleware :: "int \<Rightarrow> ('db, 'mcp) handler \<Rightarrow> ('db, 'mcp) handler" where
  "maxBodyMiddleware maxBytes next now r sv = next now (limit_body maxBytes r) sv"

section \<open>The endpoints\<close>

definition healthzHandler :: "string \<Rightarrow> ('db, 'mcp) handler" where
  "healthzHandler version now r sv = (Some (json_reply 200 [] [(''status'', ''ok''), (''version'', version)]), sv)"

text \<open>\<open>ping\<close> is the pool's \<open>Ping\<close> within its three seconds.\<close>

definition readyzHandler :: "('db \<Rightarrow> string option) \<Rightarrow> ('db, 'mcp) handler" where
  "readyzHandler ping now r sv =
     (case ping (sv_db sv) of
        Some e \<Rightarrow> (Some (json_reply 503 [] [(''status'', ''error''), (''reason'', ''database unreachable'')]), sv)
      | None \<Rightarrow> (Some (json_reply 200 [] [(''status'', ''ready'')]), sv))"

definition metricsHandler :: "('db, 'mcp) handler" where
  "metricsHandler now r sv =
     (Some \<lparr>hr_status = 200, hr_headers = [(''Content-Type'', ''text/plain; version=0.0.4; charset=utf-8'')],
            hr_body = PlainBody (Handler (sv_metrics sv))\<rparr>, sv)"

definition rw_headers :: "reply \<Rightarrow> (string \<times> string) list" where
  "rw_headers p = (if rp_status p = 204 then []
     else [(''Content-Type'', ''text/plain; charset=utf-8''), (''X-Content-Type-Options'', ''nosniff'')])"

definition writeHandler :: "('db, 'tx) pg \<Rightarrow> (bytes \<Rightarrow> string + bytes) \<Rightarrow> RwHandler \<Rightarrow> ('db, 'mcp) handler" where
  "writeHandler pg snappy h now r sv =
     (let body = (case hq_body r of None \<Rightarrow> Inr [] | Some b \<Rightarrow> read_all b);
          (rep, st) = ServeHTTP pg snappy h \<lparr>rq_method = hq_method r, rq_body = body\<rparr>
            \<lparr>rw_db = sv_db sv, rw_metrics = sv_metrics sv\<rparr>
      in (map_option (\<lambda>p. \<lparr>hr_status = rp_status p, hr_headers = rw_headers p, hr_body = PlainBody (rp_body p)\<rparr>) rep,
          sv\<lparr>sv_db := rw_db st, sv_metrics := rw_metrics st\<rparr>))"

text \<open>The MCP server on its own state and the database.\<close>

type_synonym ('db, 'mcp) mcp_server = "http_req \<Rightarrow> 'db \<times> 'mcp \<Rightarrow> http_reply option \<times> 'db \<times> 'mcp"

definition sseHandler :: "('db, 'mcp) mcp_server \<Rightarrow> ('db, 'mcp) handler" where
  "sseHandler sse now r sv =
     (let (rep, db, m) = sse r (sv_db sv, sv_mcp sv) in (rep, sv\<lparr>sv_db := db, sv_mcp := m\<rparr>))"

text \<open>The wrapping of the MCP endpoints, in the order of \<open>runService\<close>.\<close>

definition mcpHandler :: "Config \<Rightarrow> bool \<Rightarrow> ('db, 'mcp) mcp_server \<Rightarrow> ('db, 'mcp) handler" where
  "mcpHandler cfg trust sse =
     (let h = maxBodyMiddleware (2 ^ 20) (sseHandler sse);
          h = (if MCPAuthToken cfg \<noteq> [] then authMiddleware (MCPAuthToken cfg) (sseHandler sse) else h);
          h = (if flt (Fin 0) (RateLimitRPS cfg) then rateLimitHandler trust h else h)
      in h)"

text \<open>The limiter \<open>runService\<close> builds.\<close>

definition service_limiter :: "(f64 \<Rightarrow> int) \<Rightarrow> Config \<Rightarrow> rate_limiter option" where
  "service_limiter impl cfg =
     (if flt (Fin 0) (RateLimitRPS cfg)
      then Some (NewRateLimiter (RateLimitRPS cfg) (wrap64 (wrap64 (f2i impl (RateLimitRPS cfg) * 2) + 1))) else None)"

text \<open>The remote-write handler and the routes; the path is that of the request after the multiplexer has
  cleaned it.\<close>

definition rw_handler_of :: "Config \<Rightarrow> RwHandler" where
  "rw_handler_of cfg = NewHandler (if CfgNodeID cfg = [] then ''remote-write'' else CfgNodeID cfg)"

definition service_mux :: "Config \<Rightarrow> bool \<Rightarrow> string \<Rightarrow> ('db, 'tx) pg \<Rightarrow> ('db \<Rightarrow> string option) \<Rightarrow> (bytes \<Rightarrow> string + bytes)
    \<Rightarrow> ('db, 'mcp) mcp_server \<Rightarrow> ('db, 'mcp) handler" where
  "service_mux cfg trust version pg ping snappy sse now r =
     (if hq_path r = ''/healthz'' then healthzHandler version now r
      else if hq_path r = ''/readyz'' then readyzHandler ping now r
      else if hq_path r = ''/metrics'' then metricsHandler now r
      else if hq_path r = ''/api/v1/write'' then writeHandler pg snappy (rw_handler_of cfg) now r
      else mcpHandler cfg trust sse now r)"

section \<open>The contract of a middleware\<close>

text \<open>
  A middleware either answers a request itself or passes it on, possibly changed. When it answers, the
  wrapped handler is not consulted, and neither the database nor the MCP server is touched.
\<close>

locale middleware =
  fixes mw :: "('db, 'mcp) handler \<Rightarrow> ('db, 'mcp) handler"
    and verdict :: "int \<Rightarrow> http_req \<Rightarrow> ('db, 'mcp) service \<Rightarrow> http_reply option \<times> ('db, 'mcp) service"
    and pass :: "http_req \<Rightarrow> http_req"
  assumes law: "mw next now r sv = (case verdict now r sv of
      (Some rep, sv') \<Rightarrow> (Some rep, sv') | (None, sv') \<Rightarrow> next now (pass r) sv')"
    and app_kept: "verdict now r sv = (v, sv') \<Longrightarrow> sv_db sv' = sv_db sv \<and> sv_mcp sv' = sv_mcp sv"
begin

lemma answered: "verdict now r sv = (Some rep, sv') \<Longrightarrow> mw next now r sv = (Some rep, sv')
    \<and> sv_db sv' = sv_db sv \<and> sv_mcp sv' = sv_mcp sv"
  using app_kept by (simp add: law)

lemma passed: "verdict now r sv = (None, sv') \<Longrightarrow> mw next now r sv = next now (pass r) sv'"
  by (simp add: law)

end

definition auth_verdict :: "string \<Rightarrow> int \<Rightarrow> http_req \<Rightarrow> ('db, 'mcp) service \<Rightarrow> http_reply option \<times> ('db, 'mcp) service" where
  "auth_verdict token now r sv =
     (if presented_auth r \<noteq> ''Bearer '' @ token
      then (Some unauthorized_reply, count_metric (\<lambda>m. m\<lparr>AuthFailures := add64 1 (AuthFailures m)\<rparr>) sv)
      else (None, sv))"

definition rate_verdict :: "bool \<Rightarrow> int \<Rightarrow> http_req \<Rightarrow> ('db, 'mcp) service \<Rightarrow> http_reply option \<times> ('db, 'mcp) service" where
  "rate_verdict trust now r sv =
     (case sv_limiter sv of
        None \<Rightarrow> (None, sv)
      | Some rl \<Rightarrow>
          (case rl_Allow now (extractIP trust r) rl of
             (False, rl') \<Rightarrow>
               (Some rate_limit_reply,
                count_metric (\<lambda>m. m\<lparr>RateLimitRejects := add64 1 (RateLimitRejects m)\<rparr>) (sv\<lparr>sv_limiter := Some rl'\<rparr>))
           | (True, rl') \<Rightarrow> (None, sv\<lparr>sv_limiter := Some rl'\<rparr>)))"

interpretation auth: middleware "authMiddleware token" "auth_verdict token" id for token
  by unfold_locales (auto simp: authMiddleware_def auth_verdict_def count_metric_def split: if_splits)

interpretation rate: middleware "rateLimitHandler trust" "rate_verdict trust" id for trust
  by unfold_locales (auto simp: rateLimitHandler_def rate_verdict_def count_metric_def split: option.splits prod.splits bool.splits)

interpretation body: middleware "maxBodyMiddleware n" "\<lambda>now r sv. (None, sv)" "limit_body n" for n
  by unfold_locales (auto simp: maxBodyMiddleware_def)

section \<open>What the middlewares guarantee\<close>

definition endpoint_paths :: "string list" where
  "endpoint_paths = [''/healthz'', ''/readyz'', ''/metrics'', ''/api/v1/write'']"

text \<open>A run of requests, each with the clock reading of the limiter.\<close>

fun serve_run :: "('db, 'mcp) handler \<Rightarrow> (int \<times> http_req) list \<Rightarrow> ('db, 'mcp) service
    \<Rightarrow> http_reply option list \<times> ('db, 'mcp) service" where
  "serve_run h [] sv = ([], sv)"
| "serve_run h ((now, r) # reqs) sv =
     (let (rep, sv) = h now r sv; (reps, sv) = serve_run h reqs sv in (rep # reps, sv))"

definition refusals :: "Metrics \<Rightarrow> int" where
  "refusals m = (AuthFailures m + RateLimitRejects m) mod 2 ^ 64"

lemma refusals_count:
  "refusals (m\<lparr>AuthFailures := add64 1 (AuthFailures m)\<rparr>) = (refusals m + 1) mod 2 ^ 64"
  "refusals (m\<lparr>RateLimitRejects := add64 1 (RateLimitRejects m)\<rparr>) = (refusals m + 1) mod 2 ^ 64"
proof -
  have a: "(add64 1 x + y) mod 2 ^ 64 = (x + y + 1) mod 2 ^ 64" "(y + add64 1 x) mod 2 ^ 64 = (y + x + 1) mod 2 ^ 64" for x y
    using mod_add_cong [OF wrap64_cong [of "x + 1"] refl, of y] mod_add_cong [OF refl wrap64_cong [of "x + 1"], of y]
    by (simp_all add: add64_def ac_simps)
  show "refusals (m\<lparr>AuthFailures := add64 1 (AuthFailures m)\<rparr>) = (refusals m + 1) mod 2 ^ 64"
    "refusals (m\<lparr>RateLimitRejects := add64 1 (RateLimitRejects m)\<rparr>) = (refusals m + 1) mod 2 ^ 64"
    unfolding refusals_def by (simp_all add: a [simplified] mod_simps)
qed

text \<open>A request refused: answered 401 or 429, nothing touched, counted once.\<close>

definition refused :: "('db, 'mcp) service \<Rightarrow> http_reply option \<times> ('db, 'mcp) service \<Rightarrow> bool" where
  "refused sv res \<longleftrightarrow> (\<exists>p. fst res = Some p \<and> hr_status p \<in> {401, 429})
     \<and> sv_db (snd res) = sv_db sv \<and> sv_mcp (snd res) = sv_mcp sv
     \<and> refusals (sv_metrics (snd res)) = (refusals (sv_metrics sv) + 1) mod 2 ^ 64"

lemma reply_status: "hr_status unauthorized_reply = 401" "hr_status rate_limit_reply = 429"
  by (simp_all add: unauthorized_reply_def rate_limit_reply_def json_reply_def)

lemma auth_refuses: "presented_auth r \<noteq> ''Bearer '' @ token \<Longrightarrow> refused sv (authMiddleware token next now r sv)"
  by (simp add: authMiddleware_def refused_def count_metric_def refusals_count(1) reply_status)

lemma rate_refuses: "rate_verdict trust now r sv = (Some rep, sv') \<Longrightarrow> refused sv (Some rep, sv')"
  by (auto simp: rate_verdict_def refused_def count_metric_def refusals_count(2) reply_status
      split: option.splits prod.splits bool.splits)

lemma rate_passes: "rate_verdict trust now r sv = (None, sv') \<Longrightarrow> sv_metrics sv' = sv_metrics sv"
  by (auto simp: rate_verdict_def split: option.splits prod.splits bool.splits)

lemma mcp_refuses:
  assumes "MCPAuthToken cfg \<noteq> []" and "presented_auth r \<noteq> ''Bearer '' @ MCPAuthToken cfg"
  shows "refused sv (mcpHandler cfg trust sse now r sv)"
proof -
  let ?next = "authMiddleware (MCPAuthToken cfg) (sseHandler sse)"
  have auth: "refused s (?next now r s)" for s by (rule auth_refuses [OF assms(2)])
  obtain v sv1 where v: "rate_verdict trust now r sv = (v, sv1)" by fastforce
  have "refused sv (rateLimitHandler trust ?next now r sv)"
  proof (cases v)
    case None
    have "rateLimitHandler trust ?next now r sv = ?next now r sv1"
      using rate.passed [OF v [unfolded None], of ?next] by simp
    with auth [of sv1] rate.app_kept [OF v] rate_passes [OF v [unfolded None]] show ?thesis
      by (simp only: refused_def)
  next
    case (Some rep)
    with rate.answered [OF v [unfolded Some], of ?next] rate_refuses [OF v [unfolded Some]] show ?thesis by simp
  qed
  with assms(1) auth show ?thesis by (simp only: mcpHandler_def Let_def not_False_eq_True if_True split: if_split) simp
qed

text \<open>C5. Without the token nobody reaches the MCP server. When a token is configured, any run of requests
  that are not for the four public endpoints and do not present it is answered 401 or 429 each time,
  leaves the database and the MCP server as they were, and is counted request by request.\<close>

theorem mcp_needs_token:
  assumes "MCPAuthToken cfg \<noteq> []"
    and "\<forall>(now, r) \<in> set reqs. hq_path r \<notin> set endpoint_paths \<and> presented_auth r \<noteq> ''Bearer '' @ MCPAuthToken cfg"
    and "serve_run (service_mux cfg trust version pg ping snappy sse) reqs sv = (reps, sv')"
  shows "length reps = length reqs \<and> (\<forall>rep \<in> set reps. \<exists>p. rep = Some p \<and> hr_status p \<in> {401, 429})
    \<and> sv_db sv' = sv_db sv \<and> sv_mcp sv' = sv_mcp sv
    \<and> refusals (sv_metrics sv') = (refusals (sv_metrics sv) + int (length reqs)) mod 2 ^ 64"
  using assms(2,3)
proof (induction reqs arbitrary: sv reps)
  case Nil
  then show ?case by (simp add: refusals_def)
next
  case (Cons q reqs)
  obtain now r where q: "q = (now, r)" by fastforce
  have p: "hq_path r \<notin> set endpoint_paths" "presented_auth r \<noteq> ''Bearer '' @ MCPAuthToken cfg"
    using Cons.prems(1) q by auto
  have m: "service_mux cfg trust version pg ping snappy sse now r sv = mcpHandler cfg trust sse now r sv"
    using p(1) by (simp add: service_mux_def endpoint_paths_def)
  obtain rep sv1 where r: "mcpHandler cfg trust sse now r sv = (Some rep, sv1)" "hr_status rep \<in> {401, 429}"
    "sv_db sv1 = sv_db sv" "sv_mcp sv1 = sv_mcp sv" "refusals (sv_metrics sv1) = (refusals (sv_metrics sv) + 1) mod 2 ^ 64"
    using mcp_refuses [OF assms(1) p(2), of sv trust sse now] unfolding refused_def by (metis prod.collapse)
  obtain reps' sv2 where s: "serve_run (service_mux cfg trust version pg ping snappy sse) reqs sv1 = (reps', sv2)" by fastforce
  have e: "reps = Some rep # reps'" "sv2 = sv'" using Cons.prems(2) q m r(1) s by auto
  have "\<forall>(now, r) \<in> set reqs. hq_path r \<notin> set endpoint_paths \<and> presented_auth r \<noteq> ''Bearer '' @ MCPAuthToken cfg"
    using Cons.prems(1) by simp
  from Cons.IH [OF this s [unfolded e(2)]] r e show ?case
    by (auto simp: mod_simps ac_simps)
qed

definition demo_cfg :: Config where
  "demo_cfg = Defaults\<lparr>MCPAuthToken := ''secret'', RateLimitRPS := Fin 1\<rparr>"

definition demo_req :: "string \<Rightarrow> string \<Rightarrow> http_req" where
  "demo_req path auth = \<lparr>hq_method = ''GET'', hq_path = path,
     hq_header = (\<lambda>h. if h = ''Authorization'' then auth else []), hq_query = \<lambda>_. [],
     hq_remoteAddr = ''10.0.0.1:99'', hq_body = None\<rparr>"

definition demo_service :: "(tables, int) service" where
  "demo_service = \<lparr>sv_metrics = Global, sv_limiter = Some (NewRateLimiter (Fin 1) 3), sv_db = demo_tables, sv_mcp = 0\<rparr>"

theorem mcp_needs_token_witness:
  "sv_mcp (snd (serve_run (service_mux demo_cfg False ''dev'' ref_pg (\<lambda>_. None) Inr (\<lambda>r (db, n). (None, db, n + 1)))
     [(1, demo_req ''/sse'' ''Bearer guess''), (2, demo_req ''/message'' [])] demo_service)) = 0"
proof -
  let ?run = "serve_run (service_mux demo_cfg False ''dev'' ref_pg (\<lambda>_. None) Inr (\<lambda>r (db, n). (None, db, n + 1)))
     [(1, demo_req ''/sse'' ''Bearer guess''), (2, demo_req ''/message'' [])] demo_service"
  have t: "MCPAuthToken demo_cfg \<noteq> []" by (simp add: demo_cfg_def)
  have p: "\<forall>(now, r) \<in> set [(1 :: int, demo_req ''/sse'' ''Bearer guess''), (2, demo_req ''/message'' [])].
      hq_path r \<notin> set endpoint_paths \<and> presented_auth r \<noteq> ''Bearer '' @ MCPAuthToken demo_cfg"
    by (simp add: demo_req_def endpoint_paths_def presented_auth_def demo_cfg_def Let_def)
  have "sv_mcp (snd ?run) = sv_mcp demo_service"
    by (rule mcp_needs_token [OF t p prod.collapse [symmetric], THEN conjunct2, THEN conjunct2, THEN conjunct2, THEN conjunct1])
  then show ?thesis by (simp add: demo_service_def)
qed

section \<open>The client's bucket\<close>

text \<open>An address as the server writes it: \<open>host:port\<close>, brackets around a host with a colon.\<close>

definition plain_part :: "string \<Rightarrow> bool" where
  "plain_part s \<longleftrightarrow> CHR ''['' \<notin> set s \<and> CHR '']'' \<notin> set s"

definition JoinHostPort :: "string \<Rightarrow> string \<Rightarrow> string" where
  "JoinHostPort host port =
     (if CHR '':'' \<in> set host then ''['' @ host @ '']:'' @ port else host @ '':'' @ port)"

lemma IndexByte_at: "c \<notin> set u \<Longrightarrow> IndexByte (u @ c # v) c = int (length u)"
  by (induction u) (auto simp: Let_def)

lemma LastIndexByte_at: "c \<notin> set v \<Longrightarrow> LastIndexByte (u @ c # v) c = int (length u)"
  by (simp add: LastIndexByte_def IndexByte_at Let_def)

lemma IndexByte_none: "c \<notin> set s \<Longrightarrow> IndexByte s c = - 1"
  by (induction s) (auto simp: Let_def)

lemma SplitHostPort_Join:
  assumes "plain_part host" and "plain_part port" and "CHR '':'' \<notin> set port"
  shows "SplitHostPort (JoinHostPort host port) = Some (host, port)"
proof (cases "CHR '':'' \<in> set host")
  case True
  have i: "LastIndexByte ((''['' @ host @ '']'') @ CHR '':'' # port) (CHR '':'') = int (length (''['' @ host @ '']''))"
    by (rule LastIndexByte_at [OF assms(3)])
  have c: "IndexByte ((CHR ''['' # host) @ CHR '']'' # CHR '':'' # port) (CHR '']'') = int (length (CHR ''['' # host))"
    by (rule IndexByte_at) (use assms(1) in \<open>simp add: plain_part_def\<close>)
  from assms True i c show ?thesis
    by (simp add: JoinHostPort_def SplitHostPort_def no_brackets_def plain_part_def IndexByte_neg_iff Let_def nat_add_distrib)
next
  case False
  have i: "LastIndexByte (host @ CHR '':'' # port) (CHR '':'') = int (length host)"
    by (rule LastIndexByte_at [OF assms(3)])
  have "hd (host @ CHR '':'' # port) \<noteq> CHR ''[''"
    using assms(1) by (cases host) (auto simp: plain_part_def)
  with assms False i show ?thesis
    by (simp add: JoinHostPort_def SplitHostPort_def no_brackets_def plain_part_def IndexByte_neg_iff IndexByte_none Let_def)
qed

text \<open>Without a trusted proxy a client is its address: whatever headers it sends and whatever port it
  connects from, the limiter is asked for the host alone, for IPv4, IPv6 and names.\<close>

theorem client_is_its_host:
  assumes "plain_part host" and "plain_part port" and "CHR '':'' \<notin> set port"
    and "hq_remoteAddr r = JoinHostPort host port" and "sv_limiter sv = Some rl"
  shows "extractIP False r = host
    \<and> (fst (rl_Allow now host rl) = False \<longrightarrow> fst (rateLimitHandler False next now r sv) = Some rate_limit_reply)
    \<and> (fst (rl_Allow now host rl) = True \<longrightarrow>
        rateLimitHandler False next now r sv = next now r (sv\<lparr>sv_limiter := Some (snd (rl_Allow now host rl))\<rparr>))"
proof -
  have "extractIP False r = host"
    by (simp add: extractIP_def assms(4) SplitHostPort_Join [OF assms(1-3)])
  with assms(5) show ?thesis
    by (simp add: rateLimitHandler_def split: prod.splits bool.splits)
qed

theorem client_is_its_host_witness: "extractIP False (demo_req ''/sse'' []) = ''10.0.0.1''"
  by (rule client_is_its_host [where port = "''99''" and sv = demo_service, THEN conjunct1])
    (simp_all add: plain_part_def demo_req_def JoinHostPort_def demo_service_def)

section \<open>The body limit\<close>

text \<open>The limit of 1 MiB is lost when a token is configured. Without a token every MCP request is
  given to the server with its body limited, so that reading a longer body fails; with a token the
  server is given the request as it came.\<close>

theorem body_limit_lost:
  assumes "\<not> flt (Fin 0) (RateLimitRPS cfg)" and "hq_body r = Some (Body (Inr bs))"
  shows "(MCPAuthToken cfg = [] \<longrightarrow>
        mcpHandler cfg trust sse now r sv = sseHandler sse now (limit_body (2 ^ 20) r) sv
        \<and> (int (length bs) > 2 ^ 20 \<longrightarrow>
            map_option read_all (hq_body (limit_body (2 ^ 20) r)) = Some (Inl ''http: request body too large'')))
    \<and> (MCPAuthToken cfg \<noteq> [] \<and> presented_auth r = ''Bearer '' @ MCPAuthToken cfg \<longrightarrow>
        mcpHandler cfg trust sse now r sv = sseHandler sse now r sv
        \<and> map_option read_all (hq_body r) = Some (Inr bs))"
  using assms by (simp add: mcpHandler_def body.passed authMiddleware_def limit_body_def)

theorem body_limit_lost_witness:
  "mcpHandler (demo_cfg\<lparr>RateLimitRPS := Fin 0\<rparr>) False (\<lambda>r (db, n). (None, db, n + 1)) 0
      ((demo_req ''/message'' ''Bearer secret'')\<lparr>hq_body := Some (Body (Inr (replicate (2 ^ 21) 0)))\<rparr>) demo_service
    = sseHandler (\<lambda>r (db, n). (None, db, n + 1)) 0 ((demo_req ''/message'' ''Bearer secret'')\<lparr>hq_body := Some (Body (Inr (replicate (2 ^ 21) 0)))\<rparr>) demo_service"
proof -
  let ?cfg = "demo_cfg\<lparr>RateLimitRPS := Fin 0\<rparr>"
  let ?r = "(demo_req ''/message'' ''Bearer secret'')\<lparr>hq_body := Some (Body (Inr (replicate (2 ^ 21) 0)))\<rparr>"
  have token: "MCPAuthToken ?cfg \<noteq> [] \<and> presented_auth ?r = ''Bearer '' @ MCPAuthToken ?cfg"
    by (simp add: demo_req_def presented_auth_def demo_cfg_def)
  have body: "hq_body (q\<lparr>hq_body := b\<rparr>) = b" for q :: http_req and b by simp
  have unlimited: "\<not> flt (Fin 0) (RateLimitRPS ?cfg)" by simp
  show ?thesis by (rule body_limit_lost [OF unlimited body, THEN conjunct2, THEN mp, OF token, THEN conjunct1])
qed

end
