(* ===== verification/Service.thy ===== *)
theory Service
  imports Scheduler Http
begin

text \<open>
  The commands of \<open>cmd/netdata-postgres-mcp/main.go\<close>: what each does with the configuration, the
  database and the collectors, as an exit status and what is left in the database; the set-up of
  the schedulers and the reload of the configuration on SIGHUP. Connecting, the network and the
  host name are parameters.
\<close>

section \<open>The command line\<close>

datatype cli_action = RunMigrate | RunCollectOnce | RunService | RunMCPOnly | ShowVersion | ShowHelp | UsageError

text \<open>\<open>args\<close> is \<open>os.Args\<close>, the program's name first.\<close>

definition main_action :: "string list \<Rightarrow> cli_action" where
  "main_action args =
     (if length args < 2 then UsageError
      else let cmd = args ! 1 in
        if cmd = ''migrate'' then RunMigrate
        else if cmd = ''collect-once'' then RunCollectOnce
        else if cmd = ''run'' then RunService
        else if cmd = ''mcp'' then RunMCPOnly
        else if cmd \<in> set [''version'', ''--version'', ''-v''] then ShowVersion
        else if cmd \<in> set [''help'', ''--help'', ''-h''] then ShowHelp
        else UsageError)"

text \<open>The level of the logger and whether it writes JSON.\<close>

definition newLogger :: "(string \<Rightarrow> string) \<Rightarrow> string \<Rightarrow> string \<Rightarrow> int \<times> bool" where
  "newLogger uni_lower level format =
     (let l = ToLower uni_lower level in
      (if l = ''debug'' then - 4
       else if l = ''warn'' \<or> l = ''warning'' then 4
       else if l = ''error'' then 8
       else 0, ToLower uni_lower format = ''json''))"

section \<open>The one-shot commands\<close>

text \<open>What the commands meet outside: reading JSON, float conversion out of range, the host name, the
  network of each base URL, and the network and the clock of each collection attempt.\<close>

record outside =
  os_parse :: "string \<Rightarrow> json option"
  os_impl :: "f64 \<Rightarrow> int"
  os_hostname :: "string + string"
  os_info :: "string \<Rightarrow> transport"
  os_net :: "nat \<Rightarrow> transport"
  os_clock :: "nat \<Rightarrow> int"

definition hostname_or_empty :: "outside \<Rightarrow> string" where
  "hostname_or_empty o_s = (case os_hostname o_s of Inl e \<Rightarrow> [] | Inr h \<Rightarrow> h)"

definition runMigrate :: "('db, 'tx) pg \<Rightarrow> dir_entry list \<Rightarrow> (string \<Rightarrow> string + 'db) \<Rightarrow> Config \<times> string option \<Rightarrow> int \<times> 'db option" where
  "runMigrate pg entries connect loaded =
     (case loaded of
        (cfg, Some e) \<Rightarrow> (1, None)
      | (cfg, None) \<Rightarrow>
          (case connect (PostgresDSN cfg) of
             Inl e \<Rightarrow> (1, None)
           | Inr db \<Rightarrow>
               (case Migrate pg entries db of
                  (Some e, db') \<Rightarrow> (1, Some db')
                | (None, db') \<Rightarrow> (0, Some db'))))"

definition fresh_world :: "scheduler \<Rightarrow> 'db \<Rightarrow> 'db world" where
  "fresh_world s db =
     \<lparr>w_sched = s, w_breaker = scheduler_breaker, w_db = db, w_metrics = Global, w_retention = None\<rparr>"

definition runCollectOnce :: "('db, 'tx) pg \<Rightarrow> (string \<Rightarrow> string + 'db) \<Rightarrow> outside \<Rightarrow> cycle_env \<Rightarrow> Config \<times> string option
    \<Rightarrow> int \<times> 'db option" where
  "runCollectOnce pg connect o_s env loaded =
     (case loaded of
        (cfg, Some e) \<Rightarrow> (1, None)
      | (cfg, None) \<Rightarrow>
          (case connect (PostgresDSN cfg) of
             Inl e \<Rightarrow> (1, None)
           | Inr db \<Rightarrow>
               let col = newCollector (NetdataBaseURL cfg) (NetdataAPIKey cfg) (CfgNodeID cfg)
                     (EnabledContexts cfg) (CollectionIntervalSeconds cfg)
               in case ResolveNodeID (os_parse o_s) (os_info o_s (NetdataBaseURL cfg)) (os_hostname o_s) col of
                    (Inl e, col) \<Rightarrow> (1, Some db)
                  | (Inr nodeID, col) \<Rightarrow>
                      let s = newScheduler (CollectionIntervalSeconds cfg) nodeID (hostname_or_empty o_s) (NetdataBaseURL cfg);
                          env = with_collector (os_parse o_s) (os_impl o_s) col (os_net o_s) (os_clock o_s) env
                      in case collectOnce pg env (fresh_world s db) of
                           (Some e, w) \<Rightarrow> (1, Some (w_db w))
                         | (None, w) \<Rightarrow> (0, Some (w_db w))))"

section \<open>The service\<close>

text \<open>One scheduler with its collector per node of the configuration; the first node whose id cannot be
  resolved ends the program.\<close>

definition set_retention :: "int \<Rightarrow> scheduler \<Rightarrow> scheduler" where
  "set_retention days s = s\<lparr>s_retentionDays := days\<rparr>"

definition build_scheduler :: "outside \<Rightarrow> Config \<Rightarrow> NodeConfig \<Rightarrow> string + scheduler \<times> collector" where
  "build_scheduler o_s cfg n =
     (let col = newCollector (BaseURL n) (NodeAPIKey n) (ConfiguredID n) (EnabledContexts cfg) (CollectionIntervalSeconds cfg)
      in case ResolveNodeID (os_parse o_s) (os_info o_s (BaseURL n)) (os_hostname o_s) col of
           (Inl e, col) \<Rightarrow> Inl e
         | (Inr nodeID, col) \<Rightarrow>
             Inr (set_retention (RetentionDays cfg)
                    (newScheduler (CollectionIntervalSeconds cfg) nodeID (hostname_or_empty o_s) (BaseURL n)), col))"

fun build_schedulers :: "outside \<Rightarrow> Config \<Rightarrow> NodeConfig list \<Rightarrow> string + (scheduler \<times> collector) list" where
  "build_schedulers o_s cfg [] = Inr []"
| "build_schedulers o_s cfg (n # ns) =
     (case build_scheduler o_s cfg n of
        Inl e \<Rightarrow> Inl e
      | Inr sc \<Rightarrow> (case build_schedulers o_s cfg ns of Inl e \<Rightarrow> Inl e | Inr scs \<Rightarrow> Inr (sc # scs)))"

text \<open>SIGHUP: what loading the configuration again gives, applied to the configuration and the schedulers.\<close>

definition sighup :: "Config \<times> string option \<Rightarrow> Config \<times> scheduler list \<Rightarrow> Config \<times> scheduler list" where
  "sighup loaded st =
     (case loaded of
        (newCfg, Some e) \<Rightarrow> st
      | (newCfg, None) \<Rightarrow>
          (case st of (cfg, ss) \<Rightarrow>
             (newCfg, if RetentionDays newCfg \<noteq> RetentionDays cfg then map (set_retention (RetentionDays newCfg)) ss else ss)))"

text \<open>The start of \<open>run\<close> up to serving: a failure ends the program with status 1, otherwise the schedulers run
  and the endpoints are served. \<open>connect\<close> opens the store with the pool options of the configuration.\<close>

definition pool_options :: "Config \<Rightarrow> PoolOptions" where
  "pool_options cfg =
     \<lparr>PoolOptions.MinConns = PoolConfig.MinConns (Pool cfg), MaxConns = PoolConfig.MaxConns (Pool cfg),
      MaxConnLifetime = PoolConfig.MaxConnLifetime (Pool cfg), MaxConnIdleTime = PoolConfig.MaxConnIdleTime (Pool cfg),
      HealthCheckPeriod = PoolConfig.HealthCheckPeriod (Pool cfg)\<rparr>"

definition start_service :: "('db, 'tx) pg \<Rightarrow> dir_entry list \<Rightarrow> (string \<Rightarrow> PoolOptions option \<Rightarrow> string + 'db) \<Rightarrow> outside
    \<Rightarrow> Config \<times> string option \<Rightarrow> (int + (scheduler \<times> collector) list) \<times> 'db option" where
  "start_service pg entries connect o_s loaded =
     (case loaded of
        (cfg, Some e) \<Rightarrow> (Inl 1, None)
      | (cfg, None) \<Rightarrow>
          (case connect (PostgresDSN cfg) (Some (pool_options cfg)) of
             Inl e \<Rightarrow> (Inl 1, None)
           | Inr db \<Rightarrow>
               (case Migrate pg entries db of
                  (Some e, db') \<Rightarrow> (Inl 1, Some db')
                | (None, db') \<Rightarrow>
                    (case build_schedulers o_s cfg (EffectiveNodes cfg) of
                       Inl e \<Rightarrow> (Inl 1, Some db')
                     | Inr scs \<Rightarrow> (Inr scs, Some db')))))"

text \<open>The \<open>mcp\<close> command: the stdio server answers an error or ends, and \<open>cancelled\<close> tells whether a signal ended it.\<close>

definition runMCPOnly :: "(string \<Rightarrow> string + 'db) \<Rightarrow> ('db \<Rightarrow> string option) \<Rightarrow> bool \<Rightarrow> Config \<times> string option \<Rightarrow> int" where
  "runMCPOnly connect listen cancelled loaded =
     (case loaded of
        (cfg, Some e) \<Rightarrow> 1
      | (cfg, None) \<Rightarrow>
          (case connect (PostgresDSN cfg) of
             Inl e \<Rightarrow> 1
           | Inr db \<Rightarrow> if listen db \<noteq> None \<and> \<not> cancelled then 1 else 0))"

section \<open>The schedulers match the configuration\<close>

lemma build_scheduler_ok:
  assumes "build_scheduler o_s cfg n = Inr (s, c)"
  shows "s_nodeID s = c_nodeID c \<and> s_baseURL s = BaseURL n \<and> s_retentionDays s = RetentionDays cfg
    \<and> c_contexts c = EnabledContexts cfg"
proof -
  let ?c = "newCollector (BaseURL n) (NodeAPIKey n) (ConfiguredID n) (EnabledContexts cfg) (CollectionIntervalSeconds cfg)"
  obtain i where r: "ResolveNodeID (os_parse o_s) (os_info o_s (BaseURL n)) (os_hostname o_s) ?c = (Inr i, c)"
    and s: "s = set_retention (RetentionDays cfg)
      (newScheduler (CollectionIntervalSeconds cfg) i (hostname_or_empty o_s) (BaseURL n))"
    using assms by (auto simp: build_scheduler_def Let_def split: prod.splits sum.splits)
  have "c_contexts c = EnabledContexts cfg"
    using r by (auto simp: ResolveNodeID_def newCollector_def Let_def split: if_splits sum.splits)
  with ResolveNodeID_node [OF r] s show ?thesis by (simp add: set_retention_def newScheduler_def)
qed

lemma build_schedulers_ok:
  "build_schedulers o_s cfg ns = Inr scs \<Longrightarrow> map (s_baseURL \<circ> fst) scs = map BaseURL ns
    \<and> (\<forall>(s, c) \<in> set scs. s_nodeID s = c_nodeID c \<and> s_retentionDays s = RetentionDays cfg)"
proof (induction ns arbitrary: scs)
  case (Cons n ns)
  then obtain s c scs' where b: "build_scheduler o_s cfg n = Inr (s, c)"
    and r: "build_schedulers o_s cfg ns = Inr scs'" and e: "scs = (s, c) # scs'"
    by (auto split: sum.splits)
  from build_scheduler_ok [OF b] Cons.IH [OF r] e show ?case by simp
qed simp

lemma sighup_keeps:
  assumes "\<forall>s \<in> set ss. s_retentionDays s = RetentionDays cfg" and "sighup loaded (cfg, ss) = (cfg', ss')"
  shows "(\<forall>s \<in> set ss'. s_retentionDays s = RetentionDays cfg') \<and> map s_nodeID ss' = map s_nodeID ss
    \<and> map s_baseURL ss' = map s_baseURL ss"
  using assms by (auto simp: sighup_def set_retention_def split: prod.splits option.splits if_splits)

text \<open>The schedulers stay in step with the configuration. The service starts one scheduler per
  effective node, in order, that stores under the node id its collector stamps; and after any number
  of SIGHUPs, successful or not, they are the same nodes and every scheduler has the retention
  setting of the configuration in force.\<close>

theorem schedulers_follow_configuration:
  assumes "build_schedulers o_s cfg (EffectiveNodes cfg) = Inr scs"
    and "fold sighup loads (cfg, map fst scs) = (cfg', ss)"
  shows "map s_baseURL ss = map BaseURL (EffectiveNodes cfg) \<and> ss \<noteq> []
    \<and> map s_nodeID ss = map (c_nodeID \<circ> snd) scs
    \<and> (\<forall>s \<in> set ss. s_retentionDays s = RetentionDays cfg')"
proof -
  have b: "map s_baseURL (map fst scs) = map BaseURL (EffectiveNodes cfg)"
    "\<forall>s \<in> set (map fst scs). s_retentionDays s = RetentionDays cfg"
    "map s_nodeID (map fst scs) = map (c_nodeID \<circ> snd) scs"
    using build_schedulers_ok [OF assms(1)] by auto
  have "(\<forall>s \<in> set ss'. s_retentionDays s = RetentionDays d') \<and> map s_nodeID ss' = map s_nodeID ss0
      \<and> map s_baseURL ss' = map s_baseURL ss0"
    if "\<forall>s \<in> set ss0. s_retentionDays s = RetentionDays d" and "fold sighup loads (d, ss0) = (d', ss')" for d ss0 d' ss'
    using that
  proof (induction loads arbitrary: d ss0)
    case (Cons l loads)
    obtain d1 ss1 where s: "sighup l (d, ss0) = (d1, ss1)" by fastforce
    from sighup_keeps [OF Cons.prems(1) s] Cons.IH [of ss1 d1] Cons.prems(2) s show ?case by simp
  qed simp
  from this [OF b(2) assms(2)] b have m: "map s_baseURL ss = map BaseURL (EffectiveNodes cfg)"
    "map s_nodeID ss = map (c_nodeID \<circ> snd) scs" "\<forall>s \<in> set ss. s_retentionDays s = RetentionDays cfg'" by auto
  have "EffectiveNodes cfg \<noteq> []" by (simp add: EffectiveNodes_def)
  with m show ?thesis by (metis list.map_disc_iff)
qed

definition demo_outside :: outside where
  "demo_outside = \<lparr>os_parse = \<lambda>_. None, os_impl = \<lambda>_. 0, os_hostname = Inr ''box'', os_info = \<lambda>_ _. Inl ''refused'',
     os_net = \<lambda>_ _. Inl ''refused'', os_clock = \<lambda>_. 0\<rparr>"

theorem schedulers_follow_configuration_witness:
  "\<exists>scs. build_schedulers demo_outside Defaults (EffectiveNodes Defaults) = Inr scs
    \<and> map s_retentionDays (snd (fold sighup [(Defaults\<lparr>RetentionDays := 7\<rparr>, None), (Defaults, Some ''bad'')] (Defaults, map fst scs))) = [7]"
proof -
  obtain s c where b: "build_schedulers demo_outside Defaults (EffectiveNodes Defaults) = Inr [(s, c)]"
    by (auto simp: EffectiveNodes_def Defaults_def build_scheduler_def ResolveNodeID_def newCollector_def info_id_def
        setAuth_def demo_outside_def Let_def)
  obtain cfg' ss where f: "fold sighup [(Defaults\<lparr>RetentionDays := 7\<rparr>, None), (Defaults, Some ''bad'')] (Defaults, map fst [(s, c)]) = (cfg', ss)"
    by fastforce
  have "cfg' = Defaults\<lparr>RetentionDays := 7\<rparr>" using f by (simp add: sighup_def)
  then have r: "\<forall>x \<in> set ss. s_retentionDays x = 7" "length ss = 1"
    using schedulers_follow_configuration [OF b f] by (auto dest: map_eq_imp_length_eq simp: EffectiveNodes_def Defaults_def)
  then obtain x where "ss = [x]" by (auto simp: length_Suc_conv)
  with r f b show ?thesis by auto
qed

end
