(* ===== verification/GoTime.thy ===== *)
theory GoTime
  imports PromText
begin

text \<open>
  What the query tools use of package \<open>time\<close>: \<open>ParseDuration\<close>, \<open>Parse\<close> with the layouts of the
  program, and \<open>parseTimeArg\<close> of \<open>internal/mcp/server.go\<close> on top of them. An instant is a number of
  nanoseconds since the Unix epoch.
\<close>

section \<open>\<open>time.ParseDuration\<close>\<close>

fun leadingInt :: "int \<Rightarrow> string \<Rightarrow> (int \<times> string) option" where
  "leadingInt x [] = Some (x, [])"
| "leadingInt x (c # s) =
     (if \<not> is_digit c then Some (x, c # s)
      else if x > 2 ^ 63 div 10 then None
      else let x = x * 10 + digit_val c in if x > 2 ^ 63 then None else leadingInt x s)"

text \<open>The digits of a fraction as an integer and its scale; digits beyond the range are read and dropped.\<close>

fun leadingFraction :: "int \<Rightarrow> f64 \<Rightarrow> bool \<Rightarrow> string \<Rightarrow> int \<times> f64 \<times> string" where
  "leadingFraction x scale overflow [] = (x, scale, [])"
| "leadingFraction x scale overflow (c # s) =
     (if \<not> is_digit c then (x, scale, c # s)
      else if overflow \<or> x > (2 ^ 63 - 1) div 10 then leadingFraction x scale True s
      else let y = x * 10 + digit_val c in
        if y > 2 ^ 63 then leadingFraction x scale True s
        else leadingFraction y (fmul scale (flit 10)) False s)"

definition duration_units :: "(string \<times> int) list" where
  "duration_units =
     [(''ns'', 1), (''us'', 1000), (map chr [0xC2, 0xB5] @ ''s'', 1000), (map chr [0xCE, 0xBC] @ ''s'', 1000),
      (''ms'', 1000000), (''s'', 1000000000), (''m'', 60000000000), (''h'', 3600000000000)]"

text \<open>One number with its unit: its nanoseconds and the rest of the string.\<close>

definition duration_component :: "string \<Rightarrow> (int \<times> string) option" where
  "duration_component s =
     (if \<not> (hd s = CHR ''.'' \<or> is_digit (hd s)) then None
      else case leadingInt 0 s of
        None \<Rightarrow> None
      | Some (v, s1) \<Rightarrow>
          let pre = length s1 \<noteq> length s;
              (f, scale, s2) = (if s1 \<noteq> [] \<and> hd s1 = CHR ''.'' then leadingFraction 0 (flit 1) False (tl s1)
                                else (0, flit 1, s1));
              post = s1 \<noteq> [] \<and> hd s1 = CHR ''.'' \<and> length s2 \<noteq> length (tl s1);
              u = takeWhile (\<lambda>c. c \<noteq> CHR ''.'' \<and> \<not> is_digit c) s2;
              s3 = dropWhile (\<lambda>c. c \<noteq> CHR ''.'' \<and> \<not> is_digit c) s2
          in if (\<not> pre \<and> \<not> post) \<or> u = [] then None
             else case map_of duration_units u of
               None \<Rightarrow> None
             | Some unit \<Rightarrow>
                 if v > 2 ^ 63 div unit then None
                 else let v = v * unit;
                     v = (if f > 0 then v + trunc_rat (fval (fmul (of_int64 f) (fdiv (of_int64 unit) scale))) else v)
                   in if v > 2 ^ 63 then None else Some (v, s3))"

lemma leadingInt_length: "leadingInt x s = Some (v, r) \<Longrightarrow> length r \<le> length s"
  by (induction x s rule: leadingInt.induct) (fastforce simp: Let_def split: if_splits)+

lemma leadingFraction_length: "leadingFraction x sc b s = (f, sc', r) \<Longrightarrow> length r \<le> length s"
  by (induction x sc b s rule: leadingFraction.induct) (fastforce simp: Let_def split: if_splits)+

lemma duration_component_length: "duration_component s = Some (v, r) \<Longrightarrow> length r < length s"
proof -
  assume a: "duration_component s = Some (v, r)"
  obtain x s1 where l: "leadingInt 0 s = Some (x, s1)"
    using a by (auto simp: duration_component_def split: if_splits option.splits)
  obtain f sc s2 where f: "(if s1 \<noteq> [] \<and> hd s1 = CHR ''.'' then leadingFraction 0 (flit 1) False (tl s1)
      else (0, flit 1, s1)) = (f, sc, s2)" by (metis prod_cases3)
  let ?P = "\<lambda>c. c \<noteq> CHR ''.'' \<and> \<not> is_digit c"
  have "takeWhile ?P s2 \<noteq> []" and r: "r = dropWhile ?P s2"
    using a by (auto simp: duration_component_def l f Let_def split: if_splits option.splits)
  have "s2 = takeWhile ?P s2 @ r" unfolding r by simp
  then have "length s2 = length (takeWhile ?P s2) + length r" by (metis length_append)
  moreover have "takeWhile ?P s2 \<noteq> []" by fact
  ultimately have "length r < length s2" by (cases "takeWhile ?P s2") simp_all
  moreover have "length s2 \<le> length s1"
    using f leadingFraction_length [of 0 "flit 1" False "tl s1" f sc s2] by (cases s1) (auto split: if_splits)
  ultimately show ?thesis using leadingInt_length [OF l] by simp
qed

function duration_loop :: "int \<Rightarrow> string \<Rightarrow> int option" where
  "duration_loop d s =
     (if s = [] then Some d
      else case duration_component s of
        None \<Rightarrow> None
      | Some (v, rest) \<Rightarrow> if d + v > 2 ^ 63 then None else duration_loop (d + v) rest)"
  by pat_completeness auto
termination
  by (relation "measure (\<lambda>(d, s). length s)") (auto dest: duration_component_length)

declare duration_loop.simps [simp del]

definition ParseDuration :: "string \<Rightarrow> int option" where
  "ParseDuration orig =
     (let signed = orig \<noteq> [] \<and> (hd orig = CHR ''-'' \<or> hd orig = CHR ''+'');
          neg = orig \<noteq> [] \<and> hd orig = CHR ''-'';
          s = (if signed then tl orig else orig)
      in if s = ''0'' then Some 0
         else if s = [] then None
         else case duration_loop 0 s of
             None \<Rightarrow> None
           | Some d \<Rightarrow> if neg then Some (wrap64 (- d)) else if d > 2 ^ 63 - 1 then None else Some d)"

section \<open>\<open>time.Parse\<close>\<close>

datatype layout_chunk = Lit string | Year | Month | Day | Hour | Minute | Second | Frac9 | Zone

record time_fields =
  tf_year :: int
  tf_month :: int
  tf_day :: int
  tf_hour :: int
  tf_min :: int
  tf_sec :: int
  tf_nsec :: int
  tf_zone :: int

definition getnum :: "bool \<Rightarrow> string \<Rightarrow> (int \<times> string) option" where
  "getnum fixed s = (case s of
      [] \<Rightarrow> None
    | a # r \<Rightarrow>
        if \<not> is_digit a then None
        else (case r of
            b # r' \<Rightarrow> if is_digit b then Some (10 * digit_val a + digit_val b, r')
                     else if fixed then None else Some (digit_val a, r)
          | [] \<Rightarrow> if fixed then None else Some (digit_val a, r)))"

text \<open>A literal part of the layout; a space of the layout matches any number of spaces.\<close>

function skip_lit :: "string \<Rightarrow> string \<Rightarrow> string option" where
  "skip_lit [] v = Some v"
| "skip_lit (p # ps) v =
     (if p = CHR '' '' then
        (if v \<noteq> [] \<and> hd v \<noteq> CHR '' '' then None
         else skip_lit (dropWhile (\<lambda>c. c = CHR '' '') ps) (dropWhile (\<lambda>c. c = CHR '' '') v))
      else case v of [] \<Rightarrow> None | c # v' \<Rightarrow> if c = p then skip_lit ps v' else None)"
  by pat_completeness auto
termination
  by (relation "measure (\<lambda>(p, v). length p)") (auto simp: le_imp_less_Suc length_dropWhile_le)

text \<open>A fraction of a second: at most nine digits count.\<close>

definition comma_or_period :: "char \<Rightarrow> bool" where
  "comma_or_period c \<longleftrightarrow> c = CHR ''.'' \<or> c = CHR '',''"

definition fraction :: "string \<Rightarrow> (int \<times> string) option" where
  "fraction v = (case v of
      c # d # r \<Rightarrow>
        if comma_or_period c \<and> is_digit d
        then let ds = takeWhile is_digit (d # r); n = take 9 ds
             in Some (digits_val 0 n * 10 ^ (9 - length n), dropWhile is_digit (d # r))
        else None
    | _ \<Rightarrow> None)"

definition parse_zone :: "string \<Rightarrow> (int \<times> string) option" where
  "parse_zone v =
     (if v \<noteq> [] \<and> hd v = CHR ''Z'' then Some (0, tl v)
      else case v of
        sg # h1 # h2 # co # m1 # m2 # r \<Rightarrow>
          (case (getnum True [h1, h2], getnum True [m1, m2]) of
             (Some (hr, _), Some (mm, _)) \<Rightarrow>
               if co \<noteq> CHR '':'' \<or> hr > 24 \<or> mm > 60 then None
               else if sg = CHR ''+'' then Some ((hr * 60 + mm) * 60, r)
               else if sg = CHR ''-'' then Some (- ((hr * 60 + mm) * 60), r)
               else None
           | _ \<Rightarrow> None)
      | _ \<Rightarrow> None)"

definition read_num :: "bool \<Rightarrow> int \<Rightarrow> int \<Rightarrow> (int \<Rightarrow> time_fields \<Rightarrow> time_fields) \<Rightarrow> string \<Rightarrow> time_fields
    \<Rightarrow> (string \<times> time_fields) option" where
  "read_num fixed lo hi put v t =
     (case getnum fixed v of
        None \<Rightarrow> None | Some (n, r) \<Rightarrow> if n < lo \<or> hi < n then None else Some (r, put n t))"

definition parse_chunk :: "layout_chunk \<Rightarrow> bool \<Rightarrow> string \<Rightarrow> time_fields \<Rightarrow> (string \<times> time_fields) option" where
  "parse_chunk ch frac_next v t =
     (case ch of
        Lit p \<Rightarrow> map_option (\<lambda>r. (r, t)) (skip_lit p v)
      | Year \<Rightarrow> if length v < 4 \<or> \<not> list_all is_digit (take 4 v) then None
                else Some (drop 4 v, t\<lparr>tf_year := digits_val 0 (take 4 v)\<rparr>)
      | Month \<Rightarrow> read_num True 1 12 (\<lambda>n t. t\<lparr>tf_month := n\<rparr>) v t
      | Day \<Rightarrow> read_num True 0 99 (\<lambda>n t. t\<lparr>tf_day := n\<rparr>) v t
      | Hour \<Rightarrow> read_num False 0 23 (\<lambda>n t. t\<lparr>tf_hour := n\<rparr>) v t
      | Minute \<Rightarrow> read_num True 0 59 (\<lambda>n t. t\<lparr>tf_min := n\<rparr>) v t
      | Second \<Rightarrow>
          (case read_num True 0 59 (\<lambda>n t. t\<lparr>tf_sec := n\<rparr>) v t of
             None \<Rightarrow> None
           | Some (r, t) \<Rightarrow>
               (case (if frac_next then None else fraction r) of
                  None \<Rightarrow> Some (r, t) | Some (ns, r) \<Rightarrow> Some (r, t\<lparr>tf_nsec := ns\<rparr>)))
      | Frac9 \<Rightarrow> (case fraction v of None \<Rightarrow> Some (v, t) | Some (ns, r) \<Rightarrow> Some (r, t\<lparr>tf_nsec := ns\<rparr>))
      | Zone \<Rightarrow> (case parse_zone v of None \<Rightarrow> None | Some (z, r) \<Rightarrow> Some (r, t\<lparr>tf_zone := z\<rparr>)))"

fun parse_chunks :: "layout_chunk list \<Rightarrow> string \<Rightarrow> time_fields \<Rightarrow> time_fields option" where
  "parse_chunks [] v t = (if v = [] then Some t else None)"
| "parse_chunks (ch # chs) v t =
     (case parse_chunk ch (chs \<noteq> [] \<and> hd chs = Frac9) v t of
        None \<Rightarrow> None | Some (v, t) \<Rightarrow> parse_chunks chs v t)"

definition is_leap :: "int \<Rightarrow> bool" where
  "is_leap y \<longleftrightarrow> y mod 4 = 0 \<and> (y mod 100 \<noteq> 0 \<or> y mod 400 = 0)"

definition days_in :: "int \<Rightarrow> int \<Rightarrow> int" where
  "days_in m y = (if m = 2 then (if is_leap y then 29 else 28) else if m \<in> {4, 6, 9, 11} then 30 else 31)"

text \<open>Days since 1 January 1970 in the proleptic Gregorian calendar.\<close>

definition epoch_days :: "int \<Rightarrow> int \<Rightarrow> int \<Rightarrow> int" where
  "epoch_days y m d =
     365 * (y - 1) + (y - 1) div 4 - (y - 1) div 100 + (y - 1) div 400
     + (\<Sum>k \<leftarrow> [1..<nat m]. days_in (int k) y) + d - 1 - 719162"

definition fields_instant :: "time_fields \<Rightarrow> int" where
  "fields_instant t =
     ((epoch_days (tf_year t) (tf_month t) (tf_day t) * 24 + tf_hour t) * 3600 + tf_min t * 60 + tf_sec t - tf_zone t)
       * 1000000000 + tf_nsec t"

definition zero_fields :: time_fields where
  "zero_fields = \<lparr>tf_year = 0, tf_month = 1, tf_day = 1, tf_hour = 0, tf_min = 0, tf_sec = 0, tf_nsec = 0, tf_zone = 0\<rparr>"

definition Parse :: "layout_chunk list \<Rightarrow> string \<Rightarrow> int option" where
  "Parse layout v =
     (case parse_chunks layout v zero_fields of
        None \<Rightarrow> None
      | Some t \<Rightarrow> if tf_day t < 1 \<or> tf_day t > days_in (tf_month t) (tf_year t) then None else Some (fields_instant t))"

section \<open>\<open>parseTimeArg\<close>\<close>

definition date_chunks :: "layout_chunk list" where
  "date_chunks = [Year, Lit ''-'', Month, Lit ''-'', Day]"

definition clock_chunks :: "layout_chunk list" where
  "clock_chunks = [Hour, Lit '':'', Minute, Lit '':'', Second]"

definition RFC3339 :: "layout_chunk list" where
  "RFC3339 = date_chunks @ [Lit ''T''] @ clock_chunks @ [Zone]"

definition RFC3339Nano :: "layout_chunk list" where
  "RFC3339Nano = date_chunks @ [Lit ''T''] @ clock_chunks @ [Frac9, Zone]"

definition time_layouts :: "layout_chunk list list" where
  "time_layouts = [RFC3339, RFC3339Nano, date_chunks @ [Lit ''T''] @ clock_chunks, date_chunks @ [Lit '' ''] @ clock_chunks, date_chunks]"

fun first_layout :: "layout_chunk list list \<Rightarrow> string \<Rightarrow> int option" where
  "first_layout [] s = None"
| "first_layout (l # ls) s = (case Parse l s of Some t \<Rightarrow> Some t | None \<Rightarrow> first_layout ls s)"

text \<open>\<open>None\<close> is the error \<open>cannot parse time\<close>; \<open>now\<close> is the clock reading, if it is made.\<close>

definition parseTimeArg :: "int \<Rightarrow> string \<Rightarrow> int option" where
  "parseTimeArg now s0 =
     (let s = TrimSpace s0 in
      if s = [] then Some now
      else case (if HasPrefix s ''-'' then ParseDuration (tl s) else None) of
          Some dur \<Rightarrow> Some (now + wrap64 (- dur))
        | None \<Rightarrow> first_layout time_layouts s)"

section \<open>Relative times\<close>

lemma digits_val_mono: "list_all is_digit ds \<Longrightarrow> 0 \<le> x \<Longrightarrow> x \<le> digits_val x ds"
proof (induction ds arbitrary: x)
  case (Cons c ds)
  then have "0 \<le> digit_val c" by (simp add: is_digit_def digit_val_def)
  with Cons.prems Cons.IH [of "x * 10 + digit_val c"] show ?case by simp
qed simp

lemma leadingInt_digits:
  "list_all is_digit ds \<Longrightarrow> 0 \<le> x \<Longrightarrow> digits_val x ds \<le> 2 ^ 63 \<Longrightarrow> u = [] \<or> \<not> is_digit (hd u)
    \<Longrightarrow> leadingInt x (ds @ u) = Some (digits_val x ds, u)"
proof (induction ds arbitrary: x)
  case Nil
  then show ?case by (cases u) simp_all
next
  case (Cons c ds)
  have d: "0 \<le> digit_val c" using Cons.prems(1) by (simp add: is_digit_def digit_val_def)
  have "x * 10 + digit_val c \<le> digits_val (x * 10 + digit_val c) ds"
    by (rule digits_val_mono) (use Cons.prems d in simp_all)
  then have b: "x * 10 + digit_val c \<le> 2 ^ 63" using Cons.prems(3) by simp
  then have "x \<le> 2 ^ 63 div 10" using d by simp
  with b Cons.prems Cons.IH [of "x * 10 + digit_val c"] d show ?case by (simp add: Let_def)
qed

lemma duration_component_unit:
  assumes "map_of duration_units u = Some unit" and "list_all (\<lambda>c. c \<noteq> CHR ''.'' \<and> \<not> is_digit c) u"
    and "0 \<le> n" and "n * unit \<le> 2 ^ 63" and "1 \<le> unit"
  shows "duration_component (nat_digits (nat n) @ u) = Some (n * unit, [])"
proof -
  let ?ds = "nat_digits (nat n)"
  have ds: "list_all is_digit ?ds" "?ds \<noteq> []" "digits_val 0 ?ds = n"
    using nat_digits_digits [of "nat n"] digits_val_nat_digits [of "nat n"] assms(3) by simp_all
  have u: "u \<noteq> []" using assms(1) by (auto simp: duration_units_def)
  then have hu: "hd u \<noteq> CHR ''.''" "\<not> is_digit (hd u)" using assms(2) by (cases u; simp)+
  have "n * 1 \<le> n * unit" using assms(3,5) by (intro mult_left_mono) simp_all
  then have n: "n \<le> 2 ^ 63" using assms(4) by simp
  have div: "n \<le> 2 ^ 63 div unit" using assms(4,5) by (simp add: zdiv_mono1 [of "n * unit" "2 ^ 63" unit, simplified])
  have hd: "is_digit (hd (?ds @ u))" using ds(1,2) by (cases ?ds) simp_all
  have l: "leadingInt 0 (?ds @ u) = Some (n, u)"
    using leadingInt_digits [OF ds(1), of 0 u] ds(3) n hu by simp
  have t: "takeWhile (\<lambda>c. c \<noteq> CHR ''.'' \<and> \<not> is_digit c) u = u" "dropWhile (\<lambda>c. c \<noteq> CHR ''.'' \<and> \<not> is_digit c) u = []"
    using assms(2) by (simp_all add: list_all_iff takeWhile_eq_all_conv)
  show ?thesis
    unfolding duration_component_def l option.case prod.case Let_def
    using hd hu u ds(2) div assms(1,4) by (simp add: t)
qed

lemma digits_graph: "list_all is_digit s \<Longrightarrow> list_all is_graph s"
  by (auto simp: list_all_iff is_digit_def is_graph_def)

lemma ParseDuration_unit:
  assumes "map_of duration_units u = Some unit" and "list_all (\<lambda>c. c \<noteq> CHR ''.'' \<and> \<not> is_digit c) u"
    and "0 \<le> n" and "n * unit < 2 ^ 63" and "1 \<le> unit"
  shows "ParseDuration (nat_digits (nat n) @ u) = Some (n * unit)"
proof -
  let ?s = "nat_digits (nat n) @ u"
  have c: "duration_component ?s = Some (n * unit, [])"
    by (rule duration_component_unit [OF assms(1,2,3) _ assms(5)]) (use assms(4) in simp)
  have ds: "list_all is_digit (nat_digits (nat n))" "nat_digits (nat n) \<noteq> []" using nat_digits_digits by blast+
  have "is_digit (hd ?s)" using ds by (cases "nat_digits (nat n)") simp_all
  then have hd: "hd ?s \<noteq> CHR ''-''" "hd ?s \<noteq> CHR ''+''" by (auto simp: is_digit_def)
  have "u \<noteq> []" using assms(1) by (auto simp: duration_units_def)
  then have "?s \<noteq> ''0''" using ds(2) by (cases "nat_digits (nat n)") auto
  moreover have "duration_loop 0 ?s = Some (n * unit)"
    using c ds(2) assms(4) by (subst duration_loop.simps) (simp add: duration_loop.simps)
  ultimately show ?thesis
    using hd ds(2) assms(4) by (simp add: ParseDuration_def Let_def)
qed

lemma relative_time:
  assumes "map_of duration_units u = Some unit" and "is_ascii u" and "0 \<le> n" and "n * unit < 2 ^ 63"
  shows "parseTimeArg now (''-'' @ itoa n @ u) = Some (now - n * unit)"
proof -
  have u: "u \<in> {''ns'', ''us'', ''ms'', ''s'', ''m'', ''h''}" and unit: "1 \<le> unit"
    using assms(1,2) by (auto simp: duration_units_def is_ascii_def split: if_splits)
  let ?s = "''-'' @ itoa n @ u"
  have "last ?s = last u" "is_graph (last u)" using u by (auto simp: is_graph_def)
  then have t: "TrimSpace ?s = ?s" by (intro TrimSpace_graph) (simp_all add: is_graph_def)
  have "list_all (\<lambda>c. c \<noteq> CHR ''.'' \<and> \<not> is_digit c) u" using u by (auto simp: is_digit_def)
  from ParseDuration_unit [OF assms(1) this assms(3,4) unit] have "ParseDuration (itoa n @ u) = Some (n * unit)"
    using assms(3) by (simp add: itoa_def)
  moreover have "0 \<le> n * unit" using assms(3) unit by simp
  then have "in64 (- (n * unit))" using assms(4) by (simp add: in64_def)
  ultimately show ?thesis
    by (simp add: parseTimeArg_def Let_def t [simplified] wrap64_id)
qed

text \<open>A relative time is that much before now: for every unit of \<open>ParseDuration\<close> in ASCII and every
  number of units that fits a duration, \<open>-<n><unit>\<close> is the clock reading minus the time.\<close>

theorem relative_time_arg:
  assumes "map_of duration_units u = Some unit" and "is_ascii u" and "0 \<le> n" and "n * unit < 2 ^ 63"
  shows "parseTimeArg now (''-'' @ itoa n @ u) = Some (now - n * unit)"
  by (rule relative_time [OF assms])

theorem relative_time_arg_witness: "parseTimeArg 100000000000000 (''-'' @ itoa 15 @ ''m'') = Some (100000000000000 - 15 * 60000000000)"
  by (rule relative_time_arg) (simp_all add: duration_units_def is_ascii_def)

text \<open>\<open>ParseDuration\<close> knows no days: the documented relative time \<open>-7d\<close> is refused.\<close>

lemma seven_days_refused: "parseTimeArg now ''-7d'' = None"
proof -
  have t: "TrimSpace ''-7d'' = ''-7d''" by (rule TrimSpace_graph) (simp_all add: is_graph_def)
  have "ParseDuration ''7d'' = None" by code_simp
  moreover have "Parse (Year # chs) ''-7d'' = None" for chs by (simp add: Parse_def parse_chunk_def)
  ultimately show ?thesis
    by (simp add: parseTimeArg_def Let_def t time_layouts_def RFC3339_def RFC3339Nano_def date_chunks_def)
qed

section \<open>ISO timestamps\<close>

definition digit_char :: "int \<Rightarrow> char" where
  "digit_char k = chr (nat (48 + k))"

definition pad2 :: "int \<Rightarrow> string" where
  "pad2 n = [digit_char (n div 10), digit_char (n mod 10)]"

definition pad4 :: "int \<Rightarrow> string" where
  "pad4 n = pad2 (n div 100) @ pad2 (n mod 100)"

text \<open>\<open>Format(time.RFC3339)\<close> of a UTC time.\<close>

definition render_time :: "int \<Rightarrow> int \<Rightarrow> int \<Rightarrow> int \<Rightarrow> int \<Rightarrow> int \<Rightarrow> string" where
  "render_time y m d h mi s =
     pad4 y @ ''-'' @ pad2 m @ ''-'' @ pad2 d @ ''T'' @ pad2 h @ '':'' @ pad2 mi @ '':'' @ pad2 s @ ''Z''"

lemma digit_char [simp]: "0 \<le> k \<Longrightarrow> k < 10 \<Longrightarrow> is_digit (digit_char k)" "0 \<le> k \<Longrightarrow> k < 10 \<Longrightarrow> digit_val (digit_char k) = k"
  by (auto simp: digit_char_def is_digit_def digit_val_def)

lemma two_digits: "0 \<le> n \<Longrightarrow> n < 100 \<Longrightarrow> 0 \<le> n div 10 \<and> n div 10 < 10 \<and> 0 \<le> n mod 10 \<and> n mod 10 < (10 :: int)"
  by presburger

lemma getnum_pad2: "0 \<le> n \<Longrightarrow> n < 100 \<Longrightarrow> getnum f (pad2 n @ r) = Some (n, r)"
  using two_digits [of n] by (simp add: getnum_def pad2_def)

lemma read_num_pad2: "0 \<le> n \<Longrightarrow> n < 100 \<Longrightarrow> lo \<le> n \<Longrightarrow> n \<le> hi \<Longrightarrow> read_num f lo hi put (pad2 n @ r) t = Some (r, put n t)"
  by (simp add: read_num_def getnum_pad2)

lemma year_pad4:
  assumes "0 \<le> y" and "y < 10000"
  shows "parse_chunk Year b (pad4 y @ r) t = Some (r, t\<lparr>tf_year := y\<rparr>)"
proof -
  have "0 \<le> y div 100" "y div 100 < 100" "0 \<le> y mod 100" "y mod 100 < 100" using assms by auto
  note d = two_digits [OF this(1,2)] two_digits [OF this(3,4)]
  have "digits_val 0 (pad4 y) = ((y div 100 div 10 * 10 + y div 100 mod 10) * 10 + y mod 100 div 10) * 10 + y mod 100 mod 10"
    using d by (simp add: pad4_def pad2_def)
  also have "\<dots> = y" by presburger
  finally have v: "digits_val 0 (pad4 y) = y" .
  have "length (pad4 y) = 4" "list_all is_digit (pad4 y)" using d by (simp_all add: pad4_def pad2_def)
  with v show ?thesis by (simp add: parse_chunk_def)
qed

text \<open>A timestamp the service prints can be given back: the RFC 3339 text of a valid UTC date and time
  is read as its instant.\<close>

lemma timestamp_roundtrip:
  assumes "0 \<le> y" "y < 10000" and "1 \<le> m" "m \<le> 12" and "1 \<le> d" "d \<le> days_in m y"
    and "0 \<le> h" "h < 24" and "0 \<le> mi" "mi < 60" and "0 \<le> s" "s < 60"
  shows "parseTimeArg now (render_time y m d h mi s)
    = Some (((epoch_days y m d * 24 + h) * 3600 + mi * 60 + s) * 1000000000)"
proof -
  let ?r = "render_time y m d h mi s"
  have d99: "d \<le> 99" using assms(6) by (simp add: days_in_def split: if_splits)
  have y: "0 \<le> y div 100" "y div 100 < 100" using assms(1,2) by auto
  have hd: "hd ?r = digit_char (y div 100 div 10)" "?r \<noteq> []" by (simp_all add: render_time_def pad4_def pad2_def)
  have "is_digit (hd ?r)" using two_digits [OF y] by (simp add: hd)
  then have g: "is_graph (hd ?r)" "hd ?r \<noteq> CHR ''-''" by (auto simp: is_digit_def is_graph_def)
  have "last ?r = CHR ''Z''" by (simp add: render_time_def)
  then have "is_graph (last ?r)" by (simp add: is_graph_def)
  then have t: "TrimSpace ?r = ?r" by (rule TrimSpace_graph [OF hd(2) g(1)])
  have "Parse RFC3339 ?r = Some (((epoch_days y m d * 24 + h) * 3600 + mi * 60 + s) * 1000000000)"
  proof -
    have "parse_chunks RFC3339 ?r zero_fields = Some (zero_fields\<lparr>tf_year := y, tf_month := m, tf_day := d, tf_hour := h,
        tf_min := mi, tf_sec := s\<rparr>)"
      unfolding RFC3339_def date_chunks_def clock_chunks_def render_time_def
      using assms d99
      by (simp add: year_pad4) (simp add: parse_chunk_def read_num_pad2 fraction_def parse_zone_def zero_fields_def)
    then show ?thesis using assms(3-6) by (simp add: Parse_def fields_instant_def zero_fields_def)
  qed
  moreover have "\<not> HasPrefix ?r ''-''" using g(2) hd(2) by (cases ?r) simp_all
  ultimately show ?thesis using hd(2) by (simp add: parseTimeArg_def t Let_def time_layouts_def)
qed

end
