(* ===== verification/GoCalendar.thy ===== *)
theory GoCalendar
  imports GoTime
begin

text \<open>
  \<open>Time.Format(time.RFC3339)\<close> of a UTC time, as the answers of the tools print their times: the civil date
  of an instant, and that \<open>parseTimeArg\<close> reads the text back.
\<close>

section \<open>The civil date\<close>

text \<open>Days since 1 January of year 1: the year by cycles of 400, 100, 4 and 1 years, the month by its days.\<close>

definition year_start :: "int \<Rightarrow> int" where
  "year_start y = 365 * (y - 1) + (y - 1) div 4 - (y - 1) div 100 + (y - 1) div 400"

definition civil_year :: "int \<Rightarrow> int" where
  "civil_year n =
     (let q = n div 146097; r = n mod 146097;
          c = min 3 (r div 36524); r = r - c * 36524;
          f = r div 1461; r = r - f * 1461;
          e = min 3 (r div 365)
      in 400 * q + 100 * c + 4 * f + e + 1)"

fun month_day :: "int \<Rightarrow> int list \<Rightarrow> int \<Rightarrow> int \<times> int" where
  "month_day y [] s = (13, s + 1)"
| "month_day y (m # ms) s = (if s < days_in m y then (m, s + 1) else month_day y ms (s - days_in m y))"

definition civil_date :: "int \<Rightarrow> int \<times> int \<times> int" where
  "civil_date days =
     (let n = days + 719162; y = civil_year n
      in (y, month_day y [1, 2, 3, 4, 5, 6, 7, 8, 9, 10, 11, 12] (n - year_start y)))"

definition year_text :: "int \<Rightarrow> string" where
  "year_text y =
     (if 0 \<le> y \<and> y < 10000 then pad4 y
      else (if y < 0 then ''-'' else [])
        @ replicate (4 - length (nat_digits (nat \<bar>y\<bar>))) (CHR ''0'') @ nat_digits (nat \<bar>y\<bar>))"

definition FormatRFC3339 :: "int \<Rightarrow> string" where
  "FormatRFC3339 t =
     (let secs = t div 1000000000; sod = secs mod 86400;
          (y, m, d) = civil_date (secs div 86400)
      in year_text y @ ''-'' @ pad2 m @ ''-'' @ pad2 d @ ''T'' @ pad2 (sod div 3600) @ '':'' @ pad2 (sod div 60 mod 60)
         @ '':'' @ pad2 (sod mod 60) @ ''Z'')"

section \<open>The date is the right one\<close>

lemma quotient_eq: "(x :: int) = k * a + r \<Longrightarrow> 0 \<le> r \<Longrightarrow> r < k \<Longrightarrow> x div k = a"
  by simp

lemma quotient_step: "0 < k \<Longrightarrow> (y :: int) div k = (y - 1) div k + (if y mod k = 0 then 1 else 0)"
proof -
  assume k: "0 < k"
  have y: "y = k * (y div k) + y mod k" by simp
  have m: "0 \<le> y mod k" "y mod k < k" using k by simp_all
  show ?thesis
  proof (cases "y mod k = 0")
    case True
    then have "(y - 1) div k = y div k - 1"
      by (intro quotient_eq [where r = "k - 1"]) (use y k in \<open>simp_all add: algebra_simps\<close>)
    with True show ?thesis by simp
  next
    case False
    then have "(y - 1) div k = y div k"
      by (intro quotient_eq [where r = "y mod k - 1"]) (use y m in simp_all)
    with False show ?thesis by simp
  qed
qed

lemma year_start_cycles:
  assumes "0 \<le> c" "c \<le> 3" "0 \<le> f" "f \<le> 24" "0 \<le> e" "e \<le> 3"
  shows "year_start (400 * q + 100 * c + 4 * f + e + 1) = 146097 * q + 36524 * c + 1461 * f + 365 * e"
proof -
  let ?Y = "400 * q + 100 * c + 4 * f + e"
  have "?Y div 4 = 100 * q + 25 * c + f" by (rule quotient_eq [where r = e]) (use assms in simp_all)
  moreover have "?Y div 100 = 4 * q + c" by (rule quotient_eq [where r = "4 * f + e"]) (use assms in simp_all)
  moreover have "?Y div 400 = q" by (rule quotient_eq [where r = "100 * c + 4 * f + e"]) (use assms in simp_all)
  ultimately show ?thesis by (simp add: year_start_def algebra_simps)
qed

lemma leap_cases:
  "(p \<longrightarrow> q) \<Longrightarrow> (q \<longrightarrow> r) \<Longrightarrow> 365 + (if r then 1 else 0) - (if q then 1 else 0) + (if p then 1 else 0)
    = (if r \<and> (\<not> q \<or> p) then 366 else (365 :: int))"
  by (cases p; cases q; cases r) simp_all

lemma leap_year_length: "year_start (y + 1) - year_start y = (if is_leap y then 366 else 365)"
proof -
  have "400 dvd y \<Longrightarrow> 100 dvd y" by (rule dvd_trans [of _ 400]) simp_all
  moreover have "100 dvd y \<Longrightarrow> 4 dvd y" by (rule dvd_trans [of _ 100]) simp_all
  ultimately have i: "y mod 400 = 0 \<longrightarrow> y mod 100 = 0" "y mod 100 = 0 \<longrightarrow> y mod 4 = 0" unfolding dvd_eq_mod_eq_0 by blast+
  note step = quotient_step [of 4 y, OF zero_less_numeral] quotient_step [of 100 y, OF zero_less_numeral]
    quotient_step [of 400 y, OF zero_less_numeral]
  have sum: "365 * b + (x + u) - (z + v) + (w + t) - (365 * (b - 1) + x - z + w) = 365 + u - v + t" for b x u z v w t :: int by simp
  have "year_start (y + 1) - year_start y = 365 + (if y mod 4 = 0 then 1 else 0) - (if y mod 100 = 0 then 1 else 0)
      + (if y mod 400 = 0 then 1 else 0)"
    unfolding year_start_def add_diff_cancel_right' by (subst step(1), subst step(2), subst step(3)) (rule sum)
  then show ?thesis unfolding is_leap_def leap_cases [OF i] .
qed

lemma civil_year_bounds: "year_start (civil_year n) \<le> n \<and> n < year_start (civil_year n + 1)"
proof -
  define q r c r' f r'' e where d: "q = n div 146097" "r = n mod 146097" "c = min 3 (r div 36524)" "r' = r - c * 36524"
    "f = r' div 1461" "r'' = r' - f * 1461" "e = min 3 (r'' div 365)"
  have n: "n = 146097 * q + r" "0 \<le> r" "r < 146097" by (simp_all add: d(1,2))
  have dm: "36524 * (r div 36524) \<le> r" "r < 36524 * (r div 36524) + 36524"
    using pos_mod_bound [of 36524 r] pos_mod_sign [of 36524 r] mult_div_mod_eq [of 36524 r] by linarith+
  have c: "0 \<le> c" "c \<le> 3" "0 \<le> r'" "r' < 36524 \<or> c = 3 \<and> r' < 36525"
    using n(2,3) dm pos_imp_zdiv_nonneg_iff [of 36524 r] by (auto simp: d(3,4) min_def)
  have f'': "r'' = r' mod 1461" by (simp add: d(5,6) minus_div_mult_eq_mod)
  have f: "0 \<le> f" "0 \<le> r''" "r'' < 1461" using c(3) f'' pos_imp_zdiv_nonneg_iff [of 1461 r'] by (simp_all add: d(5))
  have r': "r' = 1461 * f + r''" by (simp add: d(6))
  then have "1461 * f < 1461 * 25" using c(4) f(2) by linarith
  then have f24: "f \<le> 24" by simp
  have em: "365 * (r'' div 365) \<le> r''" "r'' < 365 * (r'' div 365) + 365"
    using pos_mod_bound [of 365 r''] pos_mod_sign [of 365 r''] mult_div_mod_eq [of 365 r''] by linarith+
  have e: "0 \<le> e" "e \<le> 3" "365 * e \<le> r''" "r'' < 365 * e + 365 \<or> e = 3 \<and> r'' = 1460"
    using f(2,3) em pos_imp_zdiv_nonneg_iff [of 365 r''] by (auto simp: d(7) min_def)
  have y: "civil_year n = 400 * q + 100 * c + 4 * f + e + 1" by (simp add: civil_year_def Let_def d)
  have ys: "year_start (civil_year n) = 146097 * q + 36524 * c + 1461 * f + 365 * e"
    unfolding y by (rule year_start_cycles) (use c f f24 e in simp_all)
  have leap: "is_leap (civil_year n)" if e3: "e = 3" and "r'' = 1460"
  proof -
    have y4: "civil_year n = 4 * (100 * q + 25 * c + (f + 1))" using e3 y by simp
    have "f < 24 \<or> c = 3" using c(4) r' that(2) f24 by linarith
    then show ?thesis
    proof (cases "f < 24")
      case True
      have "civil_year n mod 100 = 4 * (f + 1)"
        unfolding y4 using f(1) True mod_mult_self4 [of 100 "4 * q + c" "4 * (f + 1)"] by (simp add: algebra_simps)
      with y4 f(1) show ?thesis by (simp add: is_leap_def)
    next
      case False
      with f24 \<open>f < 24 \<or> c = 3\<close> have "civil_year n = 400 * (q + 1)" using y4 by simp
      then show ?thesis by (simp add: is_leap_def)
    qed
  qed
  have "n - year_start (civil_year n) = r'' - 365 * e" using n(1) r' ys by (simp add: d(4))
  then show ?thesis using leap_year_length [of "civil_year n"] leap e(3,4) by (auto split: if_splits)
qed

lemma month_day_ok:
  assumes "month_day y (map int [k..<13]) s = (m, d)" and "0 \<le> s" and "s < (\<Sum>j \<leftarrow> [k..<13]. days_in (int j) y)" and "1 \<le> k"
  shows "int k \<le> m \<and> m \<le> 12 \<and> 1 \<le> d \<and> d \<le> days_in m y \<and> (\<Sum>j \<leftarrow> [k..<nat m]. days_in (int j) y) + d - 1 = s"
  using assms
proof (induction "13 - k" arbitrary: k s)
  case 0
  then show ?case by simp
next
  case (Suc x)
  then have k: "k < 13" and u: "[k..<13] = k # [Suc k..<13]" by (simp_all add: upt_conv_Cons)
  show ?case
  proof (cases "s < days_in (int k) y")
    case True
    with Suc.prems k show ?thesis by (auto simp: u)
  next
    case False
    with Suc.prems u have "month_day y (map int [Suc k..<13]) (s - days_in (int k) y) = (m, d)" "0 \<le> s - days_in (int k) y"
      "s - days_in (int k) y < (\<Sum>j \<leftarrow> [Suc k..<13]. days_in (int j) y)" by simp_all
    from Suc.hyps(1) [OF _ this] Suc.hyps(2) have *: "int (Suc k) \<le> m \<and> m \<le> 12 \<and> 1 \<le> d \<and> d \<le> days_in m y
      \<and> (\<Sum>j \<leftarrow> [Suc k..<nat m]. days_in (int j) y) + d - 1 = s - days_in (int k) y" by simp
    then have "[k..<nat m] = k # [Suc k..<nat m]" by (subst upt_conv_Cons) auto
    with * show ?thesis by simp
  qed
qed

lemma all_months: "map int [1..<13] = [1, 2, 3, 4, 5, 6, 7, 8, 9, 10, 11, 12]" "(\<Sum>j \<leftarrow> [1..<13]. days_in (int j) y) = (if is_leap y then 366 else 365)"
  by (simp_all add: upt_conv_Cons days_in_def)

lemma civil_date_ok:
  assumes "civil_date days = (y, m, d)"
  shows "1 \<le> m \<and> m \<le> 12 \<and> 1 \<le> d \<and> d \<le> days_in m y \<and> epoch_days y m d = days \<and> y = civil_year (days + 719162)"
proof -
  let ?n = "days + 719162"
  have y: "y = civil_year ?n" and md: "month_day y (map int [1..<13]) (?n - year_start y) = (m, d)"
    using assms by (auto simp: civil_date_def Let_def all_months(1) simp del: month_day.simps One_nat_def)
  have "0 \<le> ?n - year_start y" "?n - year_start y < (\<Sum>j \<leftarrow> [1..<13]. days_in (int j) y)"
    using civil_year_bounds [of ?n] leap_year_length [of y] unfolding all_months(2) y by linarith+
  from month_day_ok [OF md this] y show ?thesis by (simp add: epoch_days_def year_start_def)
qed

lemma year_start_mono: "y \<le> y' \<Longrightarrow> year_start y \<le> year_start y'"
proof (induction "nat (y' - y)" arbitrary: y)
  case (Suc k)
  then have "year_start (y + 1) \<le> year_start y'" by (intro Suc.hyps) simp_all
  then show ?case using leap_year_length [of y] by (simp split: if_splits)
qed simp

lemma civil_year_range: "year_start a \<le> n \<Longrightarrow> n < year_start b \<Longrightarrow> a \<le> civil_year n \<and> civil_year n < b"
  using civil_year_bounds [of n] year_start_mono [of "civil_year n + 1" a] year_start_mono [of b "civil_year n"] by linarith

text \<open>C28. A time the service prints can be given back: from year 0 to year 9999 the RFC 3339 text of an instant is
  read by \<open>parseTimeArg\<close> as that instant, to the second.\<close>

theorem printed_time_reads_back:
  assumes "- 62167219200000000000 \<le> t" and "t < 253402300800000000000"
  shows "parseTimeArg now (FormatRFC3339 t) = Some (t - t mod 1000000000)"
proof -
  define secs where "secs = t div 1000000000"
  define sod where "sod = secs mod 86400"
  obtain y m d where c: "civil_date (secs div 86400) = (y, m, d)" by (metis prod_cases3)
  note ok = civil_date_ok [OF c]
  have "year_start 0 \<le> secs div 86400 + 719162" "secs div 86400 + 719162 < year_start 10000"
    unfolding secs_def
    using zdiv_mono1 [OF assms(1), of 86400000000000] assms(2) by (simp_all add: year_start_def zdiv_zmult2_eq [symmetric] div_less_iff_less_mult)
  then have y: "0 \<le> y" "y < 10000" using ok civil_year_range by blast+
  have sod: "0 \<le> sod div 3600" "sod div 3600 < 24" "0 \<le> sod div 60 mod 60" "sod div 60 mod 60 < 60" "0 \<le> sod mod 60" "sod mod 60 < 60"
    using pos_mod_bound [of 86400 secs] pos_mod_sign [of 86400 secs] by (simp_all add: sod_def div_less_iff_less_mult pos_imp_zdiv_nonneg_iff)
  have f: "FormatRFC3339 t = render_time y m d (sod div 3600) (sod div 60 mod 60) (sod mod 60)"
    using y c by (simp add: FormatRFC3339_def Let_def secs_def sod_def render_time_def year_text_def)
  have "(epoch_days y m d * 24 + sod div 3600) * 3600 + sod div 60 mod 60 * 60 + sod mod 60 = secs"
  proof -
    have "sod div 3600 * 60 + sod div 60 mod 60 = sod div 60" using div_mult_mod_eq [of "sod div 60" 60] by (simp add: zdiv_zmult2_eq [of 60, symmetric])
    moreover have "sod div 60 * 60 + sod mod 60 = sod" "secs div 86400 * 86400 + sod = secs" by (simp, simp add: sod_def)
    moreover have "epoch_days y m d = secs div 86400" using ok by blast
    moreover have "(epoch_days y m d * 24 + sod div 3600) * 3600 + sod div 60 mod 60 * 60 + sod mod 60
        = epoch_days y m d * 86400 + ((sod div 3600 * 60 + sod div 60 mod 60) * 60 + sod mod 60)" by (simp add: algebra_simps)
    ultimately show ?thesis by simp
  qed
  moreover have "1 \<le> m" "m \<le> 12" "1 \<le> d" "d \<le> days_in m y" using ok by blast+
  note timestamp_roundtrip [OF y this sod, of now]
  ultimately show ?thesis unfolding f by (simp only: secs_def minus_mod_eq_div_mult)
qed

theorem printed_time_reads_back_witness: "parseTimeArg 0 (FormatRFC3339 1709209805123456789) = Some 1709209805000000000"
  by (subst printed_time_reads_back) simp_all

end
