(* ===== verification/McpQuery.thy ===== *)
theory McpQuery
  imports GoTime Collector
begin

text \<open>
  The query tools of the MCP server (\<open>internal/mcp\<close>: \<open>server.go\<close>, \<open>rollup.go\<close>, \<open>cardinality.go\<close>): the
  statement and arguments each builds from the arguments of a call, and what it answers. A query is a
  parameter that gives an error, or the rows as scanning them one by one turned out and the error the
  iteration ended with. A clock reading is an argument.
\<close>

section \<open>Arguments and results of a tool\<close>

text \<open>\<open>req.Params.Arguments\<close>; a type assertion that fails leaves the zero value.\<close>

type_synonym tool_args = "string \<Rightarrow> json option"

definition str_arg :: "tool_args \<Rightarrow> string \<Rightarrow> string" where
  "str_arg a k = (case a k of Some (JStr s) \<Rightarrow> s | _ \<Rightarrow> [])"

definition num_arg :: "tool_args \<Rightarrow> string \<Rightarrow> f64" where
  "num_arg a k = (case a k of Some (JNum x) \<Rightarrow> x | _ \<Rightarrow> Fin 0)"

datatype 'a tool_result = TextResult string | JsonResult 'a

text \<open>\<open>jsonResult\<close>: \<open>json.MarshalIndent\<close> refuses a float that is not finite; \<open>floats\<close> are those of the value,
  in order.\<close>

definition json_float_text :: "f64 \<Rightarrow> string" where
  "json_float_text x = (if x = PInf then ''+Inf'' else if x = NInf then ''-Inf'' else ''NaN'')"

definition jsonResult :: "('a \<Rightarrow> f64 list) \<Rightarrow> 'a \<Rightarrow> 'a tool_result" where
  "jsonResult floats v =
     (case find (\<lambda>x. \<not> is_finite x) (floats v) of
        None \<Rightarrow> JsonResult v
      | Some x \<Rightarrow> TextResult (''Error marshaling JSON: json: unsupported value: '' @ json_float_text x))"

type_synonym 'r query = "string \<Rightarrow> sql_arg list \<Rightarrow> string + (string + 'r) list \<times> string option"

text \<open>The limit argument: a positive number cut to an integer, 5000 at most.\<close>

definition query_limit :: "(f64 \<Rightarrow> int) \<Rightarrow> tool_args \<Rightarrow> int" where
  "query_limit impl a =
     (let limitF = num_arg a ''limit'';
          limit = (if flt (Fin 0) limitF then f2i impl limitF else 500)
      in if limit > 5000 then 5000 else limit)"

section \<open>Building a statement\<close>

text \<open>The three variables of a builder: \<open>query\<close>, \<open>args\<close> and \<open>argIdx\<close>.\<close>

type_synonym builder = "string \<times> sql_arg list \<times> int"

definition add_clause :: "string \<Rightarrow> string \<Rightarrow> sql_arg \<Rightarrow> builder \<Rightarrow> builder" where
  "add_clause before after arg b = (case b of (q, as, i) \<Rightarrow> (q @ before @ ph i @ after, as @ [arg], i + 1))"

definition text_clause :: "string \<Rightarrow> string \<Rightarrow> builder \<Rightarrow> builder" where
  "text_clause before v b = (if v = [] then b else add_clause before [] (AText v) b)"

text \<open>The label filter: the clause and its argument, if the text has a pair at all.\<close>

definition label_pairs :: "string \<Rightarrow> labels" where
  "label_pairs s = fold (\<lambda>pair m. case SplitN pair (CHR ''='') 2 of
       [k, v] \<Rightarrow> map_set (TrimSpace k) (TrimSpace v) m | _ \<Rightarrow> m) (Split (TrimSpace s) (CHR '','')) []"

definition labelFilter :: "string \<Rightarrow> builder \<Rightarrow> builder" where
  "labelFilter s b =
     (if TrimSpace s = [] \<or> label_pairs s = [] then b
      else add_clause '' AND labels @> '' ''::jsonb'' (ALabels (label_pairs s)) b)"

text \<open>The error of \<open>parseTimeArg\<close>, which quotes its text with \<open>%q\<close>; runes beyond ASCII are taken to be
  printable.\<close>

definition quote_char :: "char \<Rightarrow> string" where
  "quote_char c =
     (if c = CHR 0x22 then [CHR 0x5C, CHR 0x22] else if c = CHR 0x5C then [CHR 0x5C, CHR 0x5C]
      else case map_of [(7, CHR ''a''), (8, CHR ''b''), (9, CHR ''t''), (10, CHR ''n''), (11, CHR ''v''),
                        (12, CHR ''f''), (13, CHR ''r'')] (byte c) of
          Some e \<Rightarrow> [CHR 0x5C, e]
        | None \<Rightarrow>
            if byte c < 32 \<or> byte c = 127
            then [CHR 0x5C, CHR ''x'', chr (48 + byte c div 16),
                  (if byte c mod 16 < 10 then chr (48 + byte c mod 16) else chr (87 + byte c mod 16))]
            else [c])"

definition time_error :: "string \<Rightarrow> string" where
  "time_error s =
     ''cannot parse time '' @ [CHR 0x22] @ concat (map quote_char (TrimSpace s)) @ [CHR 0x22]
     @ '': use ISO 8601 or relative like '' @ [CHR 0x27] @ ''-1h'' @ [CHR 0x27]"

definition invalid_arg :: "string \<Rightarrow> string \<Rightarrow> string \<Rightarrow> string" where
  "invalid_arg name what v = ''Invalid '' @ [CHR 0x27] @ name @ [CHR 0x27] @ what @ '': '' @ time_error v"

text \<open>A time argument: nothing when it is empty, an error when it cannot be read.\<close>

definition time_clause :: "string \<Rightarrow> string \<Rightarrow> int \<Rightarrow> string \<Rightarrow> builder \<Rightarrow> string + builder" where
  "time_clause before name now v b =
     (if v = [] then Inr b
      else case parseTimeArg now v of
          None \<Rightarrow> Inl (invalid_arg name '' value'' v)
        | Some t \<Rightarrow> Inr (add_clause before [] (ATime t) b))"

section \<open>The tools\<close>

record node_row =
  nr_NodeID :: string
  nr_Hostname :: string
  nr_BaseURL :: string
  nr_LastCollected :: "int option"

definition list_nodes_sql :: string where
  "list_nodes_sql =
     br 2 @ ''SELECT'' @ br 3 @ ''n.node_id,'' @ br 3
     @ ''COALESCE(n.hostname, '' @ [CHR 0x27, CHR 0x27] @ '') as hostname,'' @ br 3
     @ ''COALESCE(n.netdata_base_url, '' @ [CHR 0x27, CHR 0x27] @ '') as base_url,'' @ br 3
     @ ''(SELECT MAX(collected_at) FROM hardware_metric_samples WHERE node_id = n.node_id) as last_collected'' @ br 2
     @ ''FROM netdata_nodes n'' @ br 2 @ ''ORDER BY n.node_id'' @ br 1"

definition handleListNodes :: "node_row query \<Rightarrow> node_row list tool_result" where
  "handleListNodes query =
     (case query list_nodes_sql [] of
        Inl e \<Rightarrow> TextResult (''Error listing nodes: '' @ e)
      | Inr (rows, err) \<Rightarrow>
          (case scan_rows rows of
             Inl e \<Rightarrow> TextResult (''Error scanning node: '' @ e)
           | Inr nodes \<Rightarrow>
               (case err of Some e \<Rightarrow> TextResult (''Error iterating nodes: '' @ e)
                | None \<Rightarrow> jsonResult (\<lambda>_. []) nodes)))"

record metric_row =
  mr_NodeID :: string
  mr_CollectedAt :: int
  mr_Context :: string
  mr_Chart :: "string option"
  mr_Family :: "string option"
  mr_Instance :: "string option"
  mr_Dimension :: string
  mr_Unit :: "string option"
  mr_Value :: f64

definition select_metrics_from :: "string \<Rightarrow> string" where
  "select_metrics_from table =
     br 2 @ ''SELECT node_id, collected_at, context, chart, family, instance, dimension, unit, value'' @ br 2
     @ ''FROM '' @ table @ br 2 @ ''WHERE 1=1'' @ br 1"

definition latest_builder :: "tool_args \<Rightarrow> builder" where
  "latest_builder a =
     (let nodeID = str_arg a ''node_id''; contextsStr = str_arg a ''contexts'';
          b = (select_metrics_from ''hardware_latest_metrics'', [], 1);
          b = text_clause '' AND node_id = '' nodeID b;
          b = (if contextsStr = [] then b
               else add_clause '' AND context = ANY('' '')'' (ATexts (map TrimSpace (Split contextsStr (CHR '','')))) b)
      in case b of (q, as, i) \<Rightarrow> (q @ '' ORDER BY node_id, context, instance, dimension'', as, i))"

text \<open>The end shared by the handlers that scan their rows strictly: the error of the iteration is not
  looked at.\<close>

definition answer_rows :: "string \<Rightarrow> string \<Rightarrow> ('r list \<Rightarrow> 'a) \<Rightarrow> ('a \<Rightarrow> f64 list) \<Rightarrow> string + (string + 'r) list \<times> string option
    \<Rightarrow> 'a tool_result" where
  "answer_rows what_query what_scan result floats res =
     (case res of
        Inl e \<Rightarrow> TextResult (what_query @ e)
      | Inr (rows, err) \<Rightarrow>
          (case scan_rows rows of
             Inl e \<Rightarrow> TextResult (what_scan @ e)
           | Inr rs \<Rightarrow> jsonResult floats (result rs)))"

definition handleLatestMetrics :: "metric_row query \<Rightarrow> tool_args \<Rightarrow> metric_row list tool_result" where
  "handleLatestMetrics query a =
     (case latest_builder a of (q, as, _) \<Rightarrow>
        answer_rows ''Error querying latest metrics: '' ''Error scanning metric: '' id (map mr_Value) (query q as))"

definition metrics_builder :: "(f64 \<Rightarrow> int) \<Rightarrow> int \<Rightarrow> int \<Rightarrow> tool_args \<Rightarrow> string + builder" where
  "metrics_builder impl now1 now2 a =
     (let b = (select_metrics_from ''hardware_metric_samples'', [], 1);
          b = text_clause '' AND node_id = '' (str_arg a ''node_id'') b;
          b = text_clause '' AND context = '' (str_arg a ''context'') b;
          b = text_clause '' AND dimension = '' (str_arg a ''dimension'') b;
          b = text_clause '' AND instance = '' (str_arg a ''instance'') b;
          b = labelFilter (str_arg a ''labels'') b
      in case time_clause '' AND collected_at >= '' ''after'' now1 (str_arg a ''after'') b of
           Inl e \<Rightarrow> Inl e
         | Inr b \<Rightarrow>
             (case time_clause '' AND collected_at <= '' ''before'' now2 (str_arg a ''before'') b of
                Inl e \<Rightarrow> Inl e
              | Inr b \<Rightarrow> Inr (add_clause '' ORDER BY collected_at DESC LIMIT '' [] (AInt (query_limit impl a)) b)))"

definition handleQueryMetrics :: "(f64 \<Rightarrow> int) \<Rightarrow> metric_row query \<Rightarrow> int \<Rightarrow> int \<Rightarrow> tool_args \<Rightarrow> metric_row list tool_result" where
  "handleQueryMetrics impl query now1 now2 a =
     (case metrics_builder impl now1 now2 a of
        Inl e \<Rightarrow> TextResult e
      | Inr (q, as, _) \<Rightarrow>
          answer_rows ''Error querying metrics: '' ''Error scanning row: '' id (map mr_Value) (query q as))"

subsection \<open>Roll-ups\<close>

definition round2 :: "f64 \<Rightarrow> f64" where
  "round2 x = fdiv (fround (fmul x (flit 100))) (flit 100)"

record rollup_row =
  rr_NodeID :: string
  rr_Bucket :: int
  rr_Context :: string
  rr_Dimension :: string
  rr_Instance :: string
  rr_Unit :: string
  rr_AvgValue :: f64
  rr_MinValue :: f64
  rr_MaxValue :: f64
  rr_SampleCount :: int

record rollup_result =
  ru_NodeID :: string
  ru_Source :: string
  ru_From :: int
  ru_To :: int
  ru_RowCount :: int
  ru_Rows :: "rollup_row list"

definition selectRollupTable :: "int \<Rightarrow> string \<times> string" where
  "selectRollupTable rangeWidth =
     (if rangeWidth > 7 * 24 * 3600000000000 then (''hardware_metric_rollups_1d'', ''daily'')
      else if rangeWidth > 6 * 3600000000000 then (''hardware_metric_rollups_1h'', ''hourly'')
      else (''hardware_metric_rollups_1h'', ''hourly''))"

definition SelectRollupSource :: "int \<Rightarrow> string" where
  "SelectRollupSource rangeWidth = snd (selectRollupTable rangeWidth)"

text \<open>The window of a tool whose \<open>before\<close> defaults to the present.\<close>

definition time_window :: "int \<Rightarrow> int \<Rightarrow> int \<Rightarrow> string \<Rightarrow> string \<Rightarrow> string + int \<times> int" where
  "time_window now1 now2 now3 afterStr beforeStr =
     (case parseTimeArg now1 afterStr of
        None \<Rightarrow> Inl (invalid_arg ''after'' [] afterStr)
      | Some afterTime \<Rightarrow>
          (if beforeStr = [] then Inr (afterTime, now2)
           else case parseTimeArg now3 beforeStr of
               None \<Rightarrow> Inl (invalid_arg ''before'' [] beforeStr)
             | Some beforeTime \<Rightarrow> Inr (afterTime, beforeTime)))"

definition rollup_select :: "string \<Rightarrow> string" where
  "rollup_select table =
     ''SELECT node_id, bucket, context, dimension, instance, unit,'' @ br 2
     @ ''avg_value, min_value, max_value, sample_count'' @ br 2
     @ ''FROM '' @ table @ '' WHERE node_id = $1 AND bucket >= $2 AND bucket <= $3''"

definition rollup_builder :: "(f64 \<Rightarrow> int) \<Rightarrow> int \<times> int \<Rightarrow> tool_args \<Rightarrow> builder" where
  "rollup_builder impl window a =
     (case window of (afterTime, beforeTime) \<Rightarrow>
       let table = fst (selectRollupTable (sat64 (beforeTime - afterTime)));
           b = (rollup_select table, [AText (str_arg a ''node_id''), ATime afterTime, ATime beforeTime], 4);
           b = text_clause '' AND context = '' (str_arg a ''context'') b;
           b = text_clause '' AND dimension = '' (str_arg a ''dimension'') b;
           b = text_clause '' AND instance = '' (str_arg a ''instance'') b
       in add_clause '' ORDER BY bucket DESC LIMIT '' [] (AInt (query_limit impl a)) b)"

definition round_row :: "rollup_row \<Rightarrow> rollup_row" where
  "round_row r = r\<lparr>rr_AvgValue := round2 (rr_AvgValue r), rr_MinValue := round2 (rr_MinValue r),
     rr_MaxValue := round2 (rr_MaxValue r)\<rparr>"

definition handleQueryRollup :: "(f64 \<Rightarrow> int) \<Rightarrow> rollup_row query \<Rightarrow> int \<Rightarrow> int \<Rightarrow> int \<Rightarrow> tool_args \<Rightarrow> rollup_result tool_result" where
  "handleQueryRollup impl query now1 now2 now3 a =
     (case time_window now1 now2 now3 (str_arg a ''after'') (str_arg a ''before'') of
        Inl e \<Rightarrow> TextResult e
      | Inr (afterTime, beforeTime) \<Rightarrow>
          (case rollup_builder impl (afterTime, beforeTime) a of (q, as, _) \<Rightarrow>
             answer_rows ''Error querying rollup: '' ''Error scanning: ''
               (\<lambda>rs. \<lparr>ru_NodeID = str_arg a ''node_id'', ru_Source = SelectRollupSource (sat64 (beforeTime - afterTime)),
                       ru_From = afterTime, ru_To = beforeTime, ru_RowCount = int (length rs), ru_Rows = map round_row rs\<rparr>)
               (\<lambda>res. concat (map (\<lambda>r. [rr_AvgValue r, rr_MinValue r, rr_MaxValue r]) (ru_Rows res)))
               (query q as)))"

subsection \<open>Cardinality\<close>

record cardinality_row =
  ca_NodeID :: string
  ca_UniqueContexts :: int
  ca_UniqueDimensions :: int
  ca_UniqueInstances :: int
  ca_TotalSamples :: int

definition cardinality_sql :: string where
  "cardinality_sql =
     br 2 @ ''SELECT'' @ br 3 @ ''node_id,'' @ br 3 @ ''COUNT(DISTINCT context) AS unique_contexts,'' @ br 3
     @ ''COUNT(DISTINCT dimension) AS unique_dimensions,'' @ br 3
     @ ''COUNT(DISTINCT COALESCE(instance, '' @ [CHR 0x27, CHR 0x27] @ '')) AS unique_instances,'' @ br 3
     @ ''COUNT(*) AS total_samples'' @ br 2
     @ ''FROM hardware_metric_samples'' @ br 2 @ ''WHERE collected_at >= $1'' @ br 1"

definition cardinality_builder :: "int \<Rightarrow> tool_args \<Rightarrow> builder" where
  "cardinality_builder afterTime a =
     (case text_clause '' AND node_id = '' (str_arg a ''node_id'') (cardinality_sql, [ATime afterTime], 2) of
        (q, as, i) \<Rightarrow> (q @ '' GROUP BY node_id ORDER BY node_id'', as, i))"

definition handleCardinality :: "cardinality_row query \<Rightarrow> int \<Rightarrow> int \<Rightarrow> tool_args \<Rightarrow> cardinality_row list tool_result" where
  "handleCardinality query now1 now2 a =
     (let afterStr = str_arg a ''after''; default = now1 - 24 * 3600000000000 in
      case (if afterStr = [] then Some default else parseTimeArg now2 afterStr) of
        None \<Rightarrow> TextResult (invalid_arg ''after'' [] afterStr)
      | Some afterTime \<Rightarrow>
          (case cardinality_builder afterTime a of (q, as, _) \<Rightarrow>
             (case answer_rows ''Error: '' ''Error scanning: '' id (\<lambda>_. []) (query q as) of
                JsonResult [] \<Rightarrow> TextResult ''No metric data found in the specified time range.''
              | r \<Rightarrow> r)))"

section \<open>Statements match their arguments\<close>

definition builder_ok :: "builder \<Rightarrow> bool" where
  "builder_ok b \<longleftrightarrow> (case b of (q, as, i) \<Rightarrow>
     placeholders q = map int [1..<Suc (length as)] \<and> i = int (length as) + 1)"

text \<open>A piece of SQL that can follow a parameter and holds none itself.\<close>

definition plain_sql :: "string \<Rightarrow> bool" where
  "plain_sql s \<longleftrightarrow> no_digit_first s \<and> placeholders s = []"

lemma plain_append: "builder_ok (q, as, i) \<Longrightarrow> plain_sql s \<Longrightarrow> builder_ok (q @ s, as, i)"
  by (simp add: builder_ok_def plain_sql_def placeholders_append)

lemma add_clause_ok:
  assumes "builder_ok b" and "plain_sql before" and "before \<noteq> []" and "plain_sql after"
  shows "builder_ok (add_clause before after arg b)"
proof -
  obtain q as i where b: "b = (q, as, i)" by (metis prod_cases3)
  with assms(1) have i: "i = int (length as) + 1" and q: "placeholders q = map int [1..<Suc (length as)]"
    by (simp_all add: builder_ok_def)
  have "placeholders (before @ ph i @ after) = [i]"
    using assms(2,4) i by (simp add: plain_sql_def placeholders_append)
  moreover have "no_digit_first (before @ ph i @ after)" using assms(2,3) by (simp add: plain_sql_def)
  ultimately have "placeholders (q @ before @ ph i @ after) = map int [1..<Suc (length as)] @ [i]"
    using q by (simp add: placeholders_append)
  then show ?thesis by (simp add: builder_ok_def add_clause_def b i)
qed

lemma text_clause_ok: "builder_ok b \<Longrightarrow> plain_sql before \<Longrightarrow> before \<noteq> [] \<Longrightarrow> builder_ok (text_clause before v b)"
  by (simp add: text_clause_def add_clause_ok plain_sql_def)

lemma time_clause_ok:
  "time_clause before name now v b = Inr b' \<Longrightarrow> builder_ok b \<Longrightarrow> plain_sql before \<Longrightarrow> before \<noteq> [] \<Longrightarrow> builder_ok b'"
  by (auto simp: time_clause_def plain_sql_def intro!: add_clause_ok split: if_splits option.splits)

lemma plain_sqlI: "no_digit_first s \<Longrightarrow> CHR ''$'' \<notin> set s \<Longrightarrow> plain_sql s"
proof -
  have "CHR ''$'' \<notin> set s \<Longrightarrow> placeholders s = []" by (induction s) auto
  then show "no_digit_first s \<Longrightarrow> CHR ''$'' \<notin> set s \<Longrightarrow> plain_sql s" by (simp add: plain_sql_def)
qed

lemma clause_texts:
  "plain_sql '' AND node_id = ''" "plain_sql '' AND context = ''" "plain_sql '' AND dimension = ''"
  "plain_sql '' AND instance = ''" "plain_sql '' AND labels @> ''" "plain_sql ''::jsonb''"
  "plain_sql '' AND collected_at >= ''" "plain_sql '' AND collected_at <= ''"
  "plain_sql '' ORDER BY collected_at DESC LIMIT ''" "plain_sql '' ORDER BY bucket DESC LIMIT ''"
  "plain_sql '' ORDER BY node_id, context, instance, dimension''" "plain_sql '' GROUP BY node_id ORDER BY node_id''"
  "plain_sql '' AND context = ANY(''" "plain_sql '')''" "plain_sql []"
  by (rule plain_sqlI; simp add: is_digit_def)+

lemma base_statements:
  "placeholders (select_metrics_from ''hardware_metric_samples'') = []"
  "placeholders (select_metrics_from ''hardware_latest_metrics'') = []"
  "placeholders cardinality_sql = [1]"
  "table \<in> {''hardware_metric_rollups_1d'', ''hardware_metric_rollups_1h''} \<Longrightarrow> placeholders (rollup_select table) = [1, 2, 3]"
  by (auto simp: placeholders_def select_metrics_from_def cardinality_sql_def rollup_select_def br_def numeral_eq_Suc
      is_digit_def digit_val_def)

lemma labelFilter_ok: "builder_ok b \<Longrightarrow> builder_ok (labelFilter s b)"
  by (simp add: labelFilter_def add_clause_ok clause_texts)

lemma metrics_builder_ok:
  assumes "metrics_builder impl now1 now2 a = Inr b"
  shows "builder_ok b"
proof -
  let ?b0 = "(select_metrics_from ''hardware_metric_samples'', [], 1) :: builder"
  define b1 where "b1 = labelFilter (str_arg a ''labels'') (text_clause '' AND instance = '' (str_arg a ''instance'')
    (text_clause '' AND dimension = '' (str_arg a ''dimension'') (text_clause '' AND context = '' (str_arg a ''context'')
      (text_clause '' AND node_id = '' (str_arg a ''node_id'') ?b0))))"
  have "builder_ok ?b0" by (simp add: builder_ok_def base_statements)
  then have b1: "builder_ok b1" unfolding b1_def by (intro labelFilter_ok text_clause_ok clause_texts) simp_all
  from assms obtain b2 b3 where t1: "time_clause '' AND collected_at >= '' ''after'' now1 (str_arg a ''after'') b1 = Inr b2"
    and t2: "time_clause '' AND collected_at <= '' ''before'' now2 (str_arg a ''before'') b2 = Inr b3"
    and b: "b = add_clause '' ORDER BY collected_at DESC LIMIT '' [] (AInt (query_limit impl a)) b3"
    by (auto simp: metrics_builder_def b1_def Let_def split: sum.splits)
  have "builder_ok b2" by (rule time_clause_ok [OF t1 b1 clause_texts(7)]) simp
  then have "builder_ok b3" by (rule time_clause_ok [OF t2 _ clause_texts(8)]) simp
  then show ?thesis unfolding b by (intro add_clause_ok) (simp_all add: clause_texts)
qed

lemma latest_builder_ok: "builder_ok (latest_builder a)"
proof -
  let ?b0 = "(select_metrics_from ''hardware_latest_metrics'', [], 1) :: builder"
  have "builder_ok ?b0" by (simp add: builder_ok_def base_statements)
  then have b: "builder_ok (text_clause '' AND node_id = '' v ?b0)" for v
    by (intro text_clause_ok clause_texts) simp_all
  define b1 where "b1 = (if str_arg a ''contexts'' = [] then text_clause '' AND node_id = '' (str_arg a ''node_id'') ?b0
    else add_clause '' AND context = ANY('' '')'' (ATexts (map TrimSpace (Split (str_arg a ''contexts'') (CHR '','')))
      ) (text_clause '' AND node_id = '' (str_arg a ''node_id'') ?b0))"
  have "builder_ok b1" unfolding b1_def using b by (auto intro!: add_clause_ok simp: clause_texts)
  then show ?thesis
    unfolding latest_builder_def Let_def b1_def [symmetric]
    by (cases b1) (simp add: plain_append clause_texts)
qed

lemma rollup_builder_ok: "builder_ok (rollup_builder impl (t1, t2) a)"
proof -
  have t: "fst (selectRollupTable d) \<in> {''hardware_metric_rollups_1d'', ''hardware_metric_rollups_1h''}" for d
    by (simp add: selectRollupTable_def)
  have three: "map int [1..<Suc 3] = [1, 2, 3]" by (simp add: numeral_eq_Suc)
  have "builder_ok (rollup_select (fst (selectRollupTable (sat64 (t2 - t1)))),
      [AText (str_arg a ''node_id''), ATime t1, ATime t2], 4)"
    using base_statements(4) [OF t] three by (simp add: builder_ok_def numeral_eq_Suc)
  then show ?thesis
    unfolding rollup_builder_def Let_def prod.case
    by (intro add_clause_ok text_clause_ok clause_texts) simp_all
qed

lemma cardinality_builder_ok: "builder_ok (cardinality_builder t a)"
proof -
  have "builder_ok (cardinality_sql, [ATime t], 2)" by (simp add: builder_ok_def base_statements)
  then have "builder_ok (text_clause '' AND node_id = '' v (cardinality_sql, [ATime t], 2))" for v
    by (intro text_clause_ok clause_texts) simp_all
  then show ?thesis
    unfolding cardinality_builder_def
    by (cases "text_clause '' AND node_id = '' (str_arg a ''node_id'') (cardinality_sql, [ATime t], 2)")
      (simp add: plain_append clause_texts, metis plain_append clause_texts(12))
qed

text \<open>C40. Every statement fits its arguments: whatever arguments a tool is called with, the parameters of
  the statement it sends are exactly \<open>$1\<close> to \<open>$n\<close>, in order, for the \<open>n\<close> arguments it passes.\<close>

theorem tool_statements_fit:
  "builder_ok (latest_builder a) \<and> builder_ok (rollup_builder impl (t1, t2) a) \<and> builder_ok (cardinality_builder t1 a)
    \<and> (case metrics_builder impl now1 now2 a of Inl e \<Rightarrow> True | Inr b \<Rightarrow> builder_ok b)"
  by (simp add: latest_builder_ok rollup_builder_ok cardinality_builder_ok metrics_builder_ok split: sum.split)

text \<open>Which arguments are given, not what they are.\<close>

definition given :: "tool_args \<Rightarrow> bool list" where
  "given a = map (\<lambda>k. str_arg a k = []) [''node_id'', ''context'', ''dimension'', ''instance'', ''after'', ''before'', ''contexts'']
     @ [TrimSpace (str_arg a ''labels'') = [] \<or> label_pairs (str_arg a ''labels'') = []]"

definition same_shape :: "builder \<Rightarrow> builder \<Rightarrow> bool" where
  "same_shape b c \<longleftrightarrow> (case (b, c) of ((q, as, i), (q', as', i')) \<Rightarrow> q = q' \<and> length as = length as' \<and> i = i')"

lemma same_shape_add: "same_shape b c \<Longrightarrow> same_shape (add_clause u v x b) (add_clause u v y c)"
  by (cases b; cases c) (simp add: same_shape_def add_clause_def)

lemma same_shape_text: "same_shape b c \<Longrightarrow> (v = []) = (w = []) \<Longrightarrow> same_shape (text_clause u v b) (text_clause u w c)"
  by (simp add: text_clause_def same_shape_add)

lemma same_shape_label:
  "same_shape b c \<Longrightarrow> (TrimSpace v = [] \<or> label_pairs v = []) = (TrimSpace w = [] \<or> label_pairs w = [])
    \<Longrightarrow> same_shape (labelFilter v b) (labelFilter w c)"
  by (cases "TrimSpace w = [] \<or> label_pairs w = []") (simp_all only: labelFilter_def if_True if_False same_shape_add)

lemma same_shape_append:
  "same_shape b c \<Longrightarrow> same_shape (case b of (q, as, i) \<Rightarrow> (q @ s, as, i)) (case c of (q, as, i) \<Rightarrow> (q @ s, as, i))"
  by (cases b; cases c) (simp add: same_shape_def)

lemma same_shape_time:
  "same_shape b c \<Longrightarrow> (v = []) = (w = []) \<Longrightarrow> time_clause u n now v b = Inr b' \<Longrightarrow> time_clause u n now' w c = Inr c'
    \<Longrightarrow> same_shape b' c'"
  by (auto simp: time_clause_def intro: same_shape_add split: if_splits option.splits)

text \<open>The same up to a head: one text is \<open>u\<close> and the other is \<open>v\<close>, with the same rest.\<close>

definition same_after :: "string \<Rightarrow> string \<Rightarrow> builder \<Rightarrow> builder \<Rightarrow> bool" where
  "same_after u v b c \<longleftrightarrow> (\<exists>rest. fst b = u @ rest \<and> fst c = v @ rest) \<and> length (fst (snd b)) = length (fst (snd c))
     \<and> snd (snd b) = snd (snd c)"

lemma same_after_add: "same_after u v b c \<Longrightarrow> same_after u v (add_clause p q x b) (add_clause p q y c)"
  by (cases b; cases c) (auto simp: same_after_def add_clause_def)

lemma same_after_text: "same_after u v b c \<Longrightarrow> (x = []) = (y = []) \<Longrightarrow> same_after u v (text_clause p x b) (text_clause p y c)"
  by (simp add: text_clause_def same_after_add)

text \<open>C4. No value of an argument is written into the text of a statement. Two calls that give the same arguments,
  whatever their values, send the same text with as many parameters, for three of the tools; the
  roll-up tool chooses one of two fixed tables by the width of the window, and the texts of two calls
  are the same but for that name.\<close>

theorem no_argument_in_statement:
  assumes "given a = given a'" and "metrics_builder impl now1 now2 a = Inr b" and "metrics_builder impl' now1' now2' a' = Inr b'"
    and "tab = fst (selectRollupTable (sat64 (t2 - t1)))" and "tab' = fst (selectRollupTable (sat64 (t2' - t1')))"
  shows "same_shape b b' \<and> same_shape (latest_builder a) (latest_builder a')
    \<and> same_shape (cardinality_builder t a) (cardinality_builder t' a')
    \<and> {tab, tab'} \<subseteq> {''hardware_metric_rollups_1h'', ''hardware_metric_rollups_1d''}
    \<and> same_after (rollup_select tab) (rollup_select tab') (rollup_builder impl (t1, t2) a) (rollup_builder impl' (t1', t2') a')"
proof (intro conjI)
  have g: "(str_arg a k = []) = (str_arg a' k = [])"
    if "k \<in> set [''node_id'', ''context'', ''dimension'', ''instance'', ''after'', ''before'', ''contexts'']" for k
    using assms(1) that unfolding given_def append_eq_append_conv2 by (auto dest: map_eq_conv [THEN iffD1])
  have l: "(TrimSpace (str_arg a ''labels'') = [] \<or> label_pairs (str_arg a ''labels'') = [])
      = (TrimSpace (str_arg a' ''labels'') = [] \<or> label_pairs (str_arg a' ''labels'') = [])"
    using assms(1) by (simp add: given_def)
  have s0: "same_shape (q, as, i) (q, as', i)" if "length as = length as'" for q as as' i using that by (simp add: same_shape_def)
  show "{tab, tab'} \<subseteq> {''hardware_metric_rollups_1h'', ''hardware_metric_rollups_1d''}"
    by (simp add: assms(4,5) selectRollupTable_def)
  show "same_after (rollup_select tab) (rollup_select tab') (rollup_builder impl (t1, t2) a) (rollup_builder impl' (t1', t2') a')"
    unfolding rollup_builder_def Let_def prod.case assms(4,5)
    by (intro same_after_add same_after_text) (simp_all add: g same_after_def)
  have c: "same_shape (text_clause '' AND node_id = '' (str_arg a ''node_id'') (cardinality_sql, [ATime t], 2))
      (text_clause '' AND node_id = '' (str_arg a' ''node_id'') (cardinality_sql, [ATime t'], 2))"
    by (intro same_shape_text s0) (simp_all add: g)
  then show "same_shape (cardinality_builder t a) (cardinality_builder t' a')"
    unfolding cardinality_builder_def by (rule same_shape_append)
  have n: "same_shape (text_clause '' AND node_id = '' (str_arg a ''node_id'') (q, [], 1))
      (text_clause '' AND node_id = '' (str_arg a' ''node_id'') (q, [], 1))" for q
    by (intro same_shape_text s0) (simp_all add: g)
  have "same_shape (if str_arg a ''contexts'' = [] then b1 else add_clause u v x b1)
      (if str_arg a' ''contexts'' = [] then b2 else add_clause u v y b2)" if "same_shape b1 b2" for b1 b2 u v x y
    using that g [of "''contexts''"] by (simp add: same_shape_add)
  from this [OF n] show "same_shape (latest_builder a) (latest_builder a')"
    unfolding latest_builder_def Let_def by (rule same_shape_append)
  let ?b1 = "\<lambda>a. labelFilter (str_arg a ''labels'') (text_clause '' AND instance = '' (str_arg a ''instance'')
    (text_clause '' AND dimension = '' (str_arg a ''dimension'') (text_clause '' AND context = '' (str_arg a ''context'')
      (text_clause '' AND node_id = '' (str_arg a ''node_id'') (select_metrics_from ''hardware_metric_samples'', [], 1)))))"
  have b1: "same_shape (?b1 a) (?b1 a')"
    by (intro same_shape_label same_shape_text s0) (simp_all only: g list.set insert_iff simp_thms l list.size)
  from assms(2) obtain b2 b3 where 2: "time_clause '' AND collected_at >= '' ''after'' now1 (str_arg a ''after'') (?b1 a) = Inr b2"
    "time_clause '' AND collected_at <= '' ''before'' now2 (str_arg a ''before'') b2 = Inr b3"
    and b: "b = add_clause '' ORDER BY collected_at DESC LIMIT '' [] (AInt (query_limit impl a)) b3"
    by (auto simp: metrics_builder_def Let_def split: sum.splits)
  from assms(3) obtain c2 c3 where 3: "time_clause '' AND collected_at >= '' ''after'' now1' (str_arg a' ''after'') (?b1 a') = Inr c2"
    "time_clause '' AND collected_at <= '' ''before'' now2' (str_arg a' ''before'') c2 = Inr c3"
    and c: "b' = add_clause '' ORDER BY collected_at DESC LIMIT '' [] (AInt (query_limit impl' a')) c3"
    by (auto simp: metrics_builder_def Let_def split: sum.splits)
  have "same_shape b2 c2" by (rule same_shape_time [OF b1 _ 2(1) 3(1)]) (simp add: g)
  then have "same_shape b3 c3" by (rule same_shape_time [OF _ _ 2(2) 3(2)]) (simp add: g)
  then show "same_shape b b'" unfolding b c by (rule same_shape_add)
qed

definition node_args :: "string \<Rightarrow> tool_args" where
  "node_args v = Map.empty(''node_id'' \<mapsto> JStr v)"

lemma node_args_simps [simp]: "str_arg (node_args v) k = (if k = ''node_id'' then v else [])"
  "num_arg (node_args v) k = Fin 0"
  by (simp_all add: str_arg_def num_arg_def node_args_def)

theorem no_argument_in_statement_witness:
  "\<exists>b b'. metrics_builder (\<lambda>_. 0) 0 0 (node_args ''n1'') = Inr b \<and> metrics_builder (\<lambda>_. 0) 5 6 (node_args ''x; DROP TABLE t'') = Inr b'
    \<and> same_shape b b'"
proof -
  have "\<exists>b. metrics_builder (\<lambda>_. 0) t t' (node_args v) = Inr b" for t t' v
    by (simp add: metrics_builder_def time_clause_def labelFilter_def Let_def) (metis prod_cases3)
  then obtain b b' where b: "metrics_builder (\<lambda>_. 0) 0 0 (node_args ''n1'') = Inr b"
    "metrics_builder (\<lambda>_. 0) 5 6 (node_args ''x; DROP TABLE t'') = Inr b'" by blast
  have "given (node_args ''n1'') = given (node_args ''x; DROP TABLE t'')" by (simp add: given_def)
  from no_argument_in_statement [OF this b refl refl] b show ?thesis by blast
qed

section \<open>Limits, windows and rows\<close>

lemma flt_Fin: "flt (Fin p) (Fin q) \<longleftrightarrow> p < q"
  by simp

text \<open>The limit sent to the database is never above 5000. A positive number asks for its integer part,
  so that a limit between 0 and 1 asks for no row at all; a limit that is missing, zero, negative or
  not a number asks for 500.\<close>

theorem query_limit_value:
  "query_limit impl a \<le> 5000
    \<and> (\<not> flt (Fin 0) (num_arg a ''limit'') \<longrightarrow> query_limit impl a = 500)
    \<and> (\<forall>x. num_arg a ''limit'' = Fin x \<and> 0 < x \<and> x < 2 ^ 63 \<longrightarrow> query_limit impl a = min 5000 \<lfloor>x\<rfloor>)
    \<and> (\<forall>x. num_arg a ''limit'' = Fin x \<and> 0 < x \<and> x < 1 \<longrightarrow> query_limit impl a = 0)"
proof (intro conjI allI impI)
  have f: "f2i impl (Fin x) = \<lfloor>x\<rfloor>" if "0 < x" "x < 2 ^ 63" for x
  proof -
    have "\<lfloor>x\<rfloor> < 2 ^ 63" using that(2) floor_less_iff [of x "2 ^ 63"] by simp
    then show ?thesis using that by (simp add: f2i_def trunc_rat_def in64_def)
  qed
  then show "query_limit impl a = min 5000 \<lfloor>x\<rfloor>" if "num_arg a ''limit'' = Fin x \<and> 0 < x \<and> x < 2 ^ 63" for x
  proof -
    obtain k where k: "\<lfloor>x\<rfloor> = k" by blast
    have "f2i impl (Fin x) = k" using f [of x] that unfolding k by blast
    with that show ?thesis unfolding k by (simp add: query_limit_def Let_def min_def)
  qed
  show "query_limit impl a = 0" if "num_arg a ''limit'' = Fin x \<and> 0 < x \<and> x < 1" for x
  proof -
    have "f2i impl (Fin x) = 0" using f [of x] that by (simp add: floor_eq_iff)
    with that show ?thesis by (simp add: query_limit_def Let_def)
  qed
qed (simp_all add: query_limit_def Let_def)

theorem query_limit_value_witness: "query_limit (\<lambda>_. 0) (Map.empty(''limit'' \<mapsto> JNum (Fin (1 / 2)))) = 0"
proof -
  let ?a = "Map.empty(''limit'' \<mapsto> JNum (Fin (1 / 2)))"
  have "num_arg ?a ''limit'' = Fin (1 / 2) \<and> 0 < (1 / 2 :: rat) \<and> 1 / 2 < (1 :: rat)" by (simp add: num_arg_def)
  then show ?thesis using query_limit_value [of "\<lambda>_. 0" ?a] by blast
qed

text \<open>A roll-up query reads the table it names as its source, daily roll-ups for windows longer than a
  week and hourly ones otherwise, and the answer counts its rows; it never reads raw samples, however
  short the window.\<close>

theorem rollup_query_source:
  assumes "time_window now1 now2 now3 (str_arg a ''after'') (str_arg a ''before'') = Inr (t1, t2)"
    and "in64 (t2 - t1)"
    and "handleQueryRollup impl query now1 now2 now3 a = JsonResult res"
  shows "ru_Source res = (if t2 - t1 > 7 * 24 * 3600000000000 then ''daily'' else ''hourly'')
    \<and> ru_RowCount res = int (length (ru_Rows res)) \<and> ru_From res = t1 \<and> ru_To res = t2
    \<and> (\<exists>rest as rows err. query (rollup_select (if ru_Source res = ''daily'' then ''hardware_metric_rollups_1d'' else ''hardware_metric_rollups_1h'') @ rest) as
         = Inr (rows, err) \<and> take 3 as = [AText (str_arg a ''node_id''), ATime t1, ATime t2])"
proof -
  obtain q as i where b: "rollup_builder impl (t1, t2) a = (q, as, i)" by (metis prod_cases3)
  have sat: "sat64 (t2 - t1) = t2 - t1" using assms(2) by (rule sat64_id)
  obtain rows err rs where q: "query q as = Inr (rows, err)" and rs: "scan_rows rows = Inr rs"
    using assms(1,3) by (auto simp: handleQueryRollup_def b answer_rows_def split: sum.splits)
  have res: "res = \<lparr>ru_NodeID = str_arg a ''node_id'', ru_Source = SelectRollupSource (t2 - t1),
      ru_From = t1, ru_To = t2, ru_RowCount = int (length rs), ru_Rows = map round_row rs\<rparr>"
    using assms(1,3) q rs by (simp add: handleQueryRollup_def b answer_rows_def jsonResult_def sat split: option.splits)
  have "\<exists>rest. q = rollup_select (fst (selectRollupTable (t2 - t1))) @ rest"
    and as: "take 3 as = [AText (str_arg a ''node_id''), ATime t1, ATime t2]"
    using b by (auto simp: rollup_builder_def Let_def sat text_clause_def add_clause_def split: if_splits)
  then obtain rest where rest: "q = rollup_select (fst (selectRollupTable (t2 - t1))) @ rest" by blast
  have "(if ru_Source res = ''daily'' then ''hardware_metric_rollups_1d'' else ''hardware_metric_rollups_1h'')
      = fst (selectRollupTable (t2 - t1))"
    by (simp add: res SelectRollupSource_def selectRollupTable_def)
  with q as have "query (rollup_select (if ru_Source res = ''daily'' then ''hardware_metric_rollups_1d'' else ''hardware_metric_rollups_1h'') @ rest) as
      = Inr (rows, err) \<and> take 3 as = [AText (str_arg a ''node_id''), ATime t1, ATime t2]"
    by (simp only: rest)
  then have "\<exists>rest as rows err. query (rollup_select (if ru_Source res = ''daily'' then ''hardware_metric_rollups_1d'' else ''hardware_metric_rollups_1h'') @ rest) as
      = Inr (rows, err) \<and> take 3 as = [AText (str_arg a ''node_id''), ATime t1, ATime t2]" by blast
  moreover have "ru_Source res = (if t2 - t1 > 7 * 24 * 3600000000000 then ''daily'' else ''hourly'')"
    by (simp add: res SelectRollupSource_def selectRollupTable_def)
  ultimately show ?thesis by (simp add: res)
qed

lemma demo_window: "time_window 0 1000 0 (str_arg (node_args ''n1'') ''after'') [] = Inr (0, 1000)"
  by (simp add: time_window_def parseTimeArg_def)

theorem rollup_query_source_witness:
  "\<exists>res. handleQueryRollup (\<lambda>_. 0) (\<lambda>_ _. Inr ([], None)) 0 1000 0 (node_args ''n1'') = JsonResult res \<and> ru_Source res = ''hourly''"
proof -
  have w: "time_window 0 1000 0 (str_arg (node_args ''n1'') ''after'') (str_arg (node_args ''n1'') ''before'') = Inr (0, 1000)"
    using demo_window by simp
  obtain q as i where b: "rollup_builder (\<lambda>_. 0) (0, 1000) (node_args ''n1'') = (q, as, i)" by (metis prod_cases3)
  obtain res where h: "handleQueryRollup (\<lambda>_. 0) (\<lambda>_ _. Inr ([], None)) 0 1000 0 (node_args ''n1'') = JsonResult res"
    using w unfolding handleQueryRollup_def by (simp add: b answer_rows_def jsonResult_def)
  from rollup_query_source [OF w _ h] h show ?thesis by simp
qed

text \<open>Only the node list notices that its rows ended early: when the connection fails after some rows, the
  other tools answer with these rows exactly as if they were all.\<close>

theorem truncated_answers:
  assumes "\<And>q as. query q as = Inr (rows, Some e)" and "\<And>q as. whole q as = Inr (rows, None)"
  shows "handleQueryMetrics impl query now1 now2 a = handleQueryMetrics impl whole now1 now2 a
    \<and> handleLatestMetrics query a = handleLatestMetrics whole a
    \<and> (\<forall>nodes nrows. scan_rows nrows = Inr nodes \<longrightarrow>
         handleListNodes (\<lambda>_ _. Inr (nrows, Some e)) = TextResult (''Error iterating nodes: '' @ e))"
  using assms
  by (auto simp: handleQueryMetrics_def handleLatestMetrics_def answer_rows_def handleListNodes_def split: sum.split prod.split)

theorem truncated_answers_witness:
  "handleLatestMetrics (\<lambda>_ _. Inr ([], Some ''connection reset'')) (node_args ''n1'')
    = handleLatestMetrics (\<lambda>_ _. Inr ([], None)) (node_args ''n1'')"
  by (rule truncated_answers [THEN conjunct2, THEN conjunct1]) simp_all

text \<open>One value that is not finite spoils a whole answer.\<close>

lemma jsonResult_nonfinite:
  "jsonResult floats v = JsonResult w \<longleftrightarrow> w = v \<and> list_all is_finite (floats v)"
  by (auto simp: jsonResult_def find_None_iff list_all_iff find_Some_iff split: option.splits)

end
