(* ===== verification/McpBottleneck.thy ===== *)
theory McpBottleneck
  imports McpQuery "HOL-Library.Multiset"
begin

text \<open>
  The tool \<open>find_hardware_bottlenecks\<close> of \<open>internal/mcp/server.go\<close>: the aggregates it asks for and
  \<open>DetectBottlenecks\<close>. \<open>sort_Slice\<close> is \<open>sort.Slice\<close>, which sorts short slices by insertion and leaves
  the order of equal elements of longer ones open: \<open>big\<close> is what it does with those.
\<close>

section \<open>Sorting\<close>

text \<open>The sorted part is kept with its last element first: a new element moves left past the larger ones.\<close>

fun insert_back :: "('a \<Rightarrow> 'a \<Rightarrow> bool) \<Rightarrow> 'a \<Rightarrow> 'a list \<Rightarrow> 'a list" where
  "insert_back lt x [] = [x]"
| "insert_back lt x (y # ys) = (if lt x y then y # insert_back lt x ys else x # y # ys)"

definition insertion_sort :: "('a \<Rightarrow> 'a \<Rightarrow> bool) \<Rightarrow> 'a list \<Rightarrow> 'a list" where
  "insertion_sort lt xs = rev (fold (insert_back lt) xs [])"

definition sort_Slice :: "('a list \<Rightarrow> 'a list) \<Rightarrow> ('a \<Rightarrow> 'a \<Rightarrow> bool) \<Rightarrow> 'a list \<Rightarrow> 'a list" where
  "sort_Slice big lt xs = (if length xs \<le> 12 then insertion_sort lt xs else big xs)"

section \<open>The data\<close>

record dim_agg =
  da_Context :: string
  da_Dimension :: string
  da_Instance :: "string option"
  da_Avg :: f64
  da_Max :: f64
  da_Count :: int

record bn_evidence =
  be_Context :: string
  be_Dimension :: string
  be_Instance :: string
  be_AvgValue :: f64
  be_MaxValue :: f64

record bottleneck_result =
  bo_NodeID :: string
  bo_BottleneckType :: string
  bo_Confidence :: f64
  bo_Evidence :: "bn_evidence list"
  bo_Explanation :: string

text \<open>The variables of the scan over the aggregates.\<close>

record bn_scan =
  cpuUsageAvg :: f64
  cpuUsageMax :: f64
  ramUsedAvg :: f64
  ramUsedMax :: f64
  diskUtilMax :: f64
  iowaitAvg :: f64
  swapUsedAvg :: f64
  hasCPU :: bool
  hasRAM :: bool
  hasDisk :: bool

definition bn_init :: bn_scan where
  "bn_init = \<lparr>cpuUsageAvg = Fin 0, cpuUsageMax = Fin 0, ramUsedAvg = Fin 0, ramUsedMax = Fin 0, diskUtilMax = Fin 0,
     iowaitAvg = Fin 0, swapUsedAvg = Fin 0, hasCPU = False, hasRAM = False, hasDisk = False\<rparr>"

definition bn_cpu :: "dim_agg \<Rightarrow> bn_scan \<Rightarrow> bn_scan" where
  "bn_cpu a s =
     (let s = s\<lparr>hasCPU := True\<rparr>;
          s = (if da_Dimension a \<noteq> ''idle''
               then s\<lparr>cpuUsageAvg := fadd (cpuUsageAvg s) (da_Avg a),
                      cpuUsageMax := (if flt (cpuUsageMax s) (da_Max a) then da_Max a else cpuUsageMax s)\<rparr>
               else s)
      in if da_Dimension a = ''iowait'' then s\<lparr>iowaitAvg := da_Avg a\<rparr> else s)"

definition bn_step :: "dim_agg \<Rightarrow> bn_scan \<Rightarrow> bn_scan" where
  "bn_step a s =
     (if da_Context a = ''system.cpu'' then bn_cpu a s
      else if da_Context a = ''system.ram'' then
        (let s = s\<lparr>hasRAM := True\<rparr> in
         if da_Dimension a = ''used'' then s\<lparr>ramUsedAvg := da_Avg a, ramUsedMax := da_Max a\<rparr> else s)
      else if da_Context a = ''system.swap'' then
        (if da_Dimension a = ''used'' then s\<lparr>swapUsedAvg := da_Avg a\<rparr> else s)
      else if HasPrefix (da_Context a) ''disk.util'' then
        s\<lparr>hasDisk := True, diskUtilMax := (if flt (diskUtilMax s) (da_Max a) then da_Max a else diskUtilMax s)\<rparr>
      else s)"

definition bn_scan_aggs :: "dim_agg list \<Rightarrow> bn_scan" where
  "bn_scan_aggs aggs = fold bn_step aggs bn_init"

section \<open>The candidates\<close>

record bn_candidate =
  cd_btype :: string
  cd_confidence :: f64
  cd_evidence :: "bn_evidence list"
  cd_explain :: string

definition bn_ev :: "string \<Rightarrow> string \<Rightarrow> f64 \<Rightarrow> f64 \<Rightarrow> bn_evidence" where
  "bn_ev c d avg mx = \<lparr>be_Context = c, be_Dimension = d, be_Instance = [], be_AvgValue = avg, be_MaxValue = mx\<rparr>"

definition em :: string where "em = map chr [0xE2, 0x80, 0x94]"

definition cpu_pressure :: "bn_scan \<Rightarrow> bool" where
  "cpu_pressure s \<longleftrightarrow> hasCPU s \<and> (flt (flit 80) (cpuUsageAvg s) \<or> flt (flit 95) (cpuUsageMax s))"

definition cpu_candidate :: "bn_scan \<Rightarrow> bn_candidate" where
  "cpu_candidate s =
     (let conf = fmin (flit 1) (fmul (fdiv (fadd (fdiv (cpuUsageAvg s) (flit 100)) (fdiv (cpuUsageMax s) (flit 100))) (flit 2))
            (flit (12 / 10)))
      in \<lparr>cd_btype = ''cpu'', cd_confidence = round2 conf,
          cd_evidence = [bn_ev ''system.cpu'' ''total_usage'' (round2 (cpuUsageAvg s)) (round2 (cpuUsageMax s))],
          cd_explain = ''CPU usage avg '' @ fmt_fixed 1 (cpuUsageAvg s) @ ''%, peak '' @ fmt_fixed 1 (cpuUsageMax s)
            @ ''% '' @ em @ '' indicates CPU saturation''\<rparr>)"

definition ram_pressure :: "bn_scan \<Rightarrow> bool" where
  "ram_pressure s \<longleftrightarrow> hasRAM s \<and> flt (Fin 0) (ramUsedMax s)
     \<and> (flt (flit 100) (swapUsedAvg s) \<or> flt (fmul (ramUsedMax s) (flit (9 / 10))) (ramUsedAvg s))"

definition ram_candidate :: "bn_scan \<Rightarrow> bn_candidate" where
  "ram_candidate s =
     (let conf = (if flt (flit 500) (swapUsedAvg s) then flit (9 / 10) else flit (6 / 10))
      in \<lparr>cd_btype = ''ram'', cd_confidence = round2 conf,
          cd_evidence = [bn_ev ''system.ram'' ''used'' (round2 (ramUsedAvg s)) (round2 (ramUsedMax s)),
                         bn_ev ''system.swap'' ''used'' (round2 (swapUsedAvg s)) (Fin 0)],
          cd_explain = ''RAM used avg '' @ fmt_fixed 0 (ramUsedAvg s) @ '' / max '' @ fmt_fixed 0 (ramUsedMax s)
            @ '' MiB, swap used avg '' @ fmt_fixed 0 (swapUsedAvg s) @ '' MiB '' @ em @ '' memory pressure detected''\<rparr>)"

definition disk_pressure :: "bn_scan \<Rightarrow> bool" where
  "disk_pressure s \<longleftrightarrow> (hasDisk s \<or> flt (flit 5) (iowaitAvg s))
     \<and> (flt (flit 80) (diskUtilMax s) \<or> flt (flit 10) (iowaitAvg s))"

definition disk_candidate :: "bn_scan \<Rightarrow> bn_candidate" where
  "disk_candidate s =
     (let conf = fmin (flit 1) (fmul (fdiv (fadd (fdiv (diskUtilMax s) (flit 100)) (fdiv (iowaitAvg s) (flit 20))) (flit 2))
            (flit (13 / 10)))
      in \<lparr>cd_btype = ''disk'', cd_confidence = round2 conf,
          cd_evidence = (if hasDisk s then [bn_ev ''disk.util'' ''utilization'' (Fin 0) (round2 (diskUtilMax s))] else [])
            @ (if flt (Fin 0) (iowaitAvg s) then [bn_ev ''system.cpu'' ''iowait'' (round2 (iowaitAvg s)) (Fin 0)] else []),
          cd_explain = ''Disk util peak '' @ fmt_fixed 1 (diskUtilMax s) @ ''%, CPU iowait avg '' @ fmt_fixed 1 (iowaitAvg s)
            @ ''% '' @ em @ '' disk I/O bottleneck likely''\<rparr>)"

definition bn_candidates :: "bn_scan \<Rightarrow> bn_candidate list" where
  "bn_candidates s =
     (if cpu_pressure s then [cpu_candidate s] else []) @ (if ram_pressure s then [ram_candidate s] else [])
     @ (if disk_pressure s then [disk_candidate s] else [])"

text \<open>There are three candidates at most, so the sort is an insertion sort.\<close>

definition DetectBottlenecks :: "string \<Rightarrow> dim_agg list \<Rightarrow> bottleneck_result" where
  "DetectBottlenecks nodeID aggs =
     (let cs = bn_candidates (bn_scan_aggs aggs) in
      case sort_Slice id (\<lambda>a b. flt (cd_confidence b) (cd_confidence a)) cs of
        [] \<Rightarrow> \<lparr>bo_NodeID = nodeID, bo_BottleneckType = ''none'', bo_Confidence = flit (9 / 10), bo_Evidence = [],
               bo_Explanation = ''No bottlenecks detected '' @ em @ '' CPU, RAM, and disk metrics are within normal ranges''\<rparr>
      | best # _ \<Rightarrow> \<lparr>bo_NodeID = nodeID, bo_BottleneckType = cd_btype best, bo_Confidence = cd_confidence best,
               bo_Evidence = cd_evidence best, bo_Explanation = cd_explain best\<rparr>)"

definition bottleneck_sql :: string where
  "bottleneck_sql =
     br 2 @ ''SELECT context, dimension, instance,'' @ br 3 @ ''AVG(value) as avg_val,'' @ br 3
     @ ''MAX(value) as max_val,'' @ br 3 @ ''COUNT(*) as sample_count'' @ br 2
     @ ''FROM hardware_metric_samples'' @ br 2 @ ''WHERE node_id = $1 AND collected_at >= $2'' @ br 2
     @ ''GROUP BY context, dimension, instance'' @ br 2 @ ''ORDER BY context, dimension'' @ br 1"

text \<open>Rows that cannot be scanned are skipped.\<close>

definition good_rows :: "(string + 'r) list \<Rightarrow> 'r list" where
  "good_rows rows = List.map_filter (\<lambda>r. case r of Inl e \<Rightarrow> None | Inr x \<Rightarrow> Some x) rows"

definition result_floats :: "bottleneck_result \<Rightarrow> f64 list" where
  "result_floats r = bo_Confidence r # concat (map (\<lambda>e. [be_AvgValue e, be_MaxValue e]) (bo_Evidence r))"

definition handleBottlenecks :: "dim_agg query \<Rightarrow> int \<Rightarrow> tool_args \<Rightarrow> bottleneck_result tool_result" where
  "handleBottlenecks query now a =
     (let nodeID = str_arg a ''node_id'';
          afterStr = (if str_arg a ''after'' = [] then ''-15m'' else str_arg a ''after'')
      in case parseTimeArg now afterStr of
           None \<Rightarrow> TextResult (invalid_arg ''after'' [] afterStr)
         | Some afterTime \<Rightarrow>
             (case query bottleneck_sql [AText nodeID, ATime afterTime] of
                Inl e \<Rightarrow> TextResult (''Error: '' @ e)
              | Inr (rows, err) \<Rightarrow> jsonResult result_floats (DetectBottlenecks nodeID (good_rows rows))))"

section \<open>Sorting is correct\<close>

lemma insert_back_mset: "mset (insert_back lt x ys) = add_mset x (mset ys)"
  by (induction ys) auto

lemma insertion_sort_mset: "mset (insertion_sort lt xs) = mset xs"
proof -
  have "mset (fold (insert_back lt) xs ys) = mset xs + mset ys" for ys
    by (induction xs arbitrary: ys) (simp_all add: insert_back_mset)
  then show ?thesis by (simp add: insertion_sort_def)
qed

lemma insertion_sort_set [simp]: "set (insertion_sort lt xs) = set xs"
  by (metis insertion_sort_mset set_mset_mset)

lemma insert_back_set: "set (insert_back lt x ys) = insert x (set ys)"
  by (induction ys) auto

text \<open>On a domain where \<open>lt\<close> is a strict weak order the result is sorted.\<close>

locale weak_order =
  fixes lt :: "'a \<Rightarrow> 'a \<Rightarrow> bool" and D :: "'a set"
  assumes asym: "x \<in> D \<Longrightarrow> y \<in> D \<Longrightarrow> lt x y \<Longrightarrow> \<not> lt y x"
    and trans_not: "x \<in> D \<Longrightarrow> y \<in> D \<Longrightarrow> z \<in> D \<Longrightarrow> \<not> lt x y \<Longrightarrow> \<not> lt y z \<Longrightarrow> \<not> lt x z"
begin

lemma insert_back_sorted:
  "sorted_wrt (\<lambda>a b. \<not> lt a b) ys \<Longrightarrow> x \<in> D \<Longrightarrow> set ys \<subseteq> D \<Longrightarrow> sorted_wrt (\<lambda>a b. \<not> lt a b) (insert_back lt x ys)"
proof (induction ys)
  case (Cons y ys)
  show ?case
  proof (cases "lt x y")
    case True
    with Cons asym show ?thesis by (auto simp: insert_back_set)
  next
    case False
    have "\<not> lt x z" if "z \<in> set ys" for z
      using trans_not [of x y z] False that Cons.prems by auto
    with False Cons.prems show ?thesis by auto
  qed
qed simp

lemma insertion_sort_sorted:
  assumes "set xs \<subseteq> D"
  shows "sorted_wrt (\<lambda>a b. \<not> lt b a) (insertion_sort lt xs)"
proof -
  have "sorted_wrt (\<lambda>a b. \<not> lt a b) (fold (insert_back lt) xs ys)"
    if "sorted_wrt (\<lambda>a b. \<not> lt a b) ys" "set ys \<subseteq> D" "set xs \<subseteq> D" for xs ys
    using that
  proof (induction xs arbitrary: ys)
    case (Cons x xs)
    then show ?case by (simp add: insert_back_sorted insert_back_set)
  qed simp
  from this [of "[]" xs] assms show ?thesis by (simp add: insertion_sort_def sorted_wrt_rev)
qed

end

text \<open>Comparing floats that are not NaN, downwards.\<close>

lemma flt_asym: "flt a b \<Longrightarrow> \<not> flt b a"
  by (meson flt_imp_fle fle_flt_trans flt_not_nan not_flt_iff fle_refl)

lemma flt_irrefl: "\<not> flt a a"
  by (cases a) simp_all

lemma fle_iff: "\<not> is_nan a \<Longrightarrow> \<not> is_nan b \<Longrightarrow> fle a b \<longleftrightarrow> \<not> flt b a"
  by (simp add: fle_def)

interpretation by_value: weak_order "\<lambda>a b. flt (f b) (f a)" "{x. \<not> is_nan (f x)}" for f :: "'a \<Rightarrow> f64"
  by unfold_locales (auto dest: flt_asym, metis fle_iff fle_trans)

section \<open>The verdict\<close>

text \<open>Values that are not negative and not NaN, and fractions.\<close>

definition nonneg :: "f64 \<Rightarrow> bool" where "nonneg x \<longleftrightarrow> fle (Fin 0) x"

definition fraction01 :: "f64 \<Rightarrow> bool" where "fraction01 x \<longleftrightarrow> fle (Fin 0) x \<and> fle x (Fin 1)"

lemma nonneg_not_nan: "nonneg x \<Longrightarrow> \<not> is_nan x"
  by (simp add: nonneg_def fle_def)

lemma nonneg_0 [simp]: "nonneg (Fin 0)"
  by (simp add: nonneg_def)

lemma nonneg_fadd: "nonneg a \<Longrightarrow> nonneg b \<Longrightarrow> nonneg (fadd a b)"
  by (simp add: nonneg_def fle_zero_fadd)

lemma nonneg_cases: "nonneg a \<Longrightarrow> is_finite a \<or> a = PInf"
  by (cases a) (auto simp: nonneg_def fle_def)

lemma nonneg_fdiv: "nonneg a \<Longrightarrow> 0 < q \<Longrightarrow> nonneg (fdiv a (Fin q))"
  using nonneg_cases [of a] fle_zero_fdiv [of a q]
  by (auto simp: nonneg_def fdiv_def fsigned_inf_def fle_def Let_def)

lemma nonneg_fmul: "nonneg a \<Longrightarrow> 0 < q \<Longrightarrow> nonneg (fmul a (Fin q))"
  using nonneg_cases [of a] fle_zero_fmul [of a "Fin q"]
  by (auto simp: nonneg_def fmul_def fsigned_inf_def fle_def Let_def)

lemma fmin_1: "nonneg x \<Longrightarrow> fraction01 (fmin (Fin 1) x)"
  by (cases x) (auto simp: nonneg_def fraction01_def fmin_def fle_def)

lemma flit_small:
  assumes "1 \<le> q" and "q \<le> 2"
  obtains p where "flit q = Fin p" and "0 < p"
proof -
  have b: "is_finite (flit q)" using fl_bounded [of q 2 False] assms by (simp add: flit_def)
  have "fle (flit 1) (flit q)" unfolding flit_def by (rule fl_mono [OF assms(1)])
  then have "1 \<le> fval (flit q)" using b by (simp add: flit_1 fle_fval)
  moreover have "flit q \<noteq> NZero" by (simp add: flit_def)
  ultimately show ?thesis using that b by (cases "flit q") auto
qed

lemma flit_fraction: "0 \<le> q \<Longrightarrow> q \<le> 1 \<Longrightarrow> fraction01 (flit q)"
  using fl_mono [of 0 q False False] fl_mono [of q 1 False False] flit_1
  by (simp add: fraction01_def flit_def fl_def [of False 0])

lemma flit_nat: "n \<le> 2 ^ 53 \<Longrightarrow> flit (of_nat n) = Fin (of_nat n)"
  using of_int64_exact [of "int n"] flit_of_int [of "int n"] by (simp add: flip: of_nat_power)

lemma flit_consts: "flit 2 = Fin 2" "flit 20 = Fin 20" "flit 100 = Fin 100"
  using flit_nat [of 2] flit_nat [of 20] flit_nat [of 100] by simp_all

lemma rnd_0_100: "0 \<le> q \<Longrightarrow> q \<le> 100 \<Longrightarrow> 0 \<le> rnd q \<and> rnd q \<le> 100"
  using rnd_nonneg [of q] rnd_mono [of q 100] rnd_int [of 100] by simp

lemma round_away_0 [simp]: "round_away 0 = 0"
proof -
  have "\<lfloor>1 / 2 :: rat\<rfloor> = 0" by (rule floor_unique) simp_all
  then show ?thesis by (simp add: round_away_def)
qed

lemma round2_fraction:
  assumes "fraction01 x"
  shows "fraction01 (round2 x)"
proof -
  have f: "is_finite x" "0 \<le> fval x" "fval x \<le> 1"
    using assms fle_between_finite [of "Fin 0" x "Fin 1"] by (auto simp: fraction01_def fle_fval)
  let ?y = "fmul x (Fin 100)"
  have y: "?y = fl (fneg_bit x) (fval x * 100)" using f(1) by (simp add: fmul_finite)
  have r: "0 \<le> rnd (fval x * 100)" "rnd (fval x * 100) \<le> 100" using rnd_0_100 [of "fval x * 100"] f by simp_all
  have "is_finite ?y" unfolding y using fl_bounded [of "fval x * 100" 100] f by simp
  then have v: "fval ?y = rnd (fval x * 100)" unfolding y by (rule fval_fl)
  have k: "0 \<le> round_away (fval ?y) \<and> round_away (fval ?y) \<le> 100"
    unfolding v using r by (auto simp: round_away_def floor_le_iff)
  have z: "is_finite (fround ?y) \<and> fval (fround ?y) = of_int (round_away (fval ?y))"
    using \<open>is_finite ?y\<close> by (cases ?y) (auto simp: fsigned_zero_def)
  have q: "round2 x = fdiv (fround ?y) (Fin 100)" by (simp add: round2_def flit_consts)
  obtain s where s: "fdiv (fround ?y) (Fin 100) = fl s (of_int (round_away (fval ?y)) / 100)"
    using z by (cases "fround ?y") (auto simp: fdiv_def Let_def)
  have "fle (fl False 0) (fl s (of_int (round_away (fval ?y)) / 100))" by (rule fl_mono) (use k in simp)
  moreover have "fle (fl s (of_int (round_away (fval ?y)) / 100)) (flit 1)"
    unfolding flit_def by (rule fl_mono) (use k in simp)
  ultimately show ?thesis unfolding q s fraction01_def by (simp add: flit_1 fl_def [of False 0])
qed

text \<open>The scan keeps every total and maximum non-negative.\<close>

definition scan_ok :: "bn_scan \<Rightarrow> bool" where
  "scan_ok s \<longleftrightarrow> nonneg (cpuUsageAvg s) \<and> nonneg (cpuUsageMax s) \<and> nonneg (ramUsedAvg s) \<and> nonneg (ramUsedMax s)
     \<and> nonneg (diskUtilMax s) \<and> nonneg (iowaitAvg s) \<and> nonneg (swapUsedAvg s)"

definition agg_ok :: "dim_agg \<Rightarrow> bool" where
  "agg_ok a \<longleftrightarrow> nonneg (da_Avg a) \<and> nonneg (da_Max a)"

lemma bn_step_ok: "scan_ok s \<Longrightarrow> agg_ok a \<Longrightarrow> scan_ok (bn_step a s)"
  by (simp add: scan_ok_def agg_ok_def bn_step_def bn_cpu_def nonneg_fadd Let_def)

lemma bn_scan_ok: "list_all agg_ok aggs \<Longrightarrow> scan_ok (bn_scan_aggs aggs)"
proof -
  have "list_all agg_ok aggs \<Longrightarrow> scan_ok s \<Longrightarrow> scan_ok (fold bn_step aggs s)" for s
    by (induction aggs arbitrary: s) (simp_all add: bn_step_ok)
  moreover have "scan_ok bn_init" by (simp add: scan_ok_def bn_init_def)
  ultimately show "list_all agg_ok aggs \<Longrightarrow> scan_ok (bn_scan_aggs aggs)" by (simp add: bn_scan_aggs_def)
qed

lemma confidence_fraction:
  assumes "nonneg a" and "nonneg b" and "0 < p" and "0 < q" and "1 \<le> k" and "k \<le> 2"
  shows "fraction01 (round2 (fmin (flit 1) (fmul (fdiv (fadd (fdiv a (Fin p)) (fdiv b (Fin q))) (Fin 2)) (flit k))))"
proof -
  obtain r where "flit k = Fin r" "0 < r" by (rule flit_small [OF assms(5,6)])
  then show ?thesis
    using assms(1-4) by (simp add: flit_1) (intro round2_fraction fmin_1 nonneg_fmul nonneg_fdiv nonneg_fadd; simp)
qed

lemma candidates_fraction:
  assumes "scan_ok s" and "c \<in> set (bn_candidates s)"
  shows "fraction01 (cd_confidence c)"
proof -
  have "fraction01 (cd_confidence (cpu_candidate s))" "fraction01 (cd_confidence (disk_candidate s))"
    using assms(1) by (simp_all add: cpu_candidate_def disk_candidate_def scan_ok_def Let_def flit_consts confidence_fraction)
  moreover have "fraction01 (cd_confidence (ram_candidate s))"
    by (simp add: ram_candidate_def Let_def round2_fraction flit_fraction)
  ultimately show ?thesis using assms(2) by (auto simp: bn_candidates_def split: if_splits)
qed

lemma candidate_types:
  "c \<in> set (bn_candidates s) \<Longrightarrow> cd_btype c = ''cpu'' \<and> cpu_pressure s \<or> cd_btype c = ''ram'' \<and> ram_pressure s
    \<or> cd_btype c = ''disk'' \<and> disk_pressure s"
  by (auto simp: bn_candidates_def cpu_candidate_def ram_candidate_def disk_candidate_def Let_def split: if_splits)

lemma no_candidates: "bn_candidates s = [] \<longleftrightarrow> \<not> cpu_pressure s \<and> \<not> ram_pressure s \<and> \<not> disk_pressure s"
  by (simp add: bn_candidates_def)

text \<open>C27. The verdict on aggregates without negative numbers: no bottleneck is reported exactly when none of
  the three pressures is met; otherwise the type, the confidence, the evidence and the explanation
  reported are those of one candidate, whose pressure is met and whose confidence no other candidate
  exceeds. The confidence is a fraction between 0 and 1.\<close>

theorem bottleneck_verdict:
  assumes "list_all agg_ok aggs" and "s = bn_scan_aggs aggs" and "r = DetectBottlenecks nodeID aggs"
  shows "(bo_BottleneckType r = ''none'' \<longleftrightarrow> \<not> cpu_pressure s \<and> \<not> ram_pressure s \<and> \<not> disk_pressure s)
    \<and> (bo_BottleneckType r \<noteq> ''none'' \<longrightarrow> (\<exists>c \<in> set (bn_candidates s).
        r = \<lparr>bo_NodeID = nodeID, bo_BottleneckType = cd_btype c, bo_Confidence = cd_confidence c,
             bo_Evidence = cd_evidence c, bo_Explanation = cd_explain c\<rparr>
        \<and> (\<forall>c' \<in> set (bn_candidates s). fle (cd_confidence c') (cd_confidence c))))
    \<and> (bo_BottleneckType r = ''cpu'' \<longrightarrow> cpu_pressure s) \<and> (bo_BottleneckType r = ''ram'' \<longrightarrow> ram_pressure s)
    \<and> (bo_BottleneckType r = ''disk'' \<longrightarrow> disk_pressure s)
    \<and> bo_BottleneckType r \<in> {''none'', ''cpu'', ''ram'', ''disk''} \<and> fraction01 (bo_Confidence r)"
proof -
  let ?lt = "\<lambda>a b. flt (cd_confidence b) (cd_confidence a)"
  let ?cs = "bn_candidates s"
  have ok: "fraction01 (cd_confidence c)" if "c \<in> set ?cs" for c
    using candidates_fraction bn_scan_ok assms(1,2) that by blast
  then have nn: "\<not> is_nan (cd_confidence c)" if "c \<in> set ?cs" for c
    using that by (auto simp: fraction01_def fle_def)
  have len: "length ?cs \<le> 12" by (simp add: bn_candidates_def)
  show ?thesis
  proof (cases "insertion_sort ?lt ?cs")
    case Nil
    then have "?cs = []" by (metis insertion_sort_set set_empty)
    moreover have "bo_BottleneckType r = ''none''" "bo_Confidence r = flit (9 / 10)"
      using Nil len by (simp_all add: assms(2,3) DetectBottlenecks_def sort_Slice_def Let_def)
    moreover have "fraction01 (flit (9 / 10))" by (rule flit_fraction) simp_all
    moreover have "\<not> cpu_pressure s \<and> \<not> ram_pressure s \<and> \<not> disk_pressure s"
      using no_candidates \<open>?cs = []\<close> by blast
    ultimately show ?thesis using \<open>?cs = []\<close> by auto
  next
    case (Cons best rest)
    then have r: "bo_BottleneckType r = cd_btype best" "bo_Confidence r = cd_confidence best"
      using len by (simp_all add: assms(2,3) DetectBottlenecks_def sort_Slice_def Let_def)
    have set: "set ?cs = insert best (set rest)" using Cons by (metis insertion_sort_set list.set(2))
    have "sorted_wrt (\<lambda>a b. \<not> ?lt b a) (insertion_sort ?lt ?cs)"
      by (rule by_value.insertion_sort_sorted) (use nn in blast)
    then have "\<not> flt (cd_confidence best) (cd_confidence c)" if "c \<in> set rest" for c
      using Cons that by simp
    then have "\<not> flt (cd_confidence best) (cd_confidence c)" if "c \<in> set ?cs" for c
      using that flt_irrefl unfolding set by blast
    then have top: "fle (cd_confidence c) (cd_confidence best)" if "c \<in> set ?cs" for c
      using that nn set unfolding fle_def by blast
    have "best \<in> set ?cs" using set by simp
    from candidate_types [OF this] have t: "cd_btype best = ''cpu'' \<and> cpu_pressure s \<or> cd_btype best = ''ram'' \<and> ram_pressure s
      \<or> cd_btype best = ''disk'' \<and> disk_pressure s" .
    have f: "fraction01 (bo_Confidence r)" using r(2) ok [OF \<open>best \<in> set ?cs\<close>] by simp
    have "r = \<lparr>bo_NodeID = nodeID, bo_BottleneckType = cd_btype best, bo_Confidence = cd_confidence best,
        bo_Evidence = cd_evidence best, bo_Explanation = cd_explain best\<rparr>"
      using Cons len by (simp add: assms(2,3) DetectBottlenecks_def sort_Slice_def Let_def)
    then have "\<exists>c \<in> set ?cs. r = \<lparr>bo_NodeID = nodeID, bo_BottleneckType = cd_btype c, bo_Confidence = cd_confidence c,
          bo_Evidence = cd_evidence c, bo_Explanation = cd_explain c\<rparr>
        \<and> (\<forall>c' \<in> set ?cs. fle (cd_confidence c') (cd_confidence c))"
      using \<open>best \<in> set ?cs\<close> top by blast
    with t f show ?thesis unfolding r(1) by (elim disjE conjE) simp_all
  qed
qed

definition demo_agg :: "string \<Rightarrow> string \<Rightarrow> int \<Rightarrow> dim_agg" where
  "demo_agg c d v = \<lparr>da_Context = c, da_Dimension = d, da_Instance = None, da_Avg = Fin (of_int v), da_Max = Fin (of_int v),
     da_Count = 1\<rparr>"

theorem bottleneck_verdict_witness:
  "bo_BottleneckType (DetectBottlenecks ''n1'' [demo_agg ''system.cpu'' ''idle'' 99, demo_agg ''disk.io'' ''reads'' 7]) = ''none''"
proof -
  let ?aggs = "[demo_agg ''system.cpu'' ''idle'' 99, demo_agg ''disk.io'' ''reads'' 7]"
  have "list_all agg_ok ?aggs" by (simp add: agg_ok_def demo_agg_def nonneg_def fle_def)
  moreover have "flit 80 = Fin 80" "flit 95 = Fin 95" "flit 5 = Fin 5" using flit_nat [of 80] flit_nat [of 95] flit_nat [of 5] by simp_all
  then have "\<not> cpu_pressure (bn_scan_aggs ?aggs) \<and> \<not> ram_pressure (bn_scan_aggs ?aggs) \<and> \<not> disk_pressure (bn_scan_aggs ?aggs)"
    by (simp add: cpu_pressure_def ram_pressure_def disk_pressure_def bn_scan_aggs_def bn_init_def bn_step_def bn_cpu_def
        demo_agg_def Let_def)
  ultimately show ?thesis using bottleneck_verdict [of ?aggs _ _ "''n1''"] by blast
qed

end
