(* ===== verification/McpNatural.thy ===== *)
theory McpNatural
  imports McpQuery
begin

text \<open>
  The tool \<open>natural_query\<close> of \<open>internal/mcp/nlquery.go\<close>: the plan it reads from a sentence, and the metrics
  query it makes of the plan. \<open>uni_lower\<close> is the Unicode case table.
\<close>

record nl_plan =
  np_OriginalQuery :: string
  np_Interpretation :: string
  np_Context :: string
  np_Dimension :: string
  np_After :: string
  np_NodeID :: string

section \<open>Durations as text\<close>

text \<open>\<open>Duration.Round\<close> to a positive unit, and \<open>Duration.String\<close> of a whole number of minutes.\<close>

definition round_duration :: "int \<Rightarrow> int \<Rightarrow> int" where
  "round_duration d m =
     (let r = \<bar>go_mod d m\<bar> in
      if d < 0 then
        (if 2 * r < m then d + r else if in64 (d - m + r) then d - m + r else - (2 ^ 63))
      else if 2 * r < m then d - r else if in64 (d + m - r) then d + m - r else 2 ^ 63 - 1)"

definition minutes_text :: "int \<Rightarrow> string" where
  "minutes_text d =
     (let mins = \<bar>d\<bar> div 60000000000 in
      if mins = 0 then ''0s''
      else (if d < 0 then ''-'' else [])
        @ (if mins \<ge> 60 then itoa (mins div 60) @ ''h'' else []) @ itoa (mins mod 60) @ ''m0s'')"

section \<open>Reading the sentence\<close>

definition contains_any :: "string \<Rightarrow> string list \<Rightarrow> bool" where
  "contains_any q ps \<longleftrightarrow> list_ex (Contains q) ps"

text \<open>The time cases in the order of the switch.\<close>

definition time_cases :: "(string list \<times> string) list" where
  "time_cases =
     [([''last week'', ''past week'', ''7 day''], ''-'' @ itoa (7 * 24) @ ''h''),
      ([''last month'', ''past month'', ''30 day''], ''-'' @ itoa (30 * 24) @ ''h''),
      ([''last 3 day'', ''past 3 day'', ''3 days''], ''-'' @ itoa (3 * 24) @ ''h''),
      ([''last 24'', ''past 24'', ''yesterday''], ''-24h''),
      ([''last 12'', ''past 12''], ''-12h''),
      ([''last 6'', ''past 6''], ''-6h''),
      ([''last 2 hour'', ''past 2 hour''], ''-2h''),
      ([''last 30'', ''past 30''], ''-30m''),
      ([''last 15'', ''past 15'', ''15 min''], ''-15m''),
      ([''last 5'', ''past 5'', ''5 min''], ''-5m'')]"

definition plan_after :: "string \<Rightarrow> string" where
  "plan_after q = (case find (\<lambda>c. contains_any q (fst c)) time_cases of None \<Rightarrow> ''-1h'' | Some c \<Rightarrow> snd c)"

text \<open>The first alternative the sentence holds, if any.\<close>

fun first_case :: "string \<Rightarrow> (string list \<times> string) list \<Rightarrow> string" where
  "first_case q [] = []"
| "first_case q ((ps, v) # cs) = (if contains_any q ps then v else first_case q cs)"

text \<open>The context cases: the words, the context, the interpretation, and the dimension cases inside.\<close>

definition context_cases :: "(string list \<times> string \<times> string \<times> (string list \<times> string) list) list" where
  "context_cases =
     [([''cpu''], ''system.cpu'', ''CPU usage metrics'',
       [([''user''], ''user''), ([''system'', ''kernel''], ''system''), ([''iowait'', ''io wait''], ''iowait'')]),
      ([''ram'', ''memory'', ''mem''], ''system.ram'', ''RAM usage metrics'', [([''used''], ''used''), ([''free''], ''free'')]),
      ([''swap''], ''system.swap'', ''Swap usage metrics'', []),
      ([''disk space'', ''storage'', ''disk.space''], ''disk.space'', ''Disk space metrics'', []),
      ([''disk io'', ''disk read'', ''disk write''], ''disk.io'', ''Disk I/O throughput'',
       [([''read''], ''reads''), ([''write''], ''writes'')]),
      ([''disk util'', ''disk busy''], ''disk.util'', ''Disk utilization percentage'', []),
      ([''disk''], ''disk.io'', ''Disk I/O metrics'', []),
      ([''network'', ''net'', ''bandwidth''], ''system.ip'', ''Network IP traffic'', []),
      ([''io'', ''i/o''], ''system.io'', ''System I/O metrics'', [])]"

definition plan_context :: "string \<Rightarrow> string \<times> string \<times> string" where
  "plan_context q =
     (case find (\<lambda>c. contains_any q (fst c)) context_cases of
        None \<Rightarrow> (''system.cpu'', ''Defaulting to CPU metrics (could not determine specific context)'', [])
      | Some (_, ctx, interp, dims) \<Rightarrow> (ctx, interp, first_case q dims))"

text \<open>The two clock readings are that of \<open>parseTimeArg\<close> and that of \<open>time.Since\<close>.\<close>

definition parseNaturalQuery :: "(string \<Rightarrow> string) \<Rightarrow> int \<Rightarrow> int \<Rightarrow> string \<Rightarrow> string \<Rightarrow> nl_plan" where
  "parseNaturalQuery uni_lower now1 now2 query nodeID =
     (let q = ToLower uni_lower query;
          after = plan_after q;
          (ctx, interp, dimen) = plan_context q;
          afterDur = (case parseTimeArg now1 after of None \<Rightarrow> - 62135596800000000000 | Some t \<Rightarrow> t);
          window = round_duration (sat64 (now2 - afterDur)) 60000000000
      in \<lparr>np_OriginalQuery = query, np_Interpretation = interp @ '' over the last '' @ minutes_text window,
          np_Context = ctx, np_Dimension = dimen, np_After = after, np_NodeID = nodeID\<rparr>)"

text \<open>The arguments of the inner call, and the tool: the plan and the answer of the metrics query.\<close>

definition plan_args :: "nl_plan \<Rightarrow> tool_args" where
  "plan_args p =
     (let a = Map.empty(''node_id'' \<mapsto> JStr (np_NodeID p), ''context'' \<mapsto> JStr (np_Context p), ''after'' \<mapsto> JStr (np_After p))
      in if np_Dimension p \<noteq> [] then a(''dimension'' \<mapsto> JStr (np_Dimension p)) else a)"

definition handleNaturalQuery :: "(string \<Rightarrow> string) \<Rightarrow> (f64 \<Rightarrow> int) \<Rightarrow> metric_row query \<Rightarrow> int \<Rightarrow> int \<Rightarrow> int \<Rightarrow> tool_args
    \<Rightarrow> nl_plan \<times> metric_row list tool_result" where
  "handleNaturalQuery uni_lower impl query now1 now2 now3 a =
     (let plan = parseNaturalQuery uni_lower now1 now2 (str_arg a ''query'') (str_arg a ''node_id'')
      in (plan, handleQueryMetrics impl query now3 now3 (plan_args plan)))"

section \<open>Every sentence gives a valid query\<close>

lemma itoa_small: "itoa 168 = ''168''" "itoa 720 = ''720''" "itoa 72 = ''72''" "itoa 24 = ''24''" "itoa 12 = ''12''" "itoa 6 = ''6''"
  "itoa 2 = ''2''" "itoa 30 = ''30''" "itoa 15 = ''15''" "itoa 5 = ''5''" "itoa 1 = ''1''"
  by code_simp+

lemma hours_minutes: "0 \<le> n \<Longrightarrow> n \<le> 1000 \<Longrightarrow> parseTimeArg now (''-'' @ itoa n @ ''h'') = Some (now - n * 3600000000000)"
  "0 \<le> n \<Longrightarrow> n \<le> 1000 \<Longrightarrow> parseTimeArg now (''-'' @ itoa n @ ''m'') = Some (now - n * 60000000000)"
  by (rule relative_time; simp add: duration_units_def is_ascii_def)+

text \<open>How far back a plan looks, in minutes.\<close>

definition after_minutes :: "(string \<times> int) list" where
  "after_minutes = [(''-168h'', 10080), (''-720h'', 43200), (''-72h'', 4320), (''-24h'', 1440), (''-12h'', 720), (''-6h'', 360),
     (''-2h'', 120), (''-30m'', 30), (''-15m'', 15), (''-5m'', 5), (''-1h'', 60)]"

lemma after_minutes_parse: "(v, k) \<in> set after_minutes \<Longrightarrow> parseTimeArg now v = Some (now - k * 60000000000)"
  using hours_minutes(1) [of 168 now] hours_minutes(1) [of 720 now] hours_minutes(1) [of 72 now] hours_minutes(1) [of 24 now]
    hours_minutes(1) [of 12 now] hours_minutes(1) [of 6 now] hours_minutes(1) [of 2 now] hours_minutes(1) [of 1 now]
    hours_minutes(2) [of 30 now] hours_minutes(2) [of 15 now] hours_minutes(2) [of 5 now]
  unfolding itoa_small by (simp add: after_minutes_def) (elim disjE conjE; simp)

lemma plan_after_known: "\<exists>k. (plan_after q, k) \<in> set after_minutes \<and> 5 \<le> k \<and> k \<le> 43200"
proof (cases "find (\<lambda>c. contains_any q (fst c)) time_cases")
  case None
  then show ?thesis by (simp add: plan_after_def after_minutes_def)
next
  case (Some c)
  then have "c \<in> set time_cases" by (auto simp: find_Some_iff)
  then have "\<exists>k. (snd c, k) \<in> set after_minutes \<and> 5 \<le> k \<and> k \<le> 43200"
    unfolding time_cases_def
    by (simp add: itoa_small) (elim disjE; simp add: after_minutes_def)
  with Some show ?thesis by (simp add: plan_after_def)
qed

definition known_contexts :: "string list" where
  "known_contexts = [''system.cpu'', ''system.ram'', ''system.swap'', ''disk.space'', ''disk.io'', ''disk.util'', ''system.ip'', ''system.io'']"

lemma plan_context_known: "fst (plan_context q) \<in> set known_contexts"
proof (cases "find (\<lambda>c. contains_any q (fst c)) context_cases")
  case None
  then show ?thesis by (simp add: plan_context_def known_contexts_def)
next
  case (Some c)
  then have "c \<in> set context_cases" by (auto simp: find_Some_iff)
  then have "fst (snd c) \<in> set known_contexts"
    unfolding context_cases_def by (simp only: list.set insert_iff empty_iff) (elim disjE; simp add: known_contexts_def)
  with Some show ?thesis by (cases c) (simp add: plan_context_def)
qed

text \<open>C29. Any sentence becomes a valid query: the plan's start time is understood and lies between five minutes
  and thirty days before now, the context is one the collector knows, and the metrics query built
  from it is sent, with the context and the start among its arguments; it is never refused for its
  arguments.\<close>

theorem natural_query_valid:
  assumes "p = parseNaturalQuery uni_lower now1 now2 query nodeID"
  shows "\<exists>t q as i. parseTimeArg now (np_After p) = Some t \<and> now - 43200 * 60000000000 \<le> t \<and> t \<le> now - 5 * 60000000000
    \<and> np_Context p \<in> set known_contexts
    \<and> metrics_builder impl now now (plan_args p) = Inr (q, as, i) \<and> AText (np_Context p) \<in> set as \<and> ATime t \<in> set as"
proof -
  have a: "np_After p = plan_after (ToLower uni_lower query)" "np_Context p = fst (plan_context (ToLower uni_lower query))"
    by (simp_all add: assms parseNaturalQuery_def Let_def split: prod.splits)
  obtain k where k: "(np_After p, k) \<in> set after_minutes" "5 \<le> k" "k \<le> 43200" using plan_after_known a(1) by metis
  have c: "np_Context p \<in> set known_contexts" using plan_context_known a(2) by simp
  then have cne: "np_Context p \<noteq> []" by (auto simp: known_contexts_def)
  have ane: "np_After p \<noteq> []" using k(1) by (auto simp: after_minutes_def)
  have args: "str_arg (plan_args p) ''context'' = np_Context p" "str_arg (plan_args p) ''after'' = np_After p"
    "str_arg (plan_args p) ''before'' = []"
    by (simp_all add: plan_args_def str_arg_def Let_def)
  have t: "parseTimeArg now (np_After p) = Some (now - k * 60000000000)" by (rule after_minutes_parse [OF k(1)])
  let ?t = "now - k * 60000000000"
  have mono: "set (fst (snd b)) \<subseteq> set (fst (snd (text_clause s v b)))" "set (fst (snd b)) \<subseteq> set (fst (snd (labelFilter v b)))" for s v b
    by (auto simp: text_clause_def labelFilter_def add_clause_def split: prod.splits)
  have "AText v \<in> set (fst (snd (text_clause s v b)))" if "v \<noteq> []" for s v b
    using that by (auto simp: text_clause_def add_clause_def split: prod.splits)
  then have ctx: "AText (np_Context p) \<in> set (fst (snd (labelFilter l (text_clause u x (text_clause w y (text_clause s (np_Context p) b))))))"
    for l u x w y s b using cne mono by (meson subsetD)
  obtain b1 where b1: "labelFilter (str_arg (plan_args p) ''labels'') (text_clause '' AND instance = '' (str_arg (plan_args p) ''instance'')
      (text_clause '' AND dimension = '' (str_arg (plan_args p) ''dimension'') (text_clause '' AND context = '' (np_Context p)
        (text_clause '' AND node_id = '' (str_arg (plan_args p) ''node_id'') (select_metrics_from ''hardware_metric_samples'', [], 1))))) = b1"
    and cb: "AText (np_Context p) \<in> set (fst (snd b1))" using ctx by blast
  obtain q as i where b: "add_clause '' ORDER BY collected_at DESC LIMIT '' [] (AInt (query_limit impl (plan_args p)))
      (add_clause '' AND collected_at >= '' [] (ATime ?t) b1) = (q, as, i)" by (metis prod_cases3)
  have "metrics_builder impl now now (plan_args p) = Inr (q, as, i)"
    unfolding metrics_builder_def Let_def args b1 time_clause_def t using ane b by simp
  moreover have "AText (np_Context p) \<in> set as" "ATime ?t \<in> set as"
    using b cb by (auto simp: add_clause_def split: prod.splits)
  ultimately show ?thesis using t c k(2,3) by (intro exI [of _ ?t] exI [of _ q] exI [of _ as] exI [of _ i]) simp
qed

theorem natural_query_valid_witness:
  "\<exists>t. parseTimeArg 0 (np_After (parseNaturalQuery id 0 0 ''show me CPU last week'' [])) = Some t \<and> t \<le> 0"
proof -
  let ?p = "parseNaturalQuery id 0 0 ''show me CPU last week'' []"
  obtain t where "parseTimeArg 0 (np_After ?p) = Some t" "t \<le> 0 - 5 * 60000000000"
    using natural_query_valid [OF refl, of 0 id 0 0 "''show me CPU last week''" "[]" "\<lambda>_. 0"] by blast
  then show ?thesis by auto
qed

end
