(* ===== verification/McpAlerts.thy ===== *)
theory McpAlerts
  imports McpBottleneck
begin

text \<open>
  The alert and anomaly tools (\<open>internal/mcp\<close>: \<open>alerts.go\<close>, \<open>anomaly.go\<close>). A slice taken with a negative
  length panics.
\<close>

section \<open>Alerts\<close>

record alert_rule =
  al_Name :: string
  al_Context :: string
  al_Dimension :: string
  al_Operator :: string
  al_Threshold :: f64
  al_Window :: string
  al_Aggregator :: string
  al_Severity :: string

definition rule_of :: "string \<Rightarrow> string \<Rightarrow> string \<Rightarrow> int \<Rightarrow> string \<Rightarrow> string \<Rightarrow> string \<Rightarrow> alert_rule" where
  "rule_of name ctx dimen thr window agg sev =
     \<lparr>al_Name = name, al_Context = ctx, al_Dimension = dimen, al_Operator = ''>'', al_Threshold = of_int64 thr,
      al_Window = window, al_Aggregator = agg, al_Severity = sev\<rparr>"

definition DefaultAlertRules :: "alert_rule list" where
  "DefaultAlertRules =
     [rule_of ''high_cpu_usage'' ''system.cpu'' ''user'' 90 ''-5m'' ''avg'' ''critical'',
      rule_of ''high_cpu_sustained'' ''system.cpu'' ''user'' 70 ''-15m'' ''avg'' ''warning'',
      rule_of ''high_iowait'' ''system.cpu'' ''iowait'' 20 ''-5m'' ''avg'' ''warning'',
      rule_of ''high_ram_usage'' ''system.ram'' ''used'' 90 ''-5m'' ''avg'' ''warning'',
      rule_of ''disk_util_critical'' ''disk.util'' [] 95 ''-5m'' ''max'' ''critical'',
      rule_of ''disk_util_warning'' ''disk.util'' [] 80 ''-10m'' ''avg'' ''warning'',
      rule_of ''swap_in_use'' ''system.swap'' ''used'' 500 ''-5m'' ''avg'' ''warning'']"

record alert_result =
  ar_Name :: string
  ar_Status :: string
  ar_Severity :: string
  ar_Value :: f64
  ar_Threshold :: f64
  ar_Operator :: string
  ar_Window :: string
  ar_Message :: string

definition agg_func :: "string \<Rightarrow> string" where
  "agg_func a = (if a = ''max'' then ''MAX'' else if a = ''min'' then ''MIN'' else ''AVG'')"

definition alert_sql :: "string \<Rightarrow> string" where
  "alert_sql agg =
     br 2 @ ''SELECT COALESCE('' @ agg @ ''(value), -1)'' @ br 2 @ ''FROM hardware_metric_samples'' @ br 2
     @ ''WHERE node_id = $1 AND collected_at >= $2 AND context LIKE $3''"

definition alert_query :: "string \<Rightarrow> int \<Rightarrow> alert_rule \<Rightarrow> string \<times> sql_arg list" where
  "alert_query nodeID afterTime rule =
     (let q = alert_sql (agg_func (al_Aggregator rule));
          as = [AText nodeID, ATime afterTime, AText (al_Context rule @ ''%'')]
      in if al_Dimension rule \<noteq> [] then (q @ '' AND dimension = $4'', as @ [AText (al_Dimension rule)]) else (q, as))"

definition alert_firing :: "string \<Rightarrow> f64 \<Rightarrow> f64 \<Rightarrow> bool" where
  "alert_firing op v thr =
     (if op = ''>'' then flt thr v else if op = ''>='' then fle thr v
      else if op = ''<'' then flt v thr else if op = ''<='' then fle v thr else False)"

text \<open>\<open>row\<close> is \<open>QueryRow(...).Scan(&value)\<close>.\<close>

definition evaluateAlert :: "(string \<Rightarrow> sql_arg list \<Rightarrow> string + f64) \<Rightarrow> int \<Rightarrow> string \<Rightarrow> alert_rule \<Rightarrow> alert_result" where
  "evaluateAlert row now nodeID rule =
     (let result = \<lparr>ar_Name = al_Name rule, ar_Status = [], ar_Severity = al_Severity rule, ar_Value = Fin 0,
            ar_Threshold = al_Threshold rule, ar_Operator = al_Operator rule, ar_Window = al_Window rule, ar_Message = []\<rparr>;
          agg = agg_func (al_Aggregator rule)
      in case parseTimeArg now (al_Window rule) of
           None \<Rightarrow> result\<lparr>ar_Status := ''no_data'',
               ar_Message := ''invalid window '' @ [CHR 0x22] @ al_Window rule @ [CHR 0x22] @ '': '' @ time_error (al_Window rule)\<rparr>
         | Some afterTime \<Rightarrow>
             (case row (fst (alert_query nodeID afterTime rule)) (snd (alert_query nodeID afterTime rule)) of
                Inl e \<Rightarrow> result\<lparr>ar_Status := ''no_data'', ar_Message := ''no metric data found in the specified window''\<rparr>
              | Inr v \<Rightarrow>
                  if feq v (flit (- 1))
                  then result\<lparr>ar_Status := ''no_data'', ar_Message := ''no metric data found in the specified window''\<rparr>
                  else
                    let result = result\<lparr>ar_Value := round2 v\<rparr> in
                    if alert_firing (al_Operator rule) v (al_Threshold rule)
                    then result\<lparr>ar_Status := ''firing'',
                      ar_Message := al_Name rule @ '' '' @ map ascii_lower agg @ ''(value)='' @ fmt_fixed 2 v @ '' ''
                        @ al_Operator rule @ '' '' @ fmt_fixed 2 (al_Threshold rule) @ '' over '' @ al_Window rule\<rparr>
                    else result\<lparr>ar_Status := ''ok'',
                      ar_Message := al_Name rule @ '' '' @ map ascii_lower agg @ ''(value)='' @ fmt_fixed 2 v
                        @ '' within threshold ('' @ fmt_fixed 2 (al_Threshold rule) @ '')''\<rparr>))"

text \<open>Each rule reads the clock for itself: \<open>clock k\<close> for the \<open>k\<close>-th evaluated.\<close>

definition handleCheckAlerts :: "(string \<Rightarrow> sql_arg list \<Rightarrow> string + f64) \<Rightarrow> (nat \<Rightarrow> int) \<Rightarrow> tool_args \<Rightarrow> alert_result list tool_result" where
  "handleCheckAlerts row clock a =
     (let rules = filter (\<lambda>r. \<not> (str_arg a ''severity'' \<noteq> [] \<and> al_Severity r \<noteq> str_arg a ''severity'')) DefaultAlertRules;
          results = map (\<lambda>(k, r). evaluateAlert row (clock k) (str_arg a ''node_id'') r) (enumerate 0 rules)
      in jsonResult (\<lambda>rs. concat (map (\<lambda>r. [ar_Value r, ar_Threshold r]) rs)) results)"

definition handleListAlerts :: "alert_rule list tool_result" where
  "handleListAlerts = jsonResult (map al_Threshold) DefaultAlertRules"

section \<open>Anomalies\<close>

record anomaly_row =
  an_Context :: string
  an_Dimension :: string
  an_Instance :: string
  an_mean :: f64
  an_stddev :: f64
  an_latest :: f64

record anomaly =
  am_Context :: string
  am_Dimension :: string
  am_Instance :: string
  am_LatestVal :: f64
  am_Mean :: f64
  am_StdDev :: f64
  am_ZScore :: f64
  am_Direction :: string

record anomaly_result =
  as_NodeID :: string
  as_Anomalies :: "anomaly list"
  as_Total :: int

definition zscore :: "anomaly_row \<Rightarrow> f64" where
  "zscore r = fdiv (fsub (an_latest r) (an_mean r)) (an_stddev r)"

definition anomaly_of :: "f64 \<Rightarrow> anomaly_row \<Rightarrow> anomaly list" where
  "anomaly_of threshold r =
     (let z = zscore r in
      if fle threshold (fabs z)
      then [\<lparr>am_Context = an_Context r, am_Dimension = an_Dimension r, am_Instance = an_Instance r,
             am_LatestVal = round2 (an_latest r), am_Mean = round2 (an_mean r), am_StdDev = round2 (an_stddev r),
             am_ZScore = round2 z, am_Direction = (if flt (Fin 0) z then ''high'' else ''low'')\<rparr>]
      else [])"

definition anomaly_sql :: string where
  "anomaly_sql =
     br 2 @ ''SELECT context, dimension, COALESCE(instance, '' @ [CHR 0x27, CHR 0x27] @ '') as instance,'' @ br 3
     @ ''AVG(value) as mean,'' @ br 3 @ ''STDDEV_POP(value) as stddev,'' @ br 3
     @ ''(array_agg(value ORDER BY collected_at DESC))[1] as latest'' @ br 2
     @ ''FROM hardware_metric_samples'' @ br 2 @ ''WHERE node_id = $1 AND collected_at >= $2'' @ br 1"

definition anomaly_builder :: "int \<Rightarrow> tool_args \<Rightarrow> builder" where
  "anomaly_builder afterTime a =
     (case text_clause '' AND context = '' (str_arg a ''context'')
             (anomaly_sql, [AText (str_arg a ''node_id''), ATime afterTime], 3) of
        (q, as, i) \<Rightarrow>
          (q @ '' GROUP BY context, dimension, COALESCE(instance, '' @ [CHR 0x27, CHR 0x27] @ '')'' @ br 2
             @ ''HAVING COUNT(*) >= 5 AND STDDEV_POP(value) > 0'', as, i))"

text \<open>\<open>xs[:limit]\<close> when the slice is longer than the limit.\<close>

definition cut_to :: "int \<Rightarrow> 'a list \<Rightarrow> 'a list outcome" where
  "cut_to limit xs = (if int (length xs) > limit then (if limit < 0 then Panic else Ok (take (nat limit) xs)) else Ok xs)"

definition anomaly_limit :: "(f64 \<Rightarrow> int) \<Rightarrow> tool_args \<Rightarrow> int" where
  "anomaly_limit impl a = (let l = num_arg a ''limit'' in if flt (Fin 0) l then f2i impl l else 20)"

definition anomaly_threshold :: "tool_args \<Rightarrow> f64" where
  "anomaly_threshold a = (let t = num_arg a ''threshold'' in if flt (Fin 0) t then t else flit (5 / 2))"

definition by_zscore :: "anomaly \<Rightarrow> anomaly \<Rightarrow> bool" where
  "by_zscore a b \<longleftrightarrow> flt (fabs (am_ZScore b)) (fabs (am_ZScore a))"

definition anomaly_floats :: "anomaly_result \<Rightarrow> f64 list" where
  "anomaly_floats r = concat (map (\<lambda>a. [am_LatestVal a, am_Mean a, am_StdDev a, am_ZScore a]) (as_Anomalies r))"

definition handleDetectAnomalies :: "(f64 \<Rightarrow> int) \<Rightarrow> (anomaly list \<Rightarrow> anomaly list) \<Rightarrow> anomaly_row query \<Rightarrow> int \<Rightarrow> tool_args
    \<Rightarrow> anomaly_result tool_result outcome" where
  "handleDetectAnomalies impl big query now a =
     (let afterStr = (if str_arg a ''after'' = [] then ''-1h'' else str_arg a ''after'')
      in case parseTimeArg now afterStr of
           None \<Rightarrow> Ok (TextResult (invalid_arg ''after'' [] afterStr))
         | Some afterTime \<Rightarrow>
             (case anomaly_builder afterTime a of (q, as, _) \<Rightarrow>
               (case query q as of
                  Inl e \<Rightarrow> Ok (TextResult (''Error: '' @ e))
                | Inr (rows, err) \<Rightarrow>
                    let found = concat (map (anomaly_of (anomaly_threshold a)) (good_rows rows))
                    in bind_outcome (cut_to (anomaly_limit impl a) (sort_Slice big by_zscore found))
                         (\<lambda>top. Ok (jsonResult anomaly_floats
                            \<lparr>as_NodeID = str_arg a ''node_id'', as_Anomalies = top, as_Total = int (length rows)\<rparr>)))))"

section \<open>Alerts decide by the threshold\<close>

lemma default_windows:
  "r \<in> set DefaultAlertRules \<Longrightarrow> \<exists>n. al_Window r = ''-'' @ itoa n @ ''m'' \<and> 5 \<le> n \<and> n \<le> 15"
proof -
  have "itoa 5 = ''5''" "itoa 10 = ''10''" "itoa 15 = ''15''" by code_simp+
  then have "''-5m'' = ''-'' @ itoa 5 @ ''m''" "''-10m'' = ''-'' @ itoa 10 @ ''m''" "''-15m'' = ''-'' @ itoa 15 @ ''m''" by simp_all
  then have "\<exists>n. w = ''-'' @ itoa n @ ''m'' \<and> 5 \<le> n \<and> n \<le> 15" if "w \<in> {''-5m'', ''-10m'', ''-15m''}" for w
    using that unfolding insert_iff empty_iff
    by (elim disjE) (rule exI [of _ 5], simp, rule exI [of _ 10], simp, rule exI [of _ 15], simp, simp)
  moreover assume "r \<in> set DefaultAlertRules"
  then have "al_Window r \<in> {''-5m'', ''-10m'', ''-15m''}" by (auto simp: DefaultAlertRules_def rule_of_def)
  ultimately show ?thesis by blast
qed

lemma default_thresholds:
  "r \<in> set DefaultAlertRules \<Longrightarrow> \<exists>k. al_Threshold r = Fin (of_int k) \<and> 20 \<le> k \<and> al_Operator r = ''>''"
  by (auto simp: DefaultAlertRules_def rule_of_def of_int64_exact)

lemma sentinel_below: "flt (Fin (of_int k)) v \<Longrightarrow> 0 \<le> k \<Longrightarrow> \<not> feq v (flit (- 1))"
proof -
  have "flit (- 1) = Fin (- 1)" using flit_of_int [of "- 1"] of_int64_exact [of "- 1"] by simp
  then show "flt (Fin (of_int k)) v \<Longrightarrow> 0 \<le> k \<Longrightarrow> \<not> feq v (flit (- 1))"
    by (cases v) (auto simp: feq_def fle_def)
qed

lemma alert_query_fits:
  "r \<in> set DefaultAlertRules \<Longrightarrow> alert_query nodeID t r = (q, as) \<Longrightarrow> placeholders q = map int [1..<Suc (length as)]"
  by (auto simp: DefaultAlertRules_def rule_of_def alert_query_def alert_sql_def agg_func_def Let_def placeholders_def br_def
      numeral_eq_Suc is_digit_def digit_val_def)

text \<open>Every built-in alert rule is evaluated: its window is understood and looks back 5 to 15 minutes, the
  parameters of its statement fit the arguments, and the rule fires exactly when the database answers a
  value above the threshold. No value the sentinel \<open>-1\<close> of an empty window could hide would have fired.\<close>

theorem alerts_fire_above_threshold:
  assumes "r \<in> set DefaultAlertRules"
  shows "\<exists>t. parseTimeArg now (al_Window r) = Some t \<and> now - 15 * 60000000000 \<le> t \<and> t \<le> now - 5 * 60000000000
    \<and> (case alert_query nodeID t r of (q, as) \<Rightarrow> placeholders q = map int [1..<Suc (length as)]
        \<and> (ar_Status (evaluateAlert row now nodeID r) = ''firing'' \<longleftrightarrow> (\<exists>v. row q as = Inr v \<and> flt (al_Threshold r) v))
        \<and> (\<forall>e. row q as = Inl e \<longrightarrow> ar_Status (evaluateAlert row now nodeID r) = ''no_data''))"
proof -
  obtain n where n: "al_Window r = ''-'' @ itoa n @ ''m''" "5 \<le> n" "n \<le> 15" using default_windows assms by blast
  have t: "parseTimeArg now (al_Window r) = Some (now - n * 60000000000)"
    unfolding n(1) by (rule relative_time) (use n in \<open>simp_all add: duration_units_def is_ascii_def\<close>)
  obtain k where k: "al_Threshold r = Fin (of_int k)" "20 \<le> k" "al_Operator r = ''>''" using default_thresholds assms by blast
  obtain q as where qa: "alert_query nodeID (now - n * 60000000000) r = (q, as)" by (cases "alert_query nodeID (now - n * 60000000000) r")
  have "ar_Status (evaluateAlert row now nodeID r) = (case row q as of Inl e \<Rightarrow> ''no_data''
      | Inr v \<Rightarrow> if feq v (flit (- 1)) then ''no_data'' else if flt (al_Threshold r) v then ''firing'' else ''ok'')"
    by (simp add: evaluateAlert_def t qa Let_def alert_firing_def k(3) split: sum.split)
  then have "ar_Status (evaluateAlert row now nodeID r) = ''firing'' \<longleftrightarrow> (\<exists>v. row q as = Inr v \<and> flt (al_Threshold r) v)"
    "\<forall>e. row q as = Inl e \<longrightarrow> ar_Status (evaluateAlert row now nodeID r) = ''no_data''"
    using sentinel_below [of k] k(1,2) by (auto split: sum.split)
  then show ?thesis using t n(2,3) qa alert_query_fits [OF assms qa] by (intro exI [of _ "now - n * 60000000000"]) simp
qed

theorem alerts_fire_above_threshold_witness:
  "\<exists>t. parseTimeArg 0 (al_Window (hd DefaultAlertRules)) = Some t \<and> t \<le> - 300000000000"
proof -
  have "hd DefaultAlertRules \<in> set DefaultAlertRules" by (simp add: DefaultAlertRules_def)
  then show ?thesis using alerts_fire_above_threshold [of "hd DefaultAlertRules" 0] by fastforce
qed

section \<open>The anomalies reported are the largest\<close>

lemma round2_not_nan: "\<not> is_nan x \<Longrightarrow> \<not> is_nan (round2 x)"
proof -
  assume x: "\<not> is_nan x"
  have c: "flit 100 = Fin 100" using flit_nat [of 100] by simp
  have m: "\<not> is_nan (fmul x (Fin 100))" using x by (cases x) (auto simp: fmul_def fsigned_inf_def Let_def)
  then have "\<not> is_nan (fround (fmul x (Fin 100)))"
    by (cases "fmul x (Fin 100)") (simp_all add: fsigned_zero_def)
  then show ?thesis
    unfolding round2_def c by (cases "fround (fmul x (Fin 100))") (auto simp: fdiv_def fsigned_inf_def Let_def)
qed

lemma fabs_nan [simp]: "is_nan (fabs x) = is_nan x"
  by (cases x) simp_all

lemma anomaly_of_sound:
  "m \<in> set (anomaly_of thr r) \<Longrightarrow> fle thr (fabs (zscore r)) \<and> am_ZScore m = round2 (zscore r)
     \<and> am_Context m = an_Context r \<and> am_Dimension m = an_Dimension r \<and> am_Instance m = an_Instance r
     \<and> \<not> is_nan (am_ZScore m)"
  by (auto simp: anomaly_of_def Let_def split: if_splits intro!: round2_not_nan) (simp_all add: fle_def round2_not_nan)

definition sorts :: "('a \<Rightarrow> 'a \<Rightarrow> bool) \<Rightarrow> 'a set \<Rightarrow> ('a list \<Rightarrow> 'a list) \<Rightarrow> bool" where
  "sorts lt D f \<longleftrightarrow> (\<forall>xs. set xs \<subseteq> D \<longrightarrow> mset (f xs) = mset xs \<and> sorted_wrt (\<lambda>a b. \<not> lt b a) (f xs))"

lemma sort_Slice_sorts:
  assumes "sorts by_zscore {m. \<not> is_nan (am_ZScore m)} big"
  shows "sorts by_zscore {m. \<not> is_nan (am_ZScore m)} (sort_Slice big by_zscore)"
proof -
  have "sorted_wrt (\<lambda>a b. \<not> by_zscore b a) (insertion_sort by_zscore xs)" if "set xs \<subseteq> {m. \<not> is_nan (am_ZScore m)}" for xs
    using by_value.insertion_sort_sorted [of xs "\<lambda>m. fabs (am_ZScore m)"] that by (simp add: by_zscore_def [abs_def])
  then show ?thesis using assms by (simp add: sorts_def sort_Slice_def insertion_sort_mset)
qed

lemma cut_to_take: "0 \<le> l \<Longrightarrow> cut_to l xs = Ok (take (nat l) xs)"
  by (simp add: cut_to_def)

lemma concat_map_if: "(\<And>x. f x = (if P x then [g x] else [])) \<Longrightarrow> concat (map f xs) = map g (filter P xs)"
  by (induction xs) simp_all

text \<open>C25. The anomalies reported. Of the rows that can be read, those whose latest value is at least \<open>threshold\<close>
  standard deviations away from the mean, above or below it, are reported, each once, with its rounded
  values and its direction; those further away come first, and when there are more than \<open>limit\<close>, the
  ones left out are not further away than the ones kept. The answer counts every row the database sent.\<close>

theorem anomalies_reported:
  assumes "parseTimeArg now (if str_arg a ''after'' = [] then ''-1h'' else str_arg a ''after'') = Some t"
    and "anomaly_builder t a = (q, as, i)" and "query q as = Inr (rows, err)"
    and "sorts by_zscore {m. \<not> is_nan (am_ZScore m)} big" and "0 \<le> anomaly_limit impl a"
    and "z = (\<lambda>r. fdiv (fsub (an_latest r) (an_mean r)) (an_stddev r))"
  shows "\<exists>top rest. handleDetectAnomalies impl big query now a = Ok (jsonResult anomaly_floats
        \<lparr>as_NodeID = str_arg a ''node_id'', as_Anomalies = top, as_Total = int (length rows)\<rparr>)
    \<and> mset (top @ rest) = mset (map
        (\<lambda>r. \<lparr>am_Context = an_Context r, am_Dimension = an_Dimension r, am_Instance = an_Instance r,
             am_LatestVal = round2 (an_latest r), am_Mean = round2 (an_mean r), am_StdDev = round2 (an_stddev r),
             am_ZScore = round2 (z r), am_Direction = (if flt (Fin 0) (z r) then ''high'' else ''low'')\<rparr>)
        (filter (\<lambda>r. fle (anomaly_threshold a) (fabs (z r))) (good_rows rows)))
    \<and> sorted_wrt (\<lambda>m m'. \<not> flt (fabs (am_ZScore m)) (fabs (am_ZScore m'))) (top @ rest)
    \<and> int (length top) \<le> anomaly_limit impl a \<and> (rest \<noteq> [] \<longrightarrow> int (length top) = anomaly_limit impl a)"
proof -
  let ?found = "concat (map (anomaly_of (anomaly_threshold a)) (good_rows rows))" and ?l = "anomaly_limit impl a"
  have "set ?found \<subseteq> {m. \<not> is_nan (am_ZScore m)}" using anomaly_of_sound by fastforce
  with sort_Slice_sorts [OF assms(4)]
  have ms: "mset (sort_Slice big by_zscore ?found) = mset ?found"
    and so: "sorted_wrt (\<lambda>m m'. \<not> by_zscore m' m) (sort_Slice big by_zscore ?found)" by (simp_all add: sorts_def)
  define ys where "ys = sort_Slice big by_zscore ?found"
  have h: "handleDetectAnomalies impl big query now a = Ok (jsonResult anomaly_floats
      \<lparr>as_NodeID = str_arg a ''node_id'', as_Anomalies = take (nat ?l) ys, as_Total = int (length rows)\<rparr>)"
    by (simp add: handleDetectAnomalies_def Let_def assms(1-3) cut_to_take [OF assms(5)] ys_def)
  have f: "?found = map
      (\<lambda>r. \<lparr>am_Context = an_Context r, am_Dimension = an_Dimension r, am_Instance = an_Instance r,
           am_LatestVal = round2 (an_latest r), am_Mean = round2 (an_mean r), am_StdDev = round2 (an_stddev r),
           am_ZScore = round2 (z r), am_Direction = (if flt (Fin 0) (z r) then ''high'' else ''low'')\<rparr>)
      (filter (\<lambda>r. fle (anomaly_threshold a) (fabs (z r))) (good_rows rows))"
    unfolding assms(6) by (rule concat_map_if) (simp add: anomaly_of_def zscore_def Let_def)
  show ?thesis
    by (rule exI [of _ "take (nat ?l) ys"], rule exI [of _ "drop (nat ?l) ys"])
      (use h ms [unfolded f] so assms(5) in \<open>auto simp: ys_def [symmetric] f [symmetric] by_zscore_def simp del: mset_append\<close>)
qed

definition demo_row :: "int \<Rightarrow> anomaly_row" where
  "demo_row v = \<lparr>an_Context = ''system.cpu'', an_Dimension = ''user'', an_Instance = [], an_mean = Fin 10, an_stddev = Fin 1,
     an_latest = Fin (of_int v)\<rparr>"

theorem anomalies_reported_witness:
  "\<exists>top rest. handleDetectAnomalies (\<lambda>_. 0) (insertion_sort by_zscore) (\<lambda>q as. Inr ([Inl ''bad'', Inr (demo_row 10)], None)) 0 Map.empty
      = Ok (jsonResult anomaly_floats \<lparr>as_NodeID = [], as_Anomalies = top, as_Total = 2\<rparr>) \<and> length top \<le> 20"
proof -
  have args: "str_arg Map.empty k = []" "anomaly_limit (\<lambda>_. 0) Map.empty = 20" for k
    by (simp_all add: str_arg_def anomaly_limit_def num_arg_def)
  have "itoa 1 = ''1''" by code_simp
  then have t: "parseTimeArg 0 ''-1h'' = Some (- 3600000000000)"
    using relative_time [of "''h''" 3600000000000 1 0] by (simp add: duration_units_def is_ascii_def)
  have "set xs \<subseteq> {m. \<not> is_nan (am_ZScore m)} \<Longrightarrow> sorted_wrt (\<lambda>a b. \<not> by_zscore b a) (insertion_sort by_zscore xs)" for xs
    using by_value.insertion_sort_sorted [of xs "\<lambda>m. fabs (am_ZScore m)"] by (simp add: by_zscore_def [abs_def])
  then have s: "sorts by_zscore {m. \<not> is_nan (am_ZScore m)} (insertion_sort by_zscore)"
    by (simp add: sorts_def insertion_sort_mset)
  obtain q as i where b: "anomaly_builder (- 3600000000000) Map.empty = (q, as, i)" by (metis prod_cases3)
  show ?thesis
    using anomalies_reported [OF _ b _ s _ refl, of 0 "\<lambda>q as. Inr ([Inl ''bad'', Inr (demo_row 10)], None)" "[Inl ''bad'', Inr (demo_row 10)]" None "\<lambda>_. 0"]
    by (simp add: args t) blast
qed

text \<open>A limit above the range of \<open>int\<close>: where the conversion then gives the smallest integer, as on amd64, the
  slice expression has a negative bound and the handler panics after every successful query.\<close>

lemma trunc_big: "2 ^ 63 \<le> x \<Longrightarrow> \<not> in64 (trunc_rat x)"
  by (simp add: trunc_rat_def in64_def le_floor_iff floor_less_iff)

theorem anomaly_limit_panics:
  assumes "parseTimeArg now (if str_arg a ''after'' = [] then ''-1h'' else str_arg a ''after'') = Some t"
    and "anomaly_builder t a = (q, as, i)" and "query q as = Inr (rows, err)"
    and "num_arg a ''limit'' = Fin x" and "2 ^ 63 \<le> x"
  shows "handleDetectAnomalies (\<lambda>_. - (2 ^ 63)) big query now a = Panic"
proof -
  have w: "wrap64 (- (2 ^ 63)) < 0" by (simp add: wrap64_def)
  have "0 < x" using assms(5) by (rule less_le_trans [rotated]) simp
  then have "anomaly_limit (\<lambda>_. - (2 ^ 63)) a = wrap64 (- (2 ^ 63))"
    using trunc_big [OF assms(5)] by (simp add: anomaly_limit_def Let_def assms(4) f2i_def)
  with w have "anomaly_limit (\<lambda>_. - (2 ^ 63)) a < 0" by simp
  then have "cut_to (anomaly_limit (\<lambda>_. - (2 ^ 63)) a) xs = Panic" for xs :: "anomaly list"
    by (auto simp: cut_to_def intro: order.strict_trans2)
  then show ?thesis by (simp only: handleDetectAnomalies_def Let_def assms(1-3) option.case sum.case prod.case bind_outcome.simps)
qed

text \<open>SQL's \<open>LIKE\<close>, as the alerts use it: \<open>%\<close> stands for any text and \<open>_\<close> for any character.\<close>

fun sql_like :: "string \<Rightarrow> string \<Rightarrow> bool" where
  "sql_like [] s \<longleftrightarrow> s = []"
| "sql_like (p # ps) [] \<longleftrightarrow> p = CHR ''%'' \<and> sql_like ps []"
| "sql_like (p # ps) (c # cs) \<longleftrightarrow>
     (if p = CHR ''%'' then sql_like ps (c # cs) \<or> sql_like (p # ps) cs
      else (p = CHR ''_'' \<or> p = c) \<and> sql_like ps cs)"

lemma dotless_not_like: "sql_like p s \<Longrightarrow> CHR ''.'' \<in> set p \<Longrightarrow> CHR ''.'' \<in> set s"
proof (induction p s rule: sql_like.induct)
  case (3 p ps c cs)
  then show ?case by (cases "p = CHR ''%''"; cases "p = CHR ''.''") auto
qed auto

end
