(* ===== verification/McpForecast.thy ===== *)
theory McpForecast
  imports McpBottleneck
begin

text \<open>
  The tool \<open>forecast_capacity\<close> of \<open>internal/mcp/forecast.go\<close>: a least-squares line through the hourly averages and
  the time at which it crosses a threshold. Products and sums are rounded one by one, as on amd64.
\<close>

section \<open>The forecast\<close>

text \<open>A sum over the indices of a slice, from zero, in their order.\<close>

definition fsum :: "f64 list \<Rightarrow> f64" where
  "fsum vs = fold (\<lambda>v s. fadd s v) vs (Fin 0)"

definition linearRegression :: "f64 list \<Rightarrow> f64 list \<Rightarrow> f64 \<times> f64 \<times> f64" where
  "linearRegression xs ys =
     (let n = of_int64 (int (length xs));
          sumX = fsum xs; sumY = fsum ys;
          sumXY = fsum (map2 fmul xs ys); sumX2 = fsum (map2 fmul xs xs);
          denom = fsub (fmul n sumX2) (fmul sumX sumX)
      in if feq denom (Fin 0) then (Fin 0, fdiv sumY n, Fin 0)
         else
           let slope = fdiv (fsub (fmul n sumXY) (fmul sumX sumY)) denom;
               intercept = fdiv (fsub sumY (fmul slope sumX)) n;
               meanY = fdiv sumY n;
               res = map2 (\<lambda>x y. fsub y (fadd (fmul slope x) intercept)) xs ys;
               ssRes = fsum (map2 fmul res res);
               dev = map (\<lambda>y. fsub y meanY) ys;
               ssTot = fsum (map2 fmul dev dev);
               r2 = (if feq ssTot (Fin 0) then flit 1 else fmax (Fin 0) (fsub (flit 1) (fdiv ssRes ssTot)))
           in (slope, intercept, r2))"

record forecast_result =
  fc_NodeID :: string
  fc_Context :: string
  fc_Dimension :: string
  fc_CurrentValue :: f64
  fc_Trend :: f64
  fc_Threshold :: f64
  fc_HitsAt :: "int option"
  fc_HoursUntil :: "f64 option"
  fc_DataPoints :: int
  fc_R2 :: f64
  fc_Message :: string

definition forecast_sql :: string where
  "forecast_sql =
     br 2 @ ''SELECT bucket, avg_value'' @ br 2 @ ''FROM hardware_metric_rollups_1h'' @ br 2
     @ ''WHERE node_id = $1 AND context = $2 AND bucket >= $3'' @ br 1"

definition forecast_builder :: "int \<Rightarrow> tool_args \<Rightarrow> builder" where
  "forecast_builder afterTime a =
     (case text_clause '' AND dimension = '' (str_arg a ''dimension'')
             (forecast_sql, [AText (str_arg a ''node_id''), AText (str_arg a ''context''), ATime afterTime], 4) of
        (q, as, i) \<Rightarrow> (q @ '' ORDER BY bucket ASC'', as, i))"

definition hoursToThreshold :: "f64 \<Rightarrow> f64 \<Rightarrow> f64 \<Rightarrow> f64 \<Rightarrow> f64" where
  "hoursToThreshold threshold slope intercept currentHours =
     fdiv (fsub threshold (fadd intercept (fmul slope currentHours))) slope"

text \<open>The hours since the first point, the slope, the intercept and the fit, and the last point.\<close>

definition point_hours :: "(int \<times> f64) list \<Rightarrow> f64 list" where
  "point_hours points = map (\<lambda>p. duration_hours (sat64 (fst p - fst (hd points)))) points"

text \<open>The answer computed from the points; \<open>now\<close> is read when a time of crossing is predicted.\<close>

definition forecast_points :: "(f64 \<Rightarrow> int) \<Rightarrow> int \<Rightarrow> tool_args \<Rightarrow> (int \<times> f64) list \<Rightarrow> forecast_result" where
  "forecast_points impl now a points =
     (let threshold = num_arg a ''threshold'';
          base = \<lparr>fc_NodeID = str_arg a ''node_id'', fc_Context = str_arg a ''context'', fc_Dimension = str_arg a ''dimension'',
             fc_CurrentValue = Fin 0, fc_Trend = Fin 0, fc_Threshold = threshold, fc_HitsAt = None, fc_HoursUntil = None,
             fc_DataPoints = int (length points), fc_R2 = Fin 0, fc_Message = []\<rparr>
      in if length points < 3
         then base\<lparr>fc_Message := ''Insufficient data points for forecast (need at least 3).''\<rparr>
         else
           let xs = point_hours points;
               ys = map snd points;
               (slope, intercept, r2) = linearRegression xs ys;
               currentVal = last ys; currentHours = last xs;
               result = base\<lparr>fc_CurrentValue := round2 currentVal, fc_Trend := round2 slope, fc_R2 := round2 r2\<rparr>
           in if feq slope (Fin 0) then result\<lparr>fc_Message := ''Metric is flat '' @ em @ '' no trend detected.''\<rparr>
              else
                let h = hoursToThreshold threshold slope intercept currentHours
                in if fle h (Fin 0)
                   then result\<lparr>fc_Message := (if fle threshold currentVal then ''Metric already exceeds threshold.''
                          else ''Trend is moving away from threshold.'')\<rparr>
                   else result\<lparr>fc_HitsAt := Some (now + f2i impl (fmul h (of_int64 3600000000000))),
                          fc_HoursUntil := Some (round2 h),
                          fc_Message := (if flt h (flit 24)
                            then ''WARNING: Threshold will be reached in ~'' @ fmt_fixed 1 h @ '' hours.''
                            else ''Threshold predicted in ~'' @ fmt_fixed 0 h @ '' hours (~'' @ fmt_fixed 1 (fdiv h (flit 24)) @ '' days).'')\<rparr>)"

definition forecast_floats :: "forecast_result \<Rightarrow> f64 list" where
  "forecast_floats r = [fc_CurrentValue r, fc_Trend r, fc_Threshold r]
     @ (case fc_HoursUntil r of None \<Rightarrow> [] | Some h \<Rightarrow> [h]) @ [fc_R2 r]"

definition handleForecast :: "(f64 \<Rightarrow> int) \<Rightarrow> (int \<times> f64) query \<Rightarrow> int \<Rightarrow> int \<Rightarrow> tool_args \<Rightarrow> forecast_result tool_result" where
  "handleForecast impl query now1 now2 a =
     (let afterStr = (if str_arg a ''after'' = [] then ''-7d'' else str_arg a ''after'')
      in case parseTimeArg now1 afterStr of
           None \<Rightarrow> TextResult (invalid_arg ''after'' [] afterStr)
         | Some afterTime \<Rightarrow>
             (case forecast_builder afterTime a of (q, as, _) \<Rightarrow>
               (case query q as of
                  Inl e \<Rightarrow> TextResult (''Error: '' @ e)
                | Inr (rows, err) \<Rightarrow> jsonResult forecast_floats (forecast_points impl now2 a (good_rows rows)))))"

section \<open>What it promises\<close>

text \<open>The default window of the forecast is refused: \<open>ParseDuration\<close> knows no days, so a call without \<open>after\<close> is
  answered with an error about its own default \<open>-7d\<close>, whatever the database holds, and no statement is sent.\<close>

theorem forecast_default_refused:
  assumes "str_arg a ''after'' = []"
  shows "handleForecast impl query now1 now2 a = TextResult (invalid_arg ''after'' [] ''-7d'')"
  by (simp add: handleForecast_def assms seven_days_refused)

theorem forecast_default_refused_witness:
  "handleForecast (\<lambda>_. 0) (\<lambda>q as. Inr ([Inr (0, Fin 1), Inr (1, Fin 2), Inr (2, Fin 3)], None)) 0 0
     (Map.empty(''node_id'' \<mapsto> JStr ''n1'', ''context'' \<mapsto> JStr ''system.cpu'', ''threshold'' \<mapsto> JNum (Fin 90)))
   = TextResult (invalid_arg ''after'' [] ''-7d'')"
  by (rule forecast_default_refused) (simp add: str_arg_def)

text \<open>The time of a predicted crossing: not before now when the hours fit a duration, and otherwise what the conversion gives.\<close>

lemma forecast_points_hit:
  assumes "3 \<le> length points"
    and "linearRegression (point_hours points) (map snd points) = (slope, intercept, r2)"
    and "h = hoursToThreshold (num_arg a ''threshold'') slope intercept (last (point_hours points))"
    and "\<not> feq slope (Fin 0)" and "\<not> fle h (Fin 0)"
  shows "fc_HitsAt (forecast_points impl now a points) = Some (now + f2i impl (fmul h (of_int64 3600000000000)))
     \<and> fc_HoursUntil (forecast_points impl now a points) = Some (round2 h)"
  using assms by (simp add: forecast_points_def Let_def)

text \<open>The predicted crossing: when the trend is not flat and reaches the threshold after a positive number of hours
  that fits a duration, the reported time is not in the past; when it does not fit (from about 292
  years on), amd64 reports a time 292 years before now.\<close>

theorem forecast_crossing:
  assumes "3 \<le> length points"
    and "linearRegression (point_hours points) (map snd points) = (slope, intercept, r2)"
    and "h = hoursToThreshold (num_arg a ''threshold'') slope intercept (last (point_hours points))"
    and "\<not> feq slope (Fin 0)" and "flt (Fin 0) h" and "fmul h (of_int64 3600000000000) = Fin y"
  shows "\<exists>t. fc_HitsAt (forecast_points (\<lambda>_. - (2 ^ 63)) now a points) = Some t
    \<and> (if y < 2 ^ 63 then now \<le> t else t = now - 2 ^ 63)"
proof -
  have n: "\<not> fle h (Fin 0)" using assms(5) by (simp add: fle_def)
  have "of_int64 3600000000000 = Fin 3600000000000" using of_int64_exact [of 3600000000000] by simp
  then have "nonneg (Fin y)" using nonneg_fmul [of h 3600000000000] flt_imp_fle [OF assms(5)] assms(6) by (simp add: nonneg_def)
  then have y: "0 \<le> y" by (simp add: nonneg_def fle_fval)
  have hit: "fc_HitsAt (forecast_points (\<lambda>_. - (2 ^ 63)) now a points) = Some (now + f2i (\<lambda>_. - (2 ^ 63)) (Fin y))"
    using forecast_points_hit [OF assms(1-4) n] assms(6) by simp
  have "f2i (\<lambda>_. - (2 ^ 63)) (Fin y) = (if y < 2 ^ 63 then \<lfloor>y\<rfloor> else - (2 ^ 63))"
    using y by (simp add: f2i_def trunc_rat_def in64_def floor_less_iff wrap64_def)
  with hit y show ?thesis by simp
qed

text \<open>Three points on the line of slope one: the threshold 90 is reached 87 hours after the third.\<close>

definition demo_points :: "(int \<times> f64) list" where
  "demo_points = [(0, Fin 1), (3600000000000, Fin 2), (7200000000000, Fin 3)]"

lemma fl_literals: "fl s 1 = Fin 1" "fl s 2 = Fin 2" "fl s 3 = Fin 3" "fl s 4 = Fin 4" "fl s 5 = Fin 5" "fl s 6 = Fin 6"
  "fl s 8 = Fin 8" "fl s 9 = Fin 9" "fl s 15 = Fin 15" "fl s 18 = Fin 18" "fl s 24 = Fin 24" "fl s 87 = Fin 87"
  "fl s 3600000000000 = Fin 3600000000000" "fl s 313200000000000 = Fin 313200000000000" "fl False 0 = Fin 0" "fl s (- 1) = Fin (- 1)"
  using fl_int [of 1 s] fl_int [of 2 s] fl_int [of 3 s] fl_int [of 4 s] fl_int [of 5 s] fl_int [of 6 s] fl_int [of 8 s]
    fl_int [of 9 s] fl_int [of 15 s] fl_int [of 18 s] fl_int [of 24 s] fl_int [of 87 s] fl_int [of 3600000000000 s]
    fl_int [of 313200000000000 s] of_int64_exact [of 0] fl_int [of "- 1" s]
  by (simp_all add: of_int64_def)

lemma arith_Fin: "fadd (Fin a) (Fin b) = fl False (a + b)" "fsub (Fin a) (Fin b) = fl False (a - b)"
  "0 \<le> a \<Longrightarrow> 0 \<le> b \<Longrightarrow> fmul (Fin a) (Fin b) = fl False (a * b)" "a < 0 \<Longrightarrow> b < 0 \<Longrightarrow> fmul (Fin a) (Fin b) = fl False (a * b)"
  "0 \<le> a \<Longrightarrow> 0 < b \<Longrightarrow> fdiv (Fin a) (Fin b) = fl False (a / b)"
  by (simp_all add: fadd_def fsub_def fmul_def fdiv_def)

lemma demo_hours: "point_hours demo_points = [Fin 0, Fin 1, Fin 2]"
  by (simp add: point_hours_def demo_points_def duration_hours_def go_div_def go_mod_def sat64_def in64_def of_int64_def
      flit_def fl_literals arith_Fin)

lemma demo_regression: "linearRegression (point_hours demo_points) (map snd demo_points) = (Fin 1, Fin 1, Fin 1)"
  unfolding demo_hours
  by (simp add: demo_points_def linearRegression_def fsum_def of_int64_def flit_def fl_literals arith_Fin feq_def fle_def fmax_def Let_def)

lemma demo_crossing: "hoursToThreshold (Fin 90) (Fin 1) (Fin 1) (Fin 2) = Fin 87"
  by (simp add: hoursToThreshold_def fl_literals arith_Fin)

theorem forecast_crossing_witness:
  "\<exists>t. fc_HitsAt (forecast_points (\<lambda>_. - (2 ^ 63)) 1000 (Map.empty(''threshold'' \<mapsto> JNum (Fin 90))) demo_points) = Some t \<and> 1000 \<le> t"
proof -
  have "\<not> feq (Fin 1) (Fin 0)" by (simp add: feq_def fle_def)
  moreover have "3 \<le> length demo_points" by (simp add: demo_points_def)
  moreover have "fmul (Fin 87) (of_int64 3600000000000) = Fin 313200000000000" by (simp add: of_int64_def fl_literals arith_Fin)
  ultimately show ?thesis
    using forecast_crossing [OF _ demo_regression refl, of "Map.empty(''threshold'' \<mapsto> JNum (Fin 90))" 313200000000000 1000]
    by (simp add: demo_hours demo_crossing num_arg_def)
qed

end
