(* ===== verification/McpSummary.thy ===== *)
theory McpSummary
  imports McpBottleneck GoCalendar "HOL-Library.AList" "HOL-Library.Char_ord" "HOL-Library.List_Lexorder"
begin

text \<open>
  The tool \<open>summarize_hardware_performance\<close> of \<open>internal/mcp/server.go\<close>. A Go map is an association list with
  one entry per key, and \<open>ord\<close> is the order in which a \<open>range\<close> statement, named by its variable, visits the
  keys. \<open>big\<close> is \<open>sort.Slice\<close> on long slices.
\<close>

section \<open>The statistics\<close>

record summary_row =
  sr_Context :: string
  sr_Dimension :: string
  sr_Instance :: "string option"
  sr_Value :: f64

record dimStats =
  ds_Sum :: f64
  ds_Count :: int
  ds_Max :: f64
  ds_Min :: f64

type_synonym stats = "(string \<times> (string \<times> dimStats) list) list"

definition MaxFloat64 :: f64 where "MaxFloat64 = Fin (2 ^ 1024 - 2 ^ 971)"

definition new_stats :: dimStats where
  "new_stats = \<lparr>ds_Sum = Fin 0, ds_Count = 0, ds_Max = Fin 0, ds_Min = MaxFloat64\<rparr>"

definition stat_key :: "summary_row \<Rightarrow> string" where
  "stat_key r = (case sr_Instance r of
      None \<Rightarrow> sr_Dimension r
    | Some inst \<Rightarrow> if inst \<noteq> [] then inst @ ''/'' @ sr_Dimension r else sr_Dimension r)"

definition add_value :: "f64 \<Rightarrow> dimStats \<Rightarrow> dimStats" where
  "add_value v ds =
     \<lparr>ds_Sum = fadd (ds_Sum ds) v, ds_Count = ds_Count ds + 1,
      ds_Max = (if flt (ds_Max ds) v then v else ds_Max ds), ds_Min = (if flt v (ds_Min ds) then v else ds_Min ds)\<rparr>"

definition dims_of :: "stats \<Rightarrow> string \<Rightarrow> (string \<times> dimStats) list" where
  "dims_of st ctx = (case map_of st ctx of None \<Rightarrow> [] | Some dims \<Rightarrow> dims)"

definition add_row :: "summary_row \<Rightarrow> stats \<Rightarrow> stats" where
  "add_row r st =
     (let dims = dims_of st (sr_Context r);
          ds = (case map_of dims (stat_key r) of None \<Rightarrow> new_stats | Some ds \<Rightarrow> ds)
      in AList.update (sr_Context r) (AList.update (stat_key r) (add_value (sr_Value r) ds) dims) st)"

definition summary_stats :: "summary_row list \<Rightarrow> stats" where
  "summary_stats rows = fold add_row rows []"

section \<open>The summary\<close>

record DimStat =
  st_Avg :: f64
  st_Max :: f64
  st_Min :: f64

record ResourceSummary =
  rs_AveragePercent :: f64
  rs_PeakPercent :: f64
  rs_Dimensions :: "(string \<times> DimStat) list"

record AbnormalDimension =
  ab_Context :: string
  ab_Dimension :: string
  ab_MaxValue :: f64
  ab_AvgValue :: f64

record SummaryResult =
  su_NodeID :: string
  su_From :: int
  su_To :: int
  su_CPU :: "ResourceSummary option"
  su_RAM :: "ResourceSummary option"
  su_DiskIO :: "ResourceSummary option"
  su_DiskUtil :: "ResourceSummary option"
  su_TopAbnormal :: "AbnormalDimension list"
  su_Summary :: string

type_synonym range_order = "string \<Rightarrow> string list \<Rightarrow> string list"

definition range_over :: "range_order \<Rightarrow> string \<Rightarrow> (string \<times> 'a) list \<Rightarrow> (string \<times> 'a) list" where
  "range_over ord loop m = List.map_filter (\<lambda>k. map_option (Pair k) (map_of m k)) (ord loop (map fst m))"

definition ds_avg :: "dimStats \<Rightarrow> f64" where
  "ds_avg ds = fdiv (ds_Sum ds) (of_int64 (ds_Count ds))"

definition dim_stats :: "(string \<times> dimStats) list \<Rightarrow> (string \<times> DimStat) list" where
  "dim_stats dims =
     map (\<lambda>(d, ds). (d, \<lparr>st_Avg = round2 (ds_avg ds), st_Max = round2 (ds_Max ds), st_Min = round2 (ds_Min ds)\<rparr>)) dims"

text \<open>The totals over the dimensions other than idle, in the order they are visited.\<close>

definition cpu_totals :: "(string \<times> dimStats) list \<Rightarrow> f64 \<times> f64" where
  "cpu_totals dims =
     fold (\<lambda>(d, ds) (totalAvg, totalMax).
        if d \<noteq> ''idle'' then (fadd totalAvg (ds_avg ds), if flt totalMax (ds_Max ds) then ds_Max ds else totalMax)
        else (totalAvg, totalMax)) dims (Fin 0, Fin 0)"

definition cpu_summary :: "range_order \<Rightarrow> (string \<times> dimStats) list \<Rightarrow> ResourceSummary \<times> string" where
  "cpu_summary ord dims =
     (let (totalAvg, totalMax) = cpu_totals (range_over ord ''cpuDims'' dims)
      in (\<lparr>rs_AveragePercent = round2 totalAvg, rs_PeakPercent = round2 totalMax, rs_Dimensions = dim_stats dims\<rparr>,
          ''CPU: '' @ fmt_fixed 1 totalAvg @ ''% avg, '' @ fmt_fixed 1 totalMax @ ''% peak''))"

definition ram_used :: "(string \<times> dimStats) list \<Rightarrow> f64 \<times> f64" where
  "ram_used dims = (case map_of dims ''used'' of None \<Rightarrow> (Fin 0, Fin 0) | Some ds \<Rightarrow> (ds_avg ds, ds_Max ds))"

definition ram_summary :: "(string \<times> dimStats) list \<Rightarrow> ResourceSummary \<times> string" where
  "ram_summary dims =
     (let (usedAvg, usedMax) = ram_used dims
      in (\<lparr>rs_AveragePercent = round2 usedAvg, rs_PeakPercent = round2 usedMax, rs_Dimensions = dim_stats dims\<rparr>,
          ''RAM used: '' @ fmt_fixed 1 usedAvg @ '' avg, '' @ fmt_fixed 1 usedMax @ '' peak (MiB)''))"

text \<open>The first context visited that has one of the prefixes.\<close>

definition first_context :: "range_order \<Rightarrow> string \<Rightarrow> string list \<Rightarrow> stats \<Rightarrow> (string \<times> dimStats) list option" where
  "first_context ord loop prefixes st =
     map_option snd (find (\<lambda>(c, dims). list_ex (HasPrefix c) prefixes) (range_over ord loop st))"

definition disk_io_summary :: "(string \<times> dimStats) list \<Rightarrow> ResourceSummary" where
  "disk_io_summary dims = \<lparr>rs_AveragePercent = Fin 0, rs_PeakPercent = Fin 0, rs_Dimensions = dim_stats dims\<rparr>"

definition disk_util_summary :: "range_order \<Rightarrow> (string \<times> dimStats) list \<Rightarrow> ResourceSummary \<times> string" where
  "disk_util_summary ord dims =
     (let maxUtil = fold (\<lambda>(d, ds) m. if flt m (ds_Max ds) then ds_Max ds else m) (range_over ord ''utilDims'' dims) (Fin 0)
      in (\<lparr>rs_AveragePercent = Fin 0, rs_PeakPercent = round2 maxUtil, rs_Dimensions = dim_stats dims\<rparr>,
          ''Disk util peak: '' @ fmt_fixed 1 maxUtil @ ''%''))"

record abnormalCandidate =
  ac_ctx :: string
  ac_dim :: string
  ac_max :: f64
  ac_avg :: f64

definition ordinary_dims :: "string list" where
  "ordinary_dims = [''idle'', ''free'', ''available'', ''cached'', ''buffers'']"

definition abnormal_candidates :: "range_order \<Rightarrow> stats \<Rightarrow> abnormalCandidate list" where
  "abnormal_candidates ord st =
     concat (map (\<lambda>(c, dims).
        List.map_filter (\<lambda>(d, ds). if d \<in> set ordinary_dims then None
          else Some \<lparr>ac_ctx = c, ac_dim = d, ac_max = ds_Max ds, ac_avg = ds_avg ds\<rparr>)
          (range_over ord (''candidateDims/'' @ c) dims))
       (range_over ord ''candidates'' st))"

definition by_max :: "abnormalCandidate \<Rightarrow> abnormalCandidate \<Rightarrow> bool" where
  "by_max a b \<longleftrightarrow> flt (ac_max b) (ac_max a)"

definition top_abnormal :: "(abnormalCandidate list \<Rightarrow> abnormalCandidate list) \<Rightarrow> abnormalCandidate list \<Rightarrow> AbnormalDimension list" where
  "top_abnormal big cs =
     map (\<lambda>c. \<lparr>ab_Context = ac_ctx c, ab_Dimension = ac_dim c, ab_MaxValue = round2 (ac_max c), ab_AvgValue = round2 (ac_avg c)\<rparr>)
       (take 5 (sort_Slice big by_max cs))"

definition buildSummary :: "range_order \<Rightarrow> (abnormalCandidate list \<Rightarrow> abnormalCandidate list) \<Rightarrow> string \<Rightarrow> int \<Rightarrow> int \<Rightarrow> stats
    \<Rightarrow> SummaryResult" where
  "buildSummary ord big nodeID t0 t1 st =
     (let cpu = map_option (cpu_summary ord) (map_of st ''system.cpu'');
          ram = map_option ram_summary (map_of st ''system.ram'');
          dio = map_option disk_io_summary (first_context ord ''diskio'' [''disk.io'', ''system.io''] st);
          du = map_option (disk_util_summary ord) (first_context ord ''diskutil'' [''disk.util''] st);
          parts = List.map_filter (map_option snd) [cpu, ram, du]
      in \<lparr>su_NodeID = nodeID, su_From = t0, su_To = t1, su_CPU = map_option fst cpu, su_RAM = map_option fst ram,
          su_DiskIO = dio, su_DiskUtil = map_option fst du, su_TopAbnormal = top_abnormal big (abnormal_candidates ord st),
          su_Summary = (if parts \<noteq> []
            then ''Node '' @ nodeID @ '' ('' @ FormatRFC3339 t0 @ '' to '' @ FormatRFC3339 t1 @ ''): '' @ Join parts ''; ''
            else ''Node '' @ nodeID @ '': no CPU/RAM/disk data in the selected window'')\<rparr>)"

text \<open>The numbers of the answer in the order the encoder meets them; it writes a map by its sorted keys.\<close>

definition resource_floats :: "ResourceSummary option \<Rightarrow> f64 list" where
  "resource_floats ro = (case ro of None \<Rightarrow> []
     | Some r \<Rightarrow> [rs_AveragePercent r, rs_PeakPercent r]
         @ concat (map (\<lambda>(d, s). [st_Avg s, st_Max s, st_Min s]) (sort_key fst (rs_Dimensions r))))"

definition summary_floats :: "SummaryResult \<Rightarrow> f64 list" where
  "summary_floats s =
     resource_floats (su_CPU s) @ resource_floats (su_RAM s) @ resource_floats (su_DiskIO s) @ resource_floats (su_DiskUtil s)
     @ concat (map (\<lambda>a. [ab_MaxValue a, ab_AvgValue a]) (su_TopAbnormal s))"

definition summarize_sql :: string where
  "summarize_sql =
     br 2 @ ''SELECT context, dimension, instance, value'' @ br 2 @ ''FROM hardware_metric_samples'' @ br 2
     @ ''WHERE node_id = $1 AND collected_at >= $2 AND collected_at <= $3'' @ br 2 @ ''ORDER BY context, dimension'' @ br 1"

definition handleSummarize :: "range_order \<Rightarrow> (abnormalCandidate list \<Rightarrow> abnormalCandidate list) \<Rightarrow> summary_row query
    \<Rightarrow> int \<Rightarrow> int \<Rightarrow> int \<Rightarrow> tool_args \<Rightarrow> SummaryResult tool_result" where
  "handleSummarize ord big query now1 now2 now3 a =
     (let nodeID = str_arg a ''node_id'';
          afterStr = (if str_arg a ''after'' = [] then ''-1h'' else str_arg a ''after'')
      in case time_window now1 now2 now3 afterStr (str_arg a ''before'') of
           Inl e \<Rightarrow> TextResult e
         | Inr (afterTime, beforeTime) \<Rightarrow>
             (case query summarize_sql [AText nodeID, ATime afterTime, ATime beforeTime] of
                Inl e \<Rightarrow> TextResult (''Error querying: '' @ e)
              | Inr (rows, err) \<Rightarrow>
                  jsonResult summary_floats (buildSummary ord big nodeID afterTime beforeTime (summary_stats (good_rows rows)))))"

text \<open>The exported copy for tests, with its own copy of the statistics.\<close>

definition BuildSummary :: "range_order \<Rightarrow> (abnormalCandidate list \<Rightarrow> abnormalCandidate list) \<Rightarrow> string \<Rightarrow> int \<Rightarrow> int \<Rightarrow> stats
    \<Rightarrow> SummaryResult" where
  "BuildSummary ord big nodeID t0 t1 st =
     buildSummary ord big nodeID t0 t1 (map (\<lambda>(c, dims). (c, map (\<lambda>(d, ds).
        (d, \<lparr>ds_Sum = ds_Sum ds, ds_Count = ds_Count ds, ds_Max = ds_Max ds, ds_Min = ds_Min ds\<rparr>)) dims)) st)"

section \<open>One pass collects the statistics of every dimension\<close>

definition values_of :: "string \<Rightarrow> string \<Rightarrow> summary_row list \<Rightarrow> f64 list" where
  "values_of c k rows = map sr_Value (filter (\<lambda>r. sr_Context r = c \<and> stat_key r = k) rows)"

lemma dims_of_add_row:
  "map_of (dims_of (add_row r st) c) k =
     (if c = sr_Context r \<and> k = stat_key r
      then Some (add_value (sr_Value r) (case map_of (dims_of st c) k of None \<Rightarrow> new_stats | Some ds \<Rightarrow> ds))
      else map_of (dims_of st c) k)"
proof -
  have "dims_of (AList.update x d st) c = (if c = x then d else dims_of st c)" for x d
    by (simp add: dims_of_def update_conv)
  then show ?thesis by (simp add: add_row_def Let_def update_conv)
qed

lemma fold_add_row:
  "map_of (dims_of (fold add_row rows st) c) k =
     (if values_of c k rows = [] then map_of (dims_of st c) k
      else Some (fold add_value (values_of c k rows) (case map_of (dims_of st c) k of None \<Rightarrow> new_stats | Some ds \<Rightarrow> ds)))"
proof (induction rows arbitrary: st)
  case Nil
  then show ?case by (simp add: values_of_def)
next
  case (Cons r rows)
  show ?case
    unfolding fold.simps comp_apply Cons.IH [of "add_row r st"] dims_of_add_row
    by (auto simp: values_of_def split: option.splits)
qed

lemma add_value_bounds:
  assumes "\<not> is_nan v" "\<not> is_nan (ds_Max ds)" "\<not> is_nan (ds_Min ds)"
  shows "fle v (ds_Max (add_value v ds)) \<and> fle (ds_Max ds) (ds_Max (add_value v ds)) \<and> fle (ds_Min (add_value v ds)) v
    \<and> fle (ds_Min (add_value v ds)) (ds_Min ds) \<and> ds_Max (add_value v ds) \<in> {ds_Max ds, v} \<and> ds_Min (add_value v ds) \<in> {ds_Min ds, v}"
  using assms flt_imp_fle by (auto simp: add_value_def fle_iff flt_irrefl flt_asym)

lemma fold_add_value:
  assumes "\<forall>v \<in> set vs. \<not> is_nan v" and "\<not> is_nan (ds_Max ds)" and "\<not> is_nan (ds_Min ds)" and "ds' = fold add_value vs ds"
  shows "ds_Count ds' = ds_Count ds + int (length vs) \<and> ds_Sum ds' = fold (\<lambda>v s. fadd s v) vs (ds_Sum ds)
    \<and> (\<forall>v \<in> set vs. fle (ds_Min ds') v \<and> fle v (ds_Max ds')) \<and> fle (ds_Max ds) (ds_Max ds') \<and> fle (ds_Min ds') (ds_Min ds)
    \<and> ds_Min ds' \<in> insert (ds_Min ds) (set vs) \<and> ds_Max ds' \<in> insert (ds_Max ds) (set vs)"
  using assms
proof (induction vs arbitrary: ds)
  case (Cons v vs)
  let ?d = "add_value v ds"
  have b: "fle v (ds_Max ?d)" "fle (ds_Max ds) (ds_Max ?d)" "fle (ds_Min ?d) v" "fle (ds_Min ?d) (ds_Min ds)"
    "ds_Max ?d \<in> {ds_Max ds, v}" "ds_Min ?d \<in> {ds_Min ds, v}"
    using add_value_bounds [of v ds] Cons.prems(1-3) by simp_all
  then have nn: "\<not> is_nan (ds_Max ?d)" "\<not> is_nan (ds_Min ?d)" by (auto simp: fle_def)
  have cs: "ds_Count ?d = ds_Count ds + 1" "ds_Sum ?d = fadd (ds_Sum ds) v" by (simp_all add: add_value_def)
  have i: "ds_Count ds' = ds_Count ?d + int (length vs) \<and> ds_Sum ds' = fold (\<lambda>v s. fadd s v) vs (ds_Sum ?d)
    \<and> (\<forall>v \<in> set vs. fle (ds_Min ds') v \<and> fle v (ds_Max ds')) \<and> fle (ds_Max ?d) (ds_Max ds') \<and> fle (ds_Min ds') (ds_Min ?d)
    \<and> ds_Min ds' \<in> insert (ds_Min ?d) (set vs) \<and> ds_Max ds' \<in> insert (ds_Max ?d) (set vs)"
    by (rule Cons.IH [OF _ nn]) (use Cons.prems in simp_all)
  then have m: "fle (ds_Max ?d) (ds_Max ds')" "fle (ds_Min ds') (ds_Min ?d)" by blast+
  have "fle v (ds_Max ds')" "fle (ds_Max ds) (ds_Max ds')" "fle (ds_Min ds') v" "fle (ds_Min ds') (ds_Min ds)"
    using b(1-4) m fle_trans by blast+
  with i cs b(5,6) show ?case by auto
qed simp

text \<open>C26. What a summary is computed from: for every context and key, the one pass over the rows leaves exactly the
  count, the running sum, the least and the greatest of that key's values, and a key without values has
  no entry. But the greatest starts at 0: of values that are all negative it is reported as 0.\<close>

theorem summary_statistics:
  assumes "\<forall>r \<in> set rows. \<not> is_nan (sr_Value r)" and "vs = values_of c k rows"
  shows "case map_of (dims_of (summary_stats rows) c) k of
      None \<Rightarrow> vs = []
    | Some ds \<Rightarrow> vs \<noteq> [] \<and> ds_Count ds = int (length vs) \<and> ds_Sum ds = fold (\<lambda>v s. fadd s v) vs (Fin 0)
        \<and> (\<forall>v \<in> set vs. fle (ds_Min ds) v \<and> fle v (ds_Max ds)) \<and> ds_Min ds \<in> insert MaxFloat64 (set vs)
        \<and> ds_Max ds \<in> insert (Fin 0) (set vs) \<and> ((\<forall>v \<in> set vs. flt v (Fin 0)) \<longrightarrow> ds_Max ds = Fin 0)"
proof (cases "vs = []")
  case True
  then show ?thesis using assms(2) by (simp add: summary_stats_def fold_add_row) (simp add: dims_of_def)
next
  case False
  define ds where "ds = fold add_value vs new_stats"
  have "map_of (dims_of (summary_stats rows) c) k = Some ds"
    using False assms(2) by (simp add: summary_stats_def fold_add_row ds_def) (simp add: dims_of_def)
  moreover have "\<forall>v \<in> set vs. \<not> is_nan v" using assms by (auto simp: values_of_def)
  note f = fold_add_value [OF this, of new_stats ds]
  have f: "ds_Count ds = int (length vs)" "ds_Sum ds = fold (\<lambda>v s. fadd s v) vs (Fin 0)"
    "\<forall>v \<in> set vs. fle (ds_Min ds) v \<and> fle v (ds_Max ds)" "fle (Fin 0) (ds_Max ds)" "ds_Min ds \<in> insert MaxFloat64 (set vs)"
    "ds_Max ds \<in> insert (Fin 0) (set vs)"
    using f ds_def by (simp_all add: new_stats_def MaxFloat64_def)
  moreover have "ds_Max ds = Fin 0" if "\<forall>v \<in> set vs. flt v (Fin 0)"
    using f(4,6) that by (auto simp: fle_def)
  ultimately show ?thesis using False by simp
qed

definition demo_summary_row :: "string \<Rightarrow> int \<Rightarrow> summary_row" where
  "demo_summary_row inst v =
     \<lparr>sr_Context = ''system.ram'', sr_Dimension = ''used'', sr_Instance = Some inst, sr_Value = Fin (of_int v)\<rparr>"

theorem summary_statistics_witness:
  "\<exists>ds. map_of (dims_of (summary_stats [demo_summary_row [] (- 3), demo_summary_row [] (- 5)]) ''system.ram'') ''used'' = Some ds
     \<and> ds_Count ds = 2 \<and> ds_Max ds = Fin 0"
proof -
  let ?rows = "[demo_summary_row [] (- 3), demo_summary_row [] (- 5)]"
  have "\<forall>r \<in> set ?rows. \<not> is_nan (sr_Value r)" by (simp add: demo_summary_row_def)
  moreover have "values_of ''system.ram'' ''used'' ?rows = [Fin (- 3), Fin (- 5)]"
    by (simp add: values_of_def demo_summary_row_def stat_key_def)
  ultimately show ?thesis
    using summary_statistics [of ?rows _ "''system.ram''" "''used''", OF _ refl] by (auto split: option.splits)
qed

section \<open>Instances hide the dimensions the summary looks for\<close>

lemma dims_of_Some: "dims_of st c \<noteq> [] \<Longrightarrow> map_of st c = Some (dims_of st c)"
  by (simp add: dims_of_def split: option.splits)

text \<open>When every memory row names its instance, the summary says that no memory is used: the key it looks for,
  \<open>used\<close>, is stored as \<open>instance/used\<close>, so the average and the peak are 0 whatever the rows say.\<close>

theorem summary_ram_with_instances:
  assumes "\<forall>r \<in> set rows. sr_Context r = ''system.ram'' \<longrightarrow> (\<exists>i. sr_Instance r = Some i \<and> i \<noteq> [])"
    and "r0 \<in> set rows" and "sr_Context r0 = ''system.ram''"
  shows "\<exists>ram. su_RAM (buildSummary ord big nodeID t0 t1 (summary_stats rows)) = Some ram
    \<and> rs_AveragePercent ram = Fin 0 \<and> rs_PeakPercent ram = Fin 0"
proof -
  let ?dims = "dims_of (summary_stats rows) ''system.ram''"
  have e: "map_of ?dims k = (if values_of ''system.ram'' k rows = [] then None
      else Some (fold add_value (values_of ''system.ram'' k rows) new_stats))" for k
    by (simp add: summary_stats_def fold_add_row) (simp add: dims_of_def)
  have "stat_key r \<noteq> ''used''" if r: "r \<in> set rows" "sr_Context r = ''system.ram''" for r
  proof -
    obtain i where "sr_Instance r = Some i" "i \<noteq> []" using assms(1) r by blast
    then have "stat_key r = i @ ''/'' @ sr_Dimension r" by (simp add: stat_key_def)
    then have "CHR ''/'' \<in> set (stat_key r)" by simp
    then show ?thesis by auto
  qed
  then have "values_of ''system.ram'' ''used'' rows = []" by (auto simp: values_of_def filter_empty_conv)
  then have u: "map_of ?dims ''used'' = None" using e by simp
  have "values_of ''system.ram'' (stat_key r0) rows \<noteq> []" using assms(2,3) by (auto simp: values_of_def filter_empty_conv)
  then have "map_of ?dims (stat_key r0) \<noteq> None" using e by simp
  then have "?dims \<noteq> []" by auto
  note s = dims_of_Some [OF this]
  have "round2 (Fin 0) = Fin 0"
    using flit_nat [of 100] by (simp add: round2_def fmul_def fdiv_def fsigned_zero_def Let_def fl_def)
  then show ?thesis by (simp add: buildSummary_def Let_def s ram_summary_def ram_used_def u)
qed

theorem summary_ram_with_instances_witness:
  "\<exists>ram. su_RAM (buildSummary (\<lambda>_ ks. ks) id ''n1'' 0 1 (summary_stats [demo_summary_row ''ram'' 64000])) = Some ram
    \<and> rs_PeakPercent ram = Fin 0"
  using summary_ram_with_instances [of "[demo_summary_row ''ram'' 64000]" "demo_summary_row ''ram'' 64000" "\<lambda>_ ks. ks" id "''n1''" 0 1]
  by (auto simp: demo_summary_row_def)

end
