(* ===== verification/McpServer.thy ===== *)
theory McpServer
  imports McpQuery McpBottleneck McpSummary McpNatural McpAlerts McpForecast
begin

text \<open>
  The MCP server of \<open>internal/mcp\<close> as a whole: the tools \<open>New\<close> registers, each with the arguments its
  schema declares and its handler, and a call by name. The registry is the MCP library's: an interface
  with the laws its documentation gives.
\<close>

section \<open>Schemas\<close>

datatype arg_kind = ArgString | ArgNumber

record tool_arg =
  ta_name :: string
  ta_kind :: arg_kind
  ta_required :: bool
  ta_description :: string

record tool =
  tl_name :: string
  tl_description :: string
  tl_args :: "tool_arg list"

definition string_arg :: "string \<Rightarrow> string \<Rightarrow> tool_arg" where
  "string_arg n d = \<lparr>ta_name = n, ta_kind = ArgString, ta_required = False, ta_description = d\<rparr>"

definition number_arg :: "string \<Rightarrow> string \<Rightarrow> tool_arg" where
  "number_arg n d = \<lparr>ta_name = n, ta_kind = ArgNumber, ta_required = False, ta_description = d\<rparr>"

definition req :: "tool_arg \<Rightarrow> tool_arg" where
  "req a = a\<lparr>ta_required := True\<rparr>"

text \<open>The methods that handle the calls.\<close>

datatype tool_handler =
    ListNodesH | LatestMetricsH | QueryMetricsH | SummarizeH | BottlenecksH | ListAlertsH | CheckAlertsH
  | QueryRollupH | CardinalityH | DetectAnomaliesH | ForecastH | NaturalQueryH

type_synonym registration = "tool \<times> tool_handler"

text \<open>A description in pieces; \<open>quo\<close> is a quoted word.\<close>

definition quo :: "string \<Rightarrow> string" where
  "quo s = [CHR 0x27] @ s @ [CHR 0x27]"

definition doc :: "string list \<Rightarrow> string" where
  "doc ps = concat ps"

section \<open>What is registered\<close>

definition base_tools :: "registration list" where
  "base_tools =
     [(\<lparr>tl_name = ''list_nodes'',
        tl_description = ''List monitored Netdata nodes stored in PostgreSQL. Returns node_id, hostname, netdata_base_url, and last_collected_at for each node.'',
        tl_args = []\<rparr>, ListNodesH),
      (\<lparr>tl_name = ''latest_hardware_metrics'',
        tl_description = ''Return latest CPU, RAM, and disk metrics for a node. Results are grouped by context/instance/dimension.'',
        tl_args =
          [string_arg ''node_id'' ''Node ID to query. If omitted, returns data for all nodes.'',
           string_arg ''contexts'' (doc [''Comma-separated list of contexts to filter (e.g. '', quo ''system.cpu,system.ram'', ''). If omitted, returns all contexts.''])]\<rparr>,
       LatestMetricsH),
      (\<lparr>tl_name = ''query_hardware_metrics'',
        tl_description = ''Query historical hardware metrics from PostgreSQL with flexible filtering.'',
        tl_args =
          [string_arg ''node_id'' ''Filter by node ID.'',
           string_arg ''context'' (doc [''Filter by metric context (e.g. '', quo ''system.cpu'', '').'']),
           string_arg ''dimension'' (doc [''Filter by dimension (e.g. '', quo ''user'', '', '', quo ''system'', '').'']),
           string_arg ''instance'' ''Filter by instance (e.g. disk name, mount point).'',
           string_arg ''labels'' (doc [''Filter by labels as comma-separated key=value pairs (e.g. '', quo ''env=prod,region=us'', ''). Uses JSONB containment.'']),
           string_arg ''after'' (doc [''Start time as ISO timestamp or relative duration like '', quo ''-1h'', '', '', quo ''-30m'', ''.'']),
           string_arg ''before'' ''End time as ISO timestamp.'',
           number_arg ''limit'' ''Maximum number of results. Default 500.'']\<rparr>, QueryMetricsH),
      (\<lparr>tl_name = ''summarize_hardware_performance'',
        tl_description = ''Summarize hardware performance for a node over a time window. Provides CPU/RAM/disk averages, peaks, and a human-readable summary.'',
        tl_args =
          [req (string_arg ''node_id'' ''Node ID to summarize.''),
           string_arg ''after'' (doc [''Start of time window. Default '', quo ''-1h'', ''. Accepts ISO timestamp or relative duration.'']),
           string_arg ''before'' ''End of time window. Accepts ISO timestamp. Default is now.'']\<rparr>, SummarizeH),
      (\<lparr>tl_name = ''find_hardware_bottlenecks'',
        tl_description = ''Detect likely CPU/RAM/disk bottlenecks from stored metric samples. Returns bottleneck type, evidence, confidence score, and explanation.'',
        tl_args =
          [req (string_arg ''node_id'' ''Node ID to analyze.''),
           string_arg ''after'' (doc [''Start of analysis window. Default '', quo ''-15m'', ''. Accepts relative duration or ISO timestamp.''])]\<rparr>,
       BottlenecksH)]"

definition alert_tools :: "registration list" where
  "alert_tools =
     [(\<lparr>tl_name = ''list_alerts'',
        tl_description = ''List all available alert rules that can be evaluated against stored metrics. Returns rule names, thresholds, and severity levels.'',
        tl_args = []\<rparr>, ListAlertsH),
      (\<lparr>tl_name = ''check_alerts'',
        tl_description = ''Evaluate alert rules against stored metrics for a node. Returns which alerts are firing, OK, or have no data.'',
        tl_args =
          [req (string_arg ''node_id'' ''Node ID to check alerts for.''),
           string_arg ''severity'' ''Filter by severity: critical, warning, info. If omitted, all severities are checked.'']\<rparr>, CheckAlertsH)]"

definition rollup_tools :: "registration list" where
  "rollup_tools =
     [(\<lparr>tl_name = ''query_rollup_metrics'',
        tl_description = ''Query pre-aggregated rollup metrics. Automatically selects raw samples (<6h), hourly rollups (6h-7d), or daily rollups (>7d) based on time range.'',
        tl_args =
          [req (string_arg ''node_id'' ''Node ID to query.''),
           string_arg ''context'' (doc [''Filter by metric context (e.g. '', quo ''system.cpu'', '').'']),
           string_arg ''dimension'' ''Filter by dimension.'',
           string_arg ''instance'' ''Filter by instance.'',
           req (string_arg ''after'' (doc [''Start time as ISO timestamp or relative duration like '', quo ''-24h'', '', '', quo ''-7d'', ''.''])),
           string_arg ''before'' ''End time. Default is now.'',
           number_arg ''limit'' ''Maximum results. Default 500, max 5000.'']\<rparr>, QueryRollupH)]"

definition cardinality_tools :: "registration list" where
  "cardinality_tools =
     [(\<lparr>tl_name = ''metric_cardinality'',
        tl_description = ''Show unique context, dimension, and instance counts per node. Helps understand metric volume and cardinality.'',
        tl_args =
          [string_arg ''node_id'' ''Filter by node ID. If omitted, shows all nodes.'',
           string_arg ''after'' (doc [''Only count metrics collected after this time. Accepts relative like '', quo ''-24h'', '' or ISO timestamp.''])]\<rparr>,
       CardinalityH)]"

definition anomaly_tools :: "registration list" where
  "anomaly_tools =
     [(\<lparr>tl_name = ''detect_anomalies'',
        tl_description = ''Detect statistical anomalies in metric streams using z-score analysis. Returns dimensions with values significantly outside normal range.'',
        tl_args =
          [req (string_arg ''node_id'' ''Node ID to analyze.''),
           string_arg ''context'' ''Filter by metric context. If omitted, checks all contexts.'',
           string_arg ''after'' (doc [''Analysis window start. Default '', quo ''-1h'', ''.'']),
           number_arg ''threshold'' ''Z-score threshold for anomaly. Default 2.5.'',
           number_arg ''limit'' ''Max anomalies to return. Default 20.'']\<rparr>, DetectAnomaliesH)]"

definition forecast_tools :: "registration list" where
  "forecast_tools =
     [(\<lparr>tl_name = ''forecast_capacity'',
        tl_description = ''Predict when a metric will hit a threshold using linear regression on historical data. Uses rollup tables for efficiency.'',
        tl_args =
          [req (string_arg ''node_id'' ''Node ID to forecast.''),
           req (string_arg ''context'' (doc [''Metric context (e.g. '', quo ''system.cpu'', '', '', quo ''disk.space'', '').''])),
           string_arg ''dimension'' ''Dimension to forecast. If omitted, uses all dimensions summed.'',
           string_arg ''after'' (doc [''Historical data start. Default '', quo ''-7d'', ''.'']),
           req (number_arg ''threshold'' ''Target threshold value to predict crossing time for.'')]\<rparr>, ForecastH)]"

definition nlquery_tools :: "registration list" where
  "nlquery_tools =
     [(\<lparr>tl_name = ''natural_query'',
        tl_description = doc [''Query metrics using natural language. Translates plain English to structured metric queries. Examples: '',
          quo ''CPU usage last hour'', '', '', quo ''disk space past week'', '', '', quo ''RAM trend last 3 days'', ''.''],
        tl_args =
          [req (string_arg ''query'' (doc [''Natural language query like '', quo ''show me CPU last hour'', '' or '', quo ''disk usage past week'', ''.''])),
           string_arg ''node_id'' ''Node ID. If omitted, queries all nodes.'']\<rparr>, NaturalQueryH)]"

definition all_tools :: "registration list" where
  "all_tools = base_tools @ alert_tools @ rollup_tools @ cardinality_tools @ anomaly_tools @ forecast_tools @ nlquery_tools"

text \<open>\<open>New\<close>: a server of the library with the tools added in this order.\<close>

definition NewServer :: "(string \<Rightarrow> string \<Rightarrow> 'srv) \<Rightarrow> (registration \<Rightarrow> 'srv \<Rightarrow> 'srv) \<Rightarrow> 'srv" where
  "NewServer newMCPServer addTool = fold addTool all_tools (newMCPServer ''netdata-postgres-mcp'' ''1.0.0'')"

section \<open>Calls\<close>

text \<open>What the handlers meet outside: the clock (one reading per \<open>time.Now\<close>, in order), float conversion out of
  range, lower-casing beyond ASCII, the order of the library's sort on big lists and of map iteration, and the
  database, which answers rows to a statement with its arguments.\<close>

record tool_env =
  te_now :: "nat \<Rightarrow> int"
  te_impl :: "f64 \<Rightarrow> int"
  te_lower :: "string \<Rightarrow> string"
  te_sort_anomalies :: "anomaly list \<Rightarrow> anomaly list"
  te_sort_abnormal :: "abnormalCandidate list \<Rightarrow> abnormalCandidate list"
  te_range :: range_order
  te_nodes :: "node_row query"
  te_metrics :: "metric_row query"
  te_summary :: "summary_row query"
  te_aggs :: "dim_agg query"
  te_value :: "string \<Rightarrow> sql_arg list \<Rightarrow> string + f64"
  te_rollups :: "rollup_row query"
  te_cardinality :: "cardinality_row query"
  te_anomalies :: "anomaly_row query"
  te_points :: "(int \<times> f64) query"

datatype tool_answer =
    NodesA "node_row list tool_result"
  | MetricsA "metric_row list tool_result"
  | SummaryA "SummaryResult tool_result"
  | BottleneckA "bottleneck_result tool_result"
  | RulesA "alert_rule list tool_result"
  | AlertsA "alert_result list tool_result"
  | RollupA "rollup_result tool_result"
  | CardinalityA "cardinality_row list tool_result"
  | AnomaliesA "anomaly_result tool_result outcome"
  | ForecastA "forecast_result tool_result"
  | NaturalA "nl_plan \<times> metric_row list tool_result"

fun run_tool :: "tool_env \<Rightarrow> tool_handler \<Rightarrow> tool_args \<Rightarrow> tool_answer" where
  "run_tool e ListNodesH a = NodesA (handleListNodes (te_nodes e))"
| "run_tool e LatestMetricsH a = MetricsA (handleLatestMetrics (te_metrics e) a)"
| "run_tool e QueryMetricsH a = MetricsA (handleQueryMetrics (te_impl e) (te_metrics e) (te_now e 0) (te_now e 1) a)"
| "run_tool e SummarizeH a =
     SummaryA (handleSummarize (te_range e) (te_sort_abnormal e) (te_summary e) (te_now e 0) (te_now e 1) (te_now e 2) a)"
| "run_tool e BottlenecksH a = BottleneckA (handleBottlenecks (te_aggs e) (te_now e 0) a)"
| "run_tool e ListAlertsH a = RulesA handleListAlerts"
| "run_tool e CheckAlertsH a = AlertsA (handleCheckAlerts (te_value e) (te_now e) a)"
| "run_tool e QueryRollupH a =
     RollupA (handleQueryRollup (te_impl e) (te_rollups e) (te_now e 0) (te_now e 1) (te_now e 2) a)"
| "run_tool e CardinalityH a = CardinalityA (handleCardinality (te_cardinality e) (te_now e 0) (te_now e 1) a)"
| "run_tool e DetectAnomaliesH a =
     AnomaliesA (handleDetectAnomalies (te_impl e) (te_sort_anomalies e) (te_anomalies e) (te_now e 0) a)"
| "run_tool e ForecastH a = ForecastA (handleForecast (te_impl e) (te_points e) (te_now e 0) (te_now e 1) a)"
| "run_tool e NaturalQueryH a =
     NaturalA (handleNaturalQuery (te_lower e) (te_impl e) (te_metrics e) (te_now e 0) (te_now e 1) (te_now e 2) a)"

text \<open>A call by name; an unknown name is the library's to answer.\<close>

definition callTool :: "('srv \<Rightarrow> string \<Rightarrow> registration option) \<Rightarrow> 'srv \<Rightarrow> tool_env \<Rightarrow> string \<Rightarrow> tool_args \<Rightarrow> tool_answer option" where
  "callTool getTool srv e name a = map_option (\<lambda>(t, h). run_tool e h a) (getTool srv name)"

section \<open>The registry\<close>

locale tool_registry =
  fixes newMCPServer :: "string \<Rightarrow> string \<Rightarrow> 'srv"
    and addTool :: "registration \<Rightarrow> 'srv \<Rightarrow> 'srv"
    and getTool :: "'srv \<Rightarrow> string \<Rightarrow> registration option"
  assumes new_empty: "getTool (newMCPServer n v) name = None"
    and get_add: "getTool (addTool (t, h) srv) name = (if name = tl_name t then Some (t, h) else getTool srv name)"
begin

lemma get_other: "name \<notin> set (map (tl_name \<circ> fst) ts) \<Longrightarrow> getTool (fold addTool ts srv) name = getTool srv name"
proof (induction ts arbitrary: srv)
  case (Cons r ts)
  then show ?case by (cases r) (simp add: get_add)
qed simp

lemma get_member:
  "distinct (map (tl_name \<circ> fst) ts) \<Longrightarrow> (t, h) \<in> set ts \<Longrightarrow> getTool (fold addTool ts srv) (tl_name t) = Some (t, h)"
proof (induction ts arbitrary: srv)
  case (Cons r ts)
  show ?case
  proof (cases "(t, h) = r")
    case True
    from Cons.prems(1) have "tl_name t \<notin> set (map (tl_name \<circ> fst) ts)" by (simp add: True [symmetric])
    from get_other [OF this] show ?thesis by (simp add: True [symmetric] get_add)
  next
    case False
    with Cons show ?thesis by simp
  qed
qed simp

lemma get_registered:
  assumes "distinct (map (tl_name \<circ> fst) ts)"
  shows "getTool (fold addTool ts (newMCPServer n v)) name = Some (t, h) \<longleftrightarrow> (t, h) \<in> set ts \<and> tl_name t = name"
proof (cases "name \<in> set (map (tl_name \<circ> fst) ts)")
  case False
  with get_other [OF False] new_empty show ?thesis by force
next
  case True
  then obtain t' h' where m: "(t', h') \<in> set ts" "name = tl_name t'" by auto
  have "(t, h) = (t', h')" if "(t, h) \<in> set ts" "tl_name t = name"
    using assms that m unfolding distinct_map inj_on_def by (metis comp_apply fst_conv)
  with get_member [OF assms m(1)] m show ?thesis by auto
qed

end

text \<open>A registry that is a map.\<close>

interpretation map_registry: tool_registry "\<lambda>n v. Map.empty" "\<lambda>(t, h) m. m(tl_name t \<mapsto> (t, h))" "\<lambda>m name. m name"
  by unfold_locales auto

lemma arg_fields:
  "ta_name (string_arg n d) = n" "ta_kind (string_arg n d) = ArgString" "ta_name (number_arg n d) = n" "ta_kind (number_arg n d) = ArgNumber"
  "ta_name (req x) = ta_name x" "ta_kind (req x) = ta_kind x"
  by (simp_all add: string_arg_def number_arg_def req_def)

lemmas tool_tables = all_tools_def base_tools_def alert_tools_def rollup_tools_def cardinality_tools_def anomaly_tools_def
  forecast_tools_def nlquery_tools_def

definition tool_names :: "string list" where
  "tool_names = [''list_nodes'', ''latest_hardware_metrics'', ''query_hardware_metrics'', ''summarize_hardware_performance'',
     ''find_hardware_bottlenecks'', ''list_alerts'', ''check_alerts'', ''query_rollup_metrics'', ''metric_cardinality'',
     ''detect_anomalies'', ''forecast_capacity'', ''natural_query'']"

lemma all_tool_names: "map (tl_name \<circ> fst) all_tools = tool_names"
  by (simp only: tool_tables tool_names_def append.simps list.map comp_apply fst_conv tool.simps)

lemma tool_names_distinct: "distinct tool_names" "length tool_names = 12"
  by (simp_all add: tool_names_def)

section \<open>A call sees what its schema declares\<close>

text \<open>Two argument maps look alike to a schema when every declared argument has the same value of its
  declared kind. An argument of another kind, like a missing one, counts as empty, required or not.\<close>

definition same_arg :: "tool_args \<Rightarrow> tool_args \<Rightarrow> string \<times> arg_kind \<Rightarrow> bool" where
  "same_arg a b = (\<lambda>(n, k). case k of ArgString \<Rightarrow> str_arg a n = str_arg b n | ArgNumber \<Rightarrow> num_arg a n = num_arg b n)"

definition declared :: "tool \<Rightarrow> (string \<times> arg_kind) list" where
  "declared t = map (\<lambda>x. (ta_name x, ta_kind x)) (tl_args t)"

definition same_declared :: "tool \<Rightarrow> tool_args \<Rightarrow> tool_args \<Rightarrow> bool" where
  "same_declared t a b \<longleftrightarrow> list_all (same_arg a b) (declared t)"

text \<open>The arguments each handler looks up, in the code of the handler.\<close>

fun handler_reads :: "tool_handler \<Rightarrow> (string \<times> arg_kind) list" where
  "handler_reads ListNodesH = []"
| "handler_reads LatestMetricsH = [(''node_id'', ArgString), (''contexts'', ArgString)]"
| "handler_reads QueryMetricsH = [(''node_id'', ArgString), (''context'', ArgString), (''dimension'', ArgString), (''instance'', ArgString),
     (''labels'', ArgString), (''after'', ArgString), (''before'', ArgString), (''limit'', ArgNumber)]"
| "handler_reads SummarizeH = [(''node_id'', ArgString), (''after'', ArgString), (''before'', ArgString)]"
| "handler_reads BottlenecksH = [(''node_id'', ArgString), (''after'', ArgString)]"
| "handler_reads ListAlertsH = []"
| "handler_reads CheckAlertsH = [(''node_id'', ArgString), (''severity'', ArgString)]"
| "handler_reads QueryRollupH = [(''node_id'', ArgString), (''context'', ArgString), (''dimension'', ArgString), (''instance'', ArgString),
     (''after'', ArgString), (''before'', ArgString), (''limit'', ArgNumber)]"
| "handler_reads CardinalityH = [(''node_id'', ArgString), (''after'', ArgString)]"
| "handler_reads DetectAnomaliesH = [(''node_id'', ArgString), (''context'', ArgString), (''after'', ArgString), (''threshold'', ArgNumber),
     (''limit'', ArgNumber)]"
| "handler_reads ForecastH = [(''node_id'', ArgString), (''context'', ArgString), (''dimension'', ArgString), (''after'', ArgString),
     (''threshold'', ArgNumber)]"
| "handler_reads NaturalQueryH = [(''query'', ArgString), (''node_id'', ArgString)]"

lemma schemas_match: "list_all (\<lambda>(t, h). declared t = handler_reads h) all_tools"
  by (simp only: tool_tables append.simps list.pred_inject prod.case declared_def tool.simps list.map arg_fields handler_reads.simps simp_thms)

lemma query_limit_same: "num_arg a ''limit'' = num_arg b ''limit'' \<Longrightarrow> query_limit impl a = query_limit impl b"
  by (simp add: query_limit_def)

lemma forecast_points_same:
  assumes "str_arg a ''node_id'' = str_arg b ''node_id''" and "str_arg a ''context'' = str_arg b ''context''"
    and "str_arg a ''dimension'' = str_arg b ''dimension''" and "num_arg a ''threshold'' = num_arg b ''threshold''"
  shows "forecast_points impl now a = forecast_points impl now b"
  by (rule ext) (simp add: forecast_points_def assms)

lemma same_args:
  "same_arg a b (n, ArgString) \<longleftrightarrow> str_arg a n = str_arg b n" "same_arg a b (n, ArgNumber) \<longleftrightarrow> num_arg a n = num_arg b n"
  by (simp_all add: same_arg_def)

lemmas inside_cases = sum.case_cong option.case_cong prod.case_cong

lemma builders_same:
  "list_all (same_arg a b) (handler_reads QueryMetricsH) \<Longrightarrow> metrics_builder impl n1 n2 a = metrics_builder impl n1 n2 b"
  "list_all (same_arg a b) (handler_reads QueryRollupH) \<Longrightarrow> rollup_builder impl w a = rollup_builder impl w b"
  "list_all (same_arg a b) (handler_reads ForecastH) \<Longrightarrow> forecast_builder t a = forecast_builder t b"
  "list_all (same_arg a b) (handler_reads ForecastH) \<Longrightarrow> forecast_points impl now a = forecast_points impl now b"
  "list_all (same_arg a b) (handler_reads DetectAnomaliesH) \<Longrightarrow> anomaly_builder t a = anomaly_builder t b"
  "list_all (same_arg a b) (handler_reads CardinalityH) \<Longrightarrow> cardinality_builder t a = cardinality_builder t b"
  "list_all (same_arg a b) (handler_reads LatestMetricsH) \<Longrightarrow> latest_builder a = latest_builder b"
  by (simp_all add: same_args metrics_builder_def rollup_builder_def query_limit_same [of a b] forecast_builder_def
      forecast_points_same [of a b] anomaly_builder_def cardinality_builder_def latest_builder_def cong: inside_cases)

lemma handler_reads_only:
  assumes "list_all (same_arg a b) (handler_reads h)"
  shows "run_tool e h a = run_tool e h b"
proof (cases h)
  case QueryMetricsH
  with assms builders_same(1) show ?thesis by (simp only: run_tool.simps handleQueryMetrics_def)
next
  case QueryRollupH
  with assms builders_same(2) have "rollup_builder impl w a = rollup_builder impl w b" for impl w by blast
  with assms QueryRollupH show ?thesis by (simp add: same_args handleQueryRollup_def cong: inside_cases)
next
  case ForecastH
  with assms builders_same(3,4) have "forecast_builder t a = forecast_builder t b"
    "forecast_points impl now a = forecast_points impl now b" for t impl now by blast+
  with assms ForecastH show ?thesis by (simp add: same_args handleForecast_def cong: inside_cases)
next
  case DetectAnomaliesH
  with assms builders_same(5) have "anomaly_builder t a = anomaly_builder t b" for t by blast
  with assms DetectAnomaliesH show ?thesis
    by (simp add: same_args handleDetectAnomalies_def anomaly_limit_def anomaly_threshold_def cong: inside_cases)
next
  case CardinalityH
  with assms builders_same(6) have "cardinality_builder t a = cardinality_builder t b" for t by blast
  with assms CardinalityH show ?thesis by (simp add: same_args handleCardinality_def cong: inside_cases)
next
  case LatestMetricsH
  with assms builders_same(7) show ?thesis by (simp only: run_tool.simps handleLatestMetrics_def)
qed (use assms in \<open>simp_all add: same_args handleSummarize_def handleBottlenecks_def handleCheckAlerts_def handleNaturalQuery_def cong: inside_cases\<close>)

text \<open>C21. A call of a tool sees only what the tool declares. With a registry that keeps its promises, exactly the
  twelve tools of the source are served, each under its own name; and the answer of a call depends only
  on the declared arguments with their declared kinds: two calls of a tool that agree on these give the same answer.\<close>

theorem tool_calls_see_declared_arguments:
  assumes "tool_registry newMCPServer addTool getTool" and "srv = NewServer newMCPServer addTool"
  shows "(\<forall>name t h. getTool srv name = Some (t, h) \<longleftrightarrow> (t, h) \<in> set all_tools \<and> tl_name t = name)
    \<and> card {name. getTool srv name \<noteq> None} = 12
    \<and> (\<forall>name t h a b e. getTool srv name = Some (t, h) \<and> same_declared t a b \<longrightarrow>
        callTool getTool srv e name a = callTool getTool srv e name b)"
proof -
  have d: "distinct (map (tl_name \<circ> fst) all_tools)" using tool_names_distinct(1) by (simp only: all_tool_names)
  have g: "getTool srv name = Some (t, h) \<longleftrightarrow> (t, h) \<in> set all_tools \<and> tl_name t = name" for name t h
    unfolding assms(2) NewServer_def by (rule tool_registry.get_registered [OF assms(1) d])
  have "{name. getTool srv name \<noteq> None} = set (map (tl_name \<circ> fst) all_tools)"
    by (force simp: g image_iff)
  then have "card {name. getTool srv name \<noteq> None} = 12"
    using distinct_card [OF tool_names_distinct(1)] tool_names_distinct(2) by (simp only: all_tool_names)
  moreover have "callTool getTool srv e name a = callTool getTool srv e name b"
    if "getTool srv name = Some (t, h)" "same_declared t a b" for name t h a b e
  proof -
    have "declared t = handler_reads h" using that(1) g schemas_match unfolding list_all_iff by blast
    with that handler_reads_only show ?thesis by (simp add: same_declared_def callTool_def)
  qed
  ultimately show ?thesis using g by blast
qed

definition demo_tool_env :: tool_env where
  "demo_tool_env =
     \<lparr>te_now = \<lambda>_. 0, te_impl = \<lambda>_. 0, te_lower = id, te_sort_anomalies = id, te_sort_abnormal = id, te_range = \<lambda>_ ks. ks,
      te_nodes = \<lambda>_ _. Inl ''down'', te_metrics = \<lambda>_ _. Inl ''down'', te_summary = \<lambda>_ _. Inl ''down'', te_aggs = \<lambda>_ _. Inl ''down'',
      te_value = \<lambda>_ _. Inl ''down'', te_rollups = \<lambda>_ _. Inl ''down'', te_cardinality = \<lambda>_ _. Inr ([], None),
      te_anomalies = \<lambda>_ _. Inl ''down'', te_points = \<lambda>_ _. Inl ''down''\<rparr>"

text \<open>A context given to the cardinality tool, which does not declare it, changes nothing; nor does a node id
  that is a number.\<close>

theorem tool_calls_see_declared_arguments_witness:
  "callTool (\<lambda>m name. m name) (NewServer (\<lambda>n v. Map.empty) (\<lambda>(t, h) m. m(tl_name t \<mapsto> (t, h)))) demo_tool_env ''metric_cardinality''
     (Map.empty(''context'' \<mapsto> JStr ''system.cpu'', ''node_id'' \<mapsto> JNum (Fin 1)))
   = callTool (\<lambda>m name. m name) (NewServer (\<lambda>n v. Map.empty) (\<lambda>(t, h) m. m(tl_name t \<mapsto> (t, h)))) demo_tool_env ''metric_cardinality'' Map.empty"
proof -
  let ?get = "\<lambda>m name. m name :: registration option"
  let ?srv = "NewServer (\<lambda>n v. Map.empty) (\<lambda>(t, h) m. m(tl_name t \<mapsto> (t, h)))"
  let ?t = "fst (hd cardinality_tools)"
  have t: "(?t, CardinalityH) \<in> set all_tools" "tl_name ?t = ''metric_cardinality''" "declared ?t = handler_reads CardinalityH"
    by (simp_all only: all_tools_def set_append Un_iff) (simp_all add: cardinality_tools_def declared_def arg_fields)
  note s = tool_calls_see_declared_arguments [OF map_registry.tool_registry_axioms refl]
  have "?get ?srv ''metric_cardinality'' = Some (?t, CardinalityH)" using s t(1,2) by blast
  moreover have "same_declared ?t (Map.empty(''context'' \<mapsto> JStr ''system.cpu'', ''node_id'' \<mapsto> JNum (Fin 1))) Map.empty"
    unfolding same_declared_def t(3) by (simp add: same_arg_def str_arg_def)
  ultimately show ?thesis using s by blast
qed

end
