(* ===== verification/RunLoop.thy ===== *)
theory RunLoop
  imports Scheduler Config
begin

text \<open>
  \<open>Run\<close> and \<open>retentionLoop\<close> of \<open>internal/scheduler/scheduler.go\<close> as loops that need not end: what the
  \<open>select\<close> of each round chooses is a sequence of choices, and not returning is \<open>None\<close>. With it, the
  ranges of the two settings that become a \<open>time.Duration\<close>: the interval of the ticker and the
  retention period.
\<close>

section \<open>for { select { ... } }\<close>

text \<open>
  Round \<open>k\<close> either finds the context done and returns its error (\<open>Inl\<close>), or takes a tick with what
  the body meets (\<open>Inr\<close>). The choice when both are ready is the run time's.
\<close>

partial_function (option) select_loop :: "('e \<Rightarrow> 's \<Rightarrow> 's) \<Rightarrow> (nat \<Rightarrow> string + 'e) \<Rightarrow> nat \<Rightarrow> 's \<Rightarrow> (string \<times> 's) option" where
  "select_loop body choice k s =
     (case choice k of
        Inl err \<Rightarrow> Some (err, s)
      | Inr e \<Rightarrow> select_loop body choice (Suc k) (body e s))"

text \<open>The ticks taken before round \<open>n\<close>.\<close>

definition ticks :: "(nat \<Rightarrow> string + 'e) \<Rightarrow> nat \<Rightarrow> nat \<Rightarrow> 'e list" where
  "ticks choice k n = map (\<lambda>j. projr (choice j)) [k..<n]"

definition first_done :: "(nat \<Rightarrow> string + 'e) \<Rightarrow> nat \<Rightarrow> nat \<Rightarrow> string \<Rightarrow> bool" where
  "first_done choice k n err \<longleftrightarrow> k \<le> n \<and> choice n = Inl err \<and> (\<forall>j. k \<le> j \<and> j < n \<longrightarrow> isl (choice j) = False)"

lemma select_loop_stops:
  assumes "first_done choice k n err"
  shows "select_loop body choice k s = Some (err, fold body (ticks choice k n) s)"
  using assms
proof (induction "n - k" arbitrary: k s)
  case 0
  then have "n = k" "choice k = Inl err" by (auto simp: first_done_def)
  then show ?case by (simp add: select_loop.simps ticks_def)
next
  case (Suc d)
  then have k: "k < n" by simp
  then obtain e where e: "choice k = Inr e" using Suc.prems by (auto simp: first_done_def isl_def split: sum.splits) (metis le_refl sum.exhaust)
  have "first_done choice (Suc k) n err" using Suc.prems k by (simp add: first_done_def)
  from Suc.hyps(1) [OF _ this, of "body e s"] Suc.hyps(2) k e show ?case
    by (subst select_loop.simps) (simp add: ticks_def upt_conv_Cons)
qed

lemma select_loop_returned:
  assumes "select_loop body choice k s = Some r"
  shows "\<exists>n err. first_done choice k n err"
proof (rule select_loop.raw_induct [where P = "\<lambda>body choice k s r. \<exists>n err. first_done choice k n err", OF _ assms])
  fix f :: "('e \<Rightarrow> 's \<Rightarrow> 's) \<Rightarrow> (nat \<Rightarrow> string + 'e) \<Rightarrow> nat \<Rightarrow> 's \<Rightarrow> (string \<times> 's) option" and body choice k s r
  assume IH: "\<And>body choice k s r. f body choice k s = Some r \<Longrightarrow> \<exists>n err. first_done choice k n err"
    and eq: "(case choice k of Inl err \<Rightarrow> Some (err, s) | Inr e \<Rightarrow> f body choice (Suc k) (body e s)) = Some r"
  show "\<exists>n err. first_done choice k n err"
  proof (cases "choice k")
    case (Inl err)
    then have "first_done choice k k err" by (auto simp: first_done_def)
    then show ?thesis by blast
  next
    case (Inr e)
    with eq IH [of body choice "Suc k" "body e s" r] obtain n err where n: "first_done choice (Suc k) n err" by auto
    have "isl (choice j) = False" if "k \<le> j" "j < n" for j
      using that n Inr by (cases "j = k") (auto simp: first_done_def)
    with n have "first_done choice k n err" by (simp add: first_done_def)
    then show ?thesis by blast
  qed
qed

lemma first_done_exists: "(\<exists>n err. first_done choice k n err) \<longleftrightarrow> (\<exists>n \<ge> k. isl (choice n))"
proof
  assume "\<exists>n \<ge> k. isl (choice n)"
  then have ex: "\<exists>n. k \<le> n \<and> isl (choice n)" by blast
  define n where "n = (LEAST n. k \<le> n \<and> isl (choice n))"
  have n: "k \<le> n" "isl (choice n)" using LeastI_ex [OF ex] by (simp_all add: n_def)
  have m: "isl (choice j) = False" if "k \<le> j" "j < n" for j
    using not_less_Least [of j "\<lambda>n. k \<le> n \<and> isl (choice n)"] that by (simp add: n_def)
  from n(2) obtain err where "choice n = Inl err" by (auto simp: isl_def)
  with n(1) m have "first_done choice k n err" by (simp add: first_done_def)
  then show "\<exists>n err. first_done choice k n err" by blast
qed (auto simp: first_done_def)

section \<open>The scheduler's loop\<close>

text \<open>\<open>time.NewTicker\<close> panics unless the interval is positive. \<open>first\<close> is what the initial cycle meets.\<close>

datatype 'w run_end = Returned string 'w | TickerPanic 'w

definition Run :: "('db, 'tx) pg \<Rightarrow> cycle_env \<Rightarrow> (nat \<Rightarrow> string + cycle_env) \<Rightarrow> 'db world \<Rightarrow> 'db world run_end option" where
  "Run pg first choice w =
     (let w = snd (collectOnce pg first (start_run w)) in
      if s_interval (w_sched w) \<le> 0 then Some (TickerPanic w)
      else map_option (\<lambda>(err, w). Returned err w)
             (select_loop (\<lambda>env w. snd (collectOnce pg env w)) choice 0 w))"

text \<open>The clean-up goroutine: the period is read once, a clean-up runs at once, then one per tick. A tick
  brings the three clock readings of \<open>runRetention\<close>.\<close>

definition clean_up :: "('db, 'tx) pg \<Rightarrow> int \<Rightarrow> int \<times> int \<times> int \<Rightarrow> 'db world \<Rightarrow> 'db world" where
  "clean_up pg retention = (\<lambda>(t1, t2, t3). runRetention pg t1 t2 t3 retention)"

definition retentionLoop :: "('db, 'tx) pg \<Rightarrow> int \<times> int \<times> int \<Rightarrow> (nat \<Rightarrow> string + int \<times> int \<times> int) \<Rightarrow> 'db world \<Rightarrow> 'db world option" where
  "retentionLoop pg first choice w =
     (let retention = retention_period (s_retentionDays (w_sched w)) in
      map_option snd (select_loop (clean_up pg retention) choice 0 (clean_up pg retention first w)))"

lemma collectOnce_sched: "w_sched (snd (collectOnce pg env w)) = w_sched w"
  by (auto simp: collectOnce_def finish_cycle_def fail_cycle_def upd_metrics_def Let_def
      split: prod.splits option.splits retry_result.splits)

lemma fold_ticks: "fold (\<lambda>env w. snd (collectOnce pg env w)) envs w = sched_run pg (map Tick envs) w"
  by (induction envs arbitrary: w) (simp_all add: sched_run_def)

text \<open>C15. \<open>Run\<close> returns exactly when its context is done at some round, whatever fails in its cycles: an error
  of a cycle never ends it. What it then returns is the context's error, after the initial cycle and
  one cycle per tick, in order; otherwise it runs for ever.\<close>

theorem Run_returns_iff_cancelled:
  assumes "0 < s_interval (w_sched w)"
  shows "(Run pg first choice w \<noteq> None \<longleftrightarrow> (\<exists>n. isl (choice n)))
    \<and> (\<forall>n err. choice n = Inl err \<and> (\<forall>j < n. \<not> isl (choice j)) \<longrightarrow>
        Run pg first choice w = Some (Returned err (sched_run pg (map Tick (first # ticks choice 0 n)) (start_run w))))"
proof -
  let ?w = "snd (collectOnce pg first (start_run w))" and ?body = "\<lambda>env w. snd (collectOnce pg env w)"
  have i: "\<not> s_interval (w_sched ?w) \<le> 0" using assms by (simp add: collectOnce_sched start_run_def)
  then have R: "Run pg first choice w = map_option (\<lambda>(err, w). Returned err w) (select_loop ?body choice 0 ?w)"
    by (simp add: Run_def Let_def)
  have stop: "select_loop ?body choice 0 ?w = Some (err, sched_run pg (map Tick (first # ticks choice 0 n)) (start_run w))"
    if "first_done choice 0 n err" for n err
    by (simp add: select_loop_stops [OF that] fold_ticks) (simp add: sched_run_def)
  have "select_loop ?body choice 0 ?w \<noteq> None \<longleftrightarrow> (\<exists>n err. first_done choice 0 n err)"
    using select_loop_returned [of ?body choice 0 ?w] stop by fastforce
  then have "Run pg first choice w \<noteq> None \<longleftrightarrow> (\<exists>n. isl (choice n))"
    using first_done_exists [of choice 0] by (simp add: R)
  moreover have "first_done choice 0 n err" if "choice n = Inl err" "\<forall>j < n. \<not> isl (choice j)" for n err
    using that by (simp add: first_done_def)
  ultimately show ?thesis using stop by (simp add: R)
qed

text \<open>Two ticks, one of them of a failing cycle, then the signal.\<close>

theorem Run_returns_iff_cancelled_witness:
  "Run ref_pg (demo_env demo_collect)
     (\<lambda>n. if n = 0 then Inr (demo_env (\<lambda>_. Inl ''refused'')) else if n = 1 then Inr (demo_env demo_collect) else Inl ''context canceled'')
     demo_world
   = Some (Returned ''context canceled'' (sched_run ref_pg
       (map Tick [demo_env demo_collect, demo_env (\<lambda>_. Inl ''refused''), demo_env demo_collect]) (start_run demo_world)))"
proof -
  let ?c = "\<lambda>n::nat. if n = 0 then Inr (demo_env (\<lambda>_. Inl ''refused'')) else if n = 1 then Inr (demo_env demo_collect) else Inl ''context canceled''"
  have i: "0 < s_interval (w_sched demo_world)" by (simp add: demo_world_def newScheduler_def wrap64_def)
  have c: "?c 2 = Inl ''context canceled'' \<and> (\<forall>j < 2. \<not> isl (?c j))" by simp
  have t: "ticks ?c 0 2 = [demo_env (\<lambda>_. Inl ''refused''), demo_env demo_collect]" by (simp add: ticks_def numeral_2_eq_2)
  show ?thesis
    using Run_returns_iff_cancelled [OF i, of ref_pg "demo_env demo_collect" ?c, THEN conjunct2, rule_format, OF c]
    unfolding t .
qed

section \<open>The range of the two settings\<close>

lemma wrap64_up: "2 ^ 63 \<le> x \<Longrightarrow> x < 2 ^ 63 + 2 ^ 64 \<Longrightarrow> wrap64 x = x - 2 ^ 64"
proof -
  assume x: "2 ^ 63 \<le> x" "x < 2 ^ 63 + 2 ^ 64"
  have "wrap64 x = wrap64 (x - 2 ^ 64)" using mod_add_self2 [of "x - 2 ^ 63" "2 ^ 64 :: int"] by (simp add: wrap64_def add.commute)
  also have "\<dots> = x - 2 ^ 64" by (rule wrap64_id) (use x in \<open>simp add: in64_def\<close>)
  finally show ?thesis .
qed

lemma interval_exact: "1 \<le> n \<Longrightarrow> n \<le> 9223372036 \<Longrightarrow> s_interval (newScheduler n i h u) = n * 1000000000"
  by (simp add: newScheduler_def wrap64_id in64_def)

lemma interval_wraps:
  "9223372037 \<le> n \<Longrightarrow> n \<le> 18446744073 \<Longrightarrow> s_interval (newScheduler n i h u) = n * 1000000000 - 2 ^ 64"
  by (simp add: newScheduler_def wrap64_up)

text \<open>C36. The range of the collection interval. \<open>Validate\<close> asks for at least one second and nothing more. Up to
  9223372036 seconds the ticker gets the interval as configured; from there up to 18446744073 seconds
  the product is negative, and \<open>Run\<close> panics after its first cycle, whatever that meets.\<close>

theorem interval_range:
  assumes "Validate cfg = None"
    and "s = newScheduler (CollectionIntervalSeconds cfg) nodeID hostname baseURL" and "w_sched w = s"
  shows "(CollectionIntervalSeconds cfg \<le> 9223372036 \<longrightarrow>
        s_interval s = CollectionIntervalSeconds cfg * 1000000000 \<and> 0 < s_interval s
        \<and> (\<forall>w'. Run pg first choice w \<noteq> Some (TickerPanic w')))
    \<and> (9223372037 \<le> CollectionIntervalSeconds cfg \<and> CollectionIntervalSeconds cfg \<le> 18446744073 \<longrightarrow>
        Run pg first choice w = Some (TickerPanic (snd (collectOnce pg first (start_run w)))))"
proof (intro conjI impI)
  let ?n = "CollectionIntervalSeconds cfg"
  have n: "1 \<le> ?n" using assms(1) by (auto simp: Validate_def split: if_splits)
  have i: "s_interval (w_sched (snd (collectOnce pg first (start_run w)))) = s_interval s"
    by (simp add: collectOnce_sched start_run_def assms(3))
  {
    assume "?n \<le> 9223372036"
    then have e: "s_interval s = ?n * 1000000000" using interval_exact [OF n] assms(2) by simp
    then show "s_interval s = ?n * 1000000000" .
    show p: "0 < s_interval s" using e n by simp
    show "\<forall>w'. Run pg first choice w \<noteq> Some (TickerPanic w')"
      using p i by (auto simp: Run_def Let_def)
  next
    assume "9223372037 \<le> ?n \<and> ?n \<le> 18446744073"
    then have "s_interval s \<le> 0" using interval_wraps [of ?n nodeID hostname baseURL] assms(2) by simp
    with i show "Run pg first choice w = Some (TickerPanic (snd (collectOnce pg first (start_run w))))"
      by (simp add: Run_def Let_def)
  }
qed

lemma retention_exact: "0 \<le> d \<Longrightarrow> d \<le> 106751 \<Longrightarrow> retention_period d = d * day_ns"
  by (simp add: retention_period_def day_ns_def hour_ns_def wrap64_id in64_def)

lemma retention_wraps: "106752 \<le> d \<Longrightarrow> d \<le> 213503 \<Longrightarrow> retention_period d = d * day_ns - 2 ^ 64"
  by (simp add: retention_period_def day_ns_def hour_ns_def wrap64_id in64_def wrap64_up)

text \<open>Whether the database accepts (refuses) the delete statement of a clean-up that finds these samples.\<close>

definition delete_accepted :: "('db, 'tx) pg \<Rightarrow> ('db \<Rightarrow> tables) \<Rightarrow> int \<Rightarrow> int \<Rightarrow> sample_row list \<Rightarrow> bool" where
  "delete_accepted pg tables t d rows \<longleftrightarrow>
     (\<forall>db. tb_samples (tables db) = rows \<longrightarrow> snd (fst (DeleteOldSamples pg db t d)) = None)"

definition delete_refused :: "('db, 'tx) pg \<Rightarrow> ('db \<Rightarrow> tables) \<Rightarrow> int \<Rightarrow> int \<Rightarrow> sample_row list \<Rightarrow> bool" where
  "delete_refused pg tables t d rows \<longleftrightarrow>
     (\<forall>db. tb_samples (tables db) = rows \<longrightarrow> snd (fst (DeleteOldSamples pg db t d)) \<noteq> None)"

lemma runRetention_cases:
  assumes "rollup_db pg tables tx_tables base stamp" and "w' = runRetention pg t1 t2 t3 d w"
  shows "delete_accepted pg tables t3 d (tb_samples (tables (w_db w))) \<Longrightarrow>
      tb_samples (tables (w_db w')) = filter (\<lambda>r. stamp (t3 + wrap64 (- d)) \<le> r_at r) (tb_samples (tables (w_db w)))"
    and "delete_refused pg tables t3 d (tb_samples (tables (w_db w))) \<Longrightarrow>
      tb_samples (tables (w_db w')) = tb_samples (tables (w_db w)) \<and> w_metrics w' = w_metrics w"
proof -
  obtain r1 db1 where 1: "AggregateHourly pg (w_db w) (t1 - hour_ns) = (r1, db1)" by fastforce
  obtain r2 db2 where 2: "AggregateDaily pg db1 (t2 - 24 * hour_ns) = (r2, db2)" by fastforce
  obtain k err db3 where 3: "DeleteOldSamples pg db2 t3 d = ((k, err), db3)" by (metis prod.exhaust)
  have s: "tb_samples (tables db2) = tb_samples (tables (w_db w))"
    using rollup_db.AggregateHourly_samples [OF assms(1) 1] rollup_db.AggregateDaily_samples [OF assms(1) 2] by simp
  have p: "postgres pg tables tx_tables base stamp" using assms(1) by (rule rollup_db.axioms(1))
  {
    assume "delete_accepted pg tables t3 d (tb_samples (tables (w_db w)))"
    then have "err = None" using 3 s by (auto simp: delete_accepted_def dest!: spec [of _ db2])
    with postgres.DeleteOldSamples_ok [OF p, of db2 t3 d k db3] 3 s
    show "tb_samples (tables (w_db w')) = filter (\<lambda>r. stamp (t3 + wrap64 (- d)) \<le> r_at r) (tb_samples (tables (w_db w)))"
      unfolding assms(2) by (simp add: runRetention_def 1 2 upd_metrics_def not_less Let_def)
  next
    assume "delete_refused pg tables t3 d (tb_samples (tables (w_db w)))"
    then obtain e where "err = Some e" using 3 s by (auto simp: delete_refused_def dest!: spec [of _ db2])
    with postgres.DeleteOldSamples_error [OF p, of db2 t3 d k e db3] 3 s
    show "tb_samples (tables (w_db w')) = tb_samples (tables (w_db w)) \<and> w_metrics w' = w_metrics w"
      unfolding assms(2) by (simp add: runRetention_def 1 2 Let_def)
  }
qed

lemma retentionLoop_stops:
  assumes "first_done choice 0 n err" and "first # ticks choice 0 n = cs @ [c]"
  shows "retentionLoop pg first choice w
    = Some (clean_up pg (retention_period (s_retentionDays (w_sched w))) c
        (fold (clean_up pg (retention_period (s_retentionDays (w_sched w)))) cs w))"
proof -
  let ?f = "clean_up pg (retention_period (s_retentionDays (w_sched w)))"
  have "retentionLoop pg first choice w = Some (fold ?f (first # ticks choice 0 n) w)"
    by (simp add: retentionLoop_def Let_def select_loop_stops [OF assms(1)])
  then show ?thesis unfolding assms(2) by simp
qed

text \<open>C35. The range of the retention setting, over the clean-up goroutine: let it run until its context is done, and
  take the clean-up that was its last, at the clock readings \<open>t1\<close>, \<open>t2\<close>, \<open>t3\<close> and on the state \<open>v\<close> the ones before
  left. If the database accepts its delete statement, then with up to 106751 days the samples left are exactly
  those that are not older than the setting; with 106752 to 213503 days, a setting that means to keep them for
  ever, the period is negative, the cut-off lies in the future and every sample up to 23 hours after the
  clean-up is gone. If the database refuses it, no sample and no counter changes.\<close>

theorem retention_range:
  assumes "rollup_db pg tables tx_tables base stamp" and "mono stamp" and "days = s_retentionDays (w_sched w)"
    and "first_done choice 0 n err" and "first # ticks choice 0 n = cs @ [(t1, t2, t3)]"
    and "v = fold (clean_up pg (retention_period days)) cs w" and "rows = tb_samples (tables (w_db v))"
  shows "\<exists>w'. retentionLoop pg first choice w = Some w'
    \<and> (delete_accepted pg tables t3 (retention_period days) rows \<longrightarrow>
        (0 < days \<and> days \<le> 106751 \<longrightarrow>
          tb_samples (tables (w_db w')) = filter (\<lambda>r. stamp (t3 - days * day_ns) \<le> r_at r) rows)
        \<and> (106752 \<le> days \<and> days \<le> 213503 \<longrightarrow>
          tb_samples (tables (w_db w')) = filter (\<lambda>r. stamp (t3 + (2 ^ 64 - days * day_ns)) \<le> r_at r) rows
          \<and> (\<forall>r \<in> set (tb_samples (tables (w_db w'))). stamp (t3 + 23 * hour_ns) \<le> r_at r)))
    \<and> (delete_refused pg tables t3 (retention_period days) rows \<longrightarrow>
        tb_samples (tables (w_db w')) = rows \<and> w_metrics w' = w_metrics v)"
proof -
  let ?w' = "runRetention pg t1 t2 t3 (retention_period days) v"
  have l: "retentionLoop pg first choice w = Some ?w'"
    using retentionLoop_stops [OF assms(4,5), of pg w] by (simp add: assms(3,6) clean_up_def)
  note c = runRetention_cases [OF assms(1) refl, of t3 "retention_period days" v t1 t2, folded assms(7)]
  have exact: "wrap64 (- retention_period days) = - (days * day_ns)" if "0 < days \<and> days \<le> 106751"
    using that by (simp add: retention_exact wrap64_id in64_def day_ns_def hour_ns_def)
  have future: "wrap64 (- retention_period days) = 2 ^ 64 - days * day_ns" if "106752 \<le> days \<and> days \<le> 213503"
    using that by (simp add: retention_wraps wrap64_id in64_def day_ns_def hour_ns_def)
  have later: "stamp (t3 + 23 * hour_ns) \<le> stamp (t3 + (2 ^ 64 - days * day_ns))" if "106752 \<le> days \<and> days \<le> 213503"
    by (rule monoD [OF assms(2)]) (use that in \<open>simp add: day_ns_def hour_ns_def\<close>)
  show ?thesis
    by (intro exI [of _ ?w'] conjI l impI ballI) (use c later in \<open>auto simp: exact future intro: order_trans\<close>)
qed

text \<open>More than five hundred years of retention delete the sample of this second.\<close>

lemma ref_delete_accepted: "delete_accepted ref_pg id t d rows"
  by (simp add: delete_accepted_def DeleteOldSamples_def ref_pg_def ref_exec_def Let_def)

theorem retention_range_witness:
  "let db = snd (InsertSamples ref_pg demo_tables [demo_sample 9000]);
       w = SetRetentionDays 200000 (demo_world\<lparr>w_db := db\<rparr>)
   in tb_samples db \<noteq> []
     \<and> (\<exists>w'. retentionLoop ref_pg (10000, 10000, 10000) (\<lambda>_. Inl ''context canceled'') w = Some w' \<and> tb_samples (w_db w') = [])"
proof -
  obtain n where a: "InsertSamples ref_pg demo_tables [demo_sample 9000]
      = ((n, None), add_rows (map (row_of micro) [demo_sample 9000]) demo_tables)"
    by (simp add: InsertSamples_ref demo_tables_def demo_sample_def node_ids_def)
  let ?db = "add_rows (map (row_of micro) [demo_sample 9000]) demo_tables"
  let ?w = "SetRetentionDays 200000 (demo_world\<lparr>w_db := ?db\<rparr>)"
  let ?choice = "\<lambda>_::nat. Inl ''context canceled'' :: string + int \<times> int \<times> int"
  have m: "mono micro" by (simp add: mono_def micro_def zdiv_mono1)
  have d: "200000 = s_retentionDays (w_sched ?w)" by (simp add: SetRetentionDays_def)
  have f: "first_done ?choice 0 0 ''context canceled''" by (simp add: first_done_def)
  have c: "(10000, 10000, 10000) # ticks ?choice 0 0 = [] @ [(10000, 10000, 10000)]" by (simp add: ticks_def)
  have db: "tb_samples ?db = [row_of micro (demo_sample 9000)]" by (simp add: add_rows_def demo_tables_def)
  have e: "w_db ?w = ?db" by (simp add: SetRetentionDays_def)
  from retention_range [OF ref_rollup.rollup_db_axioms m d f c refl refl] ref_delete_accepted obtain w' where
    l: "retentionLoop ref_pg (10000, 10000, 10000) ?choice ?w = Some w'"
    and s: "tb_samples (w_db w') = filter (\<lambda>r. micro (10000 + (2 ^ 64 - 200000 * day_ns)) \<le> r_at r) (tb_samples (w_db ?w))"
    by auto
  have "r_at (row_of micro (demo_sample 9000)) = 9" by (simp add: row_of_def micro_def demo_sample_def)
  then have "tb_samples (w_db w') = []" unfolding s e db by (simp add: micro_def day_ns_def hour_ns_def)
  with a l show ?thesis by (simp add: Let_def add_rows_def demo_tables_def)
qed

theorem interval_range_witness:
  "Run ref_pg (demo_env demo_collect) (\<lambda>_. Inl ''context canceled'')
     (demo_world\<lparr>w_sched := newScheduler 10000000000 ''n1'' ''h'' ''u''\<rparr>)
   = Some (TickerPanic (snd (collectOnce ref_pg (demo_env demo_collect)
       (start_run (demo_world\<lparr>w_sched := newScheduler 10000000000 ''n1'' ''h'' ''u''\<rparr>)))))"
proof -
  let ?cfg = "Defaults\<lparr>PostgresDSN := ''d'', CollectionIntervalSeconds := 10000000000\<rparr>"
  have v: "Validate ?cfg = None" by (simp add: Validate_def Defaults_def DefaultContexts_def)
  have i: "CollectionIntervalSeconds ?cfg = 10000000000" by simp
  note r = interval_range [OF v refl, of "demo_world\<lparr>w_sched := newScheduler 10000000000 ''n1'' ''h'' ''u''\<rparr>"
      "''n1''" "''h''" "''u''" ref_pg "demo_env demo_collect" "\<lambda>_. Inl ''context canceled''", unfolded i]
  show ?thesis by (rule r [THEN conjunct2, THEN mp]) simp_all
qed

end
