(* ===== verification/System.thy ===== *)
theory System
  imports RunLoop Service
begin

text \<open>
  The running service of \<open>cmd/netdata-postgres-mcp/main.go\<close>: the goroutines of its schedulers, their
  clean-ups, the HTTP requests, SIGHUP and the shutdown, interleaved over one database and one set of
  counters. A step is one use of shared state: a statement or transaction, an update of the
  counters, a read of a setting another goroutine writes, a choice of a \<open>select\<close>.
\<close>

section \<open>Goroutines\<close>

text \<open>Where the goroutine of \<open>Run\<close> is, with the local variables it still needs.\<close>

datatype run_pc =
    AtLaunch
  | AtCycle
  | AtRegister
  | AtGather
  | AtStore "MetricSample list" "string option"
  | AtAccount int
  | AtSelect
  | AtEnd

text \<open>Where its clean-up goroutine is: not started, started but not yet past its first line, or in a
  clean-up with its retention period.\<close>

datatype clean_pc =
    NoClean
  | Spawned
  | AtHourly int
  | AtDaily int
  | AtDelete int
  | AtCount int int
  | AtWait int
  | CleanEnd

record thread =
  th_sched :: scheduler
  th_breaker :: breaker
  th_pc :: run_pc
  th_ticker :: bool
  th_clean :: clean_pc

definition new_thread :: "scheduler \<Rightarrow> thread" where
  "new_thread s = \<lparr>th_sched = s, th_breaker = scheduler_breaker, th_pc = AtLaunch, th_ticker = False, th_clean = NoClean\<rparr>"

text \<open>One step of a cycle: \<open>collectOnce\<close> cut at its uses of the database and of the counters.\<close>

definition cycle_step :: "('db, 'tx) pg \<Rightarrow> cycle_env \<Rightarrow> thread \<times> 'db \<times> Metrics \<Rightarrow> thread \<times> 'db \<times> Metrics" where
  "cycle_step pg env = (\<lambda>(th, db, m).
     (case th_pc th of
        AtCycle \<Rightarrow>
          (case Allow (e_allow env) (th_breaker th) of
             (Some err, b) \<Rightarrow> (th\<lparr>th_breaker := snd (State (e_state env) b), th_pc := AtSelect\<rparr>, db, m)
           | (None, b) \<Rightarrow> (th\<lparr>th_breaker := b, th_pc := AtRegister\<rparr>, db, m))
      | AtRegister \<Rightarrow>
          (case UpsertNode pg db (s_nodeID (th_sched th)) (s_hostname (th_sched th)) (s_baseURL (th_sched th)) of
             (Some err, db') \<Rightarrow> (th\<lparr>th_pc := AtSelect\<rparr>, db', m)
           | (None, db') \<Rightarrow> (th\<lparr>th_pc := AtGather\<rparr>, db', m))
      | AtGather \<Rightarrow>
          (case retry_loop env None [1, 2, 3] of
             Cancelled err \<Rightarrow> (th\<lparr>th_pc := AtSelect\<rparr>, db, m)
           | Collected samples lastErr \<Rightarrow> (th\<lparr>th_pc := AtStore samples lastErr\<rparr>, db, m))
      | AtStore samples lastErr \<Rightarrow>
          (if lastErr \<noteq> None \<and> samples = [] then
             (th\<lparr>th_breaker := RecordFailure (e_record1 env) (e_record2 env) (th_breaker th), th_pc := AtSelect\<rparr>,
              db, m\<lparr>CollectionErrors := add64 1 (CollectionErrors m)\<rparr>)
           else if samples = [] then (th\<lparr>th_pc := AtSelect\<rparr>, db, m)
           else case InsertSamples pg db samples of
               ((inserted, Some err), db') \<Rightarrow>
                 (th\<lparr>th_breaker := RecordFailure (e_record1 env) (e_record2 env) (th_breaker th), th_pc := AtSelect\<rparr>, db', m)
             | ((inserted, None), db') \<Rightarrow>
                 (th\<lparr>th_breaker := RecordSuccess (e_record1 env) (th_breaker th), th_pc := AtAccount inserted\<rparr>, db', m))
      | AtAccount inserted \<Rightarrow>
          (th\<lparr>th_pc := AtSelect\<rparr>, db,
           m\<lparr>CollectionTotal := add64 1 (CollectionTotal m), SamplesInserted := add64 inserted (SamplesInserted m),
             CollectionDuration := Record (sat64 (e_end env - e_start env)) (CollectionDuration m)\<rparr>)
      | _ \<Rightarrow> (th, db, m)))"

text \<open>One step of a clean-up; \<open>now\<close> is the clock reading of the step.\<close>

definition clean_step :: "('db, 'tx) pg \<Rightarrow> int \<Rightarrow> thread \<times> 'db \<times> Metrics \<Rightarrow> thread \<times> 'db \<times> Metrics" where
  "clean_step pg now = (\<lambda>(th, db, m).
     (case th_clean th of
        Spawned \<Rightarrow> (th\<lparr>th_clean := AtHourly (retention_period (s_retentionDays (th_sched th)))\<rparr>, db, m)
      | AtHourly d \<Rightarrow> (th\<lparr>th_clean := AtDaily d\<rparr>, snd (AggregateHourly pg db (now + - hour_ns)), m)
      | AtDaily d \<Rightarrow> (th\<lparr>th_clean := AtDelete d\<rparr>, snd (AggregateDaily pg db (now + - 24 * hour_ns)), m)
      | AtDelete d \<Rightarrow>
          (case DeleteOldSamples pg db now d of
             ((deleted, Some err), db') \<Rightarrow> (th\<lparr>th_clean := AtWait d\<rparr>, db', m)
           | ((deleted, None), db') \<Rightarrow>
               (if deleted > 0 then (th\<lparr>th_clean := AtCount d deleted\<rparr>, db', m)
                else (th\<lparr>th_clean := AtWait d\<rparr>, db', m)))
      | AtCount d deleted \<Rightarrow> (th\<lparr>th_clean := AtWait d\<rparr>, db, m\<lparr>RetentionDeleted := add64 deleted (RetentionDeleted m)\<rparr>)
      | _ \<Rightarrow> (th, db, m)))"

section \<open>The process\<close>

text \<open>Serving, shutting the servers down after the first scheduler has stopped, ended with a status, or
  ended by a panic.\<close>

datatype phase = Running | Closing | Exited int | Crashed

record ('db, 'mcp) sys =
  sy_sv :: "('db, 'mcp) service"
  sy_threads :: "thread list"
  sy_cfg :: Config
  sy_cancelled :: bool
  sy_phase :: phase

definition alive :: "('db, 'mcp) sys \<Rightarrow> bool" where
  "alive s \<longleftrightarrow> sy_phase s = Running \<or> sy_phase s = Closing"

text \<open>The service as \<open>runService\<close> has set it up when its goroutines start.\<close>

definition launch :: "Config \<Rightarrow> rate_limiter option \<Rightarrow> 'mcp \<Rightarrow> (scheduler \<times> collector) list \<Rightarrow> 'db \<Rightarrow> ('db, 'mcp) sys" where
  "launch cfg limiter mcp scs db =
     \<lparr>sy_sv = \<lparr>sv_metrics = Global, sv_limiter = limiter, sv_db = db, sv_mcp = mcp\<rparr>,
      sy_threads = map (new_thread \<circ> fst) scs, sy_cfg = cfg, sy_cancelled = False, sy_phase = Running\<rparr>"

text \<open>Thread \<open>i\<close> with the database and the counters, taken out and put back.\<close>

definition take_out :: "nat \<Rightarrow> ('db, 'mcp) sys \<Rightarrow> thread \<times> 'db \<times> Metrics" where
  "take_out i s = (sy_threads s ! i, sv_db (sy_sv s), sv_metrics (sy_sv s))"

definition put_back :: "nat \<Rightarrow> thread \<times> 'db \<times> Metrics \<Rightarrow> ('db, 'mcp) sys \<Rightarrow> ('db, 'mcp) sys" where
  "put_back i = (\<lambda>(th, db, m) s.
     s\<lparr>sy_threads := (sy_threads s)[i := th], sy_sv := (sy_sv s)\<lparr>sv_db := db, sv_metrics := m\<rparr>\<rparr>)"

definition set_pc :: "nat \<Rightarrow> (thread \<Rightarrow> thread) \<Rightarrow> ('db, 'mcp) sys \<Rightarrow> ('db, 'mcp) sys" where
  "set_pc i f s = s\<lparr>sy_threads := (sy_threads s)[i := f (sy_threads s ! i)]\<rparr>"

definition in_cycle :: "run_pc \<Rightarrow> bool" where
  "in_cycle p \<longleftrightarrow> p \<notin> {AtLaunch, AtSelect, AtEnd}"

definition in_clean_up :: "clean_pc \<Rightarrow> bool" where
  "in_clean_up c \<longleftrightarrow> (case c of NoClean \<Rightarrow> False | AtWait d \<Rightarrow> False | CleanEnd \<Rightarrow> False | _ \<Rightarrow> True)"

text \<open>Who takes a step.\<close>

datatype actor = Scheduling nat | Cleaning nat | Serving | Sweeping | Reloading | Signal | Main

text \<open>\<open>h\<close> is the handler of the mux. A run of \<open>Run\<close> reads the retention setting to decide on the clean-up
  goroutine, which reads it again; the ticker is created after the first cycle; a \<open>select\<close> may take
  the tick or, once the context is cancelled, the end. The first thread's end starts the shutdown, in
  which the requests still in flight are answered and the other goroutines run until the process exits.\<close>

inductive sys_step :: "('db, 'tx) pg \<Rightarrow> ('db, 'mcp) handler \<Rightarrow> actor \<Rightarrow> ('db, 'mcp) sys \<Rightarrow> ('db, 'mcp) sys \<Rightarrow> bool"
  for pg h where
  run_launch: "alive s \<Longrightarrow> i < length (sy_threads s) \<Longrightarrow> th_pc (sy_threads s ! i) = AtLaunch \<Longrightarrow>
     sys_step pg h (Scheduling i) s (set_pc i (\<lambda>th. th\<lparr>th_pc := AtCycle,
       th_clean := (if s_retentionDays (th_sched th) > 0 then Spawned else NoClean)\<rparr>) s)"
| run_cycle: "alive s \<Longrightarrow> i < length (sy_threads s) \<Longrightarrow> in_cycle (th_pc (sy_threads s ! i)) \<Longrightarrow> event_ok (Tick env) \<Longrightarrow>
     sys_step pg h (Scheduling i) s (put_back i (cycle_step pg env (take_out i s)) s)"
| run_ticker: "alive s \<Longrightarrow> i < length (sy_threads s) \<Longrightarrow> th_pc (sy_threads s ! i) = AtSelect \<Longrightarrow>
     \<not> th_ticker (sy_threads s ! i) \<Longrightarrow> s_interval (th_sched (sy_threads s ! i)) > 0 \<Longrightarrow>
     sys_step pg h (Scheduling i) s (set_pc i (\<lambda>th. th\<lparr>th_ticker := True\<rparr>) s)"
| run_panic: "alive s \<Longrightarrow> i < length (sy_threads s) \<Longrightarrow> th_pc (sy_threads s ! i) = AtSelect \<Longrightarrow>
     \<not> th_ticker (sy_threads s ! i) \<Longrightarrow> s_interval (th_sched (sy_threads s ! i)) \<le> 0 \<Longrightarrow>
     sys_step pg h (Scheduling i) s (s\<lparr>sy_phase := Crashed\<rparr>)"
| run_tick: "alive s \<Longrightarrow> i < length (sy_threads s) \<Longrightarrow> th_pc (sy_threads s ! i) = AtSelect \<Longrightarrow> th_ticker (sy_threads s ! i) \<Longrightarrow>
     sys_step pg h (Scheduling i) s (set_pc i (\<lambda>th. th\<lparr>th_pc := AtCycle\<rparr>) s)"
| run_done: "alive s \<Longrightarrow> i < length (sy_threads s) \<Longrightarrow> th_pc (sy_threads s ! i) = AtSelect \<Longrightarrow> th_ticker (sy_threads s ! i) \<Longrightarrow>
     sy_cancelled s \<Longrightarrow> sys_step pg h (Scheduling i) s (set_pc i (\<lambda>th. th\<lparr>th_pc := AtEnd\<rparr>) s)"
| clean_up: "alive s \<Longrightarrow> i < length (sy_threads s) \<Longrightarrow> in_clean_up (th_clean (sy_threads s ! i)) \<Longrightarrow>
     sys_step pg h (Cleaning i) s (put_back i (clean_step pg now (take_out i s)) s)"
| clean_tick: "alive s \<Longrightarrow> i < length (sy_threads s) \<Longrightarrow> th_clean (sy_threads s ! i) = AtWait d \<Longrightarrow>
     sys_step pg h (Cleaning i) s (set_pc i (\<lambda>th. th\<lparr>th_clean := AtHourly d\<rparr>) s)"
| clean_done: "alive s \<Longrightarrow> i < length (sy_threads s) \<Longrightarrow> th_clean (sy_threads s ! i) = AtWait d \<Longrightarrow> sy_cancelled s \<Longrightarrow>
     sys_step pg h (Cleaning i) s (set_pc i (\<lambda>th. th\<lparr>th_clean := CleanEnd\<rparr>) s)"
| serve: "alive s \<Longrightarrow> h now r (sy_sv s) = (rep, sv') \<Longrightarrow> sys_step pg h Serving s (s\<lparr>sy_sv := sv'\<rparr>)"
| sweep: "alive s \<Longrightarrow> sys_step pg h Sweeping s
     (s\<lparr>sy_sv := (sy_sv s)\<lparr>sv_limiter := map_option (rl_cleanup_tick now) (sv_limiter (sy_sv s))\<rparr>\<rparr>)"
| reload: "alive s \<Longrightarrow> sighup loaded (sy_cfg s, map th_sched (sy_threads s)) = (cfg', ss) \<Longrightarrow>
     sys_step pg h Reloading s (s\<lparr>sy_cfg := cfg', sy_threads := map (\<lambda>(th, sc). th\<lparr>th_sched := sc\<rparr>) (zip (sy_threads s) ss)\<rparr>)"
| cancel: "alive s \<Longrightarrow> sys_step pg h Signal s (s\<lparr>sy_cancelled := True\<rparr>)"
| main_returns: "sy_phase s = Running \<Longrightarrow> sy_threads s \<noteq> [] \<Longrightarrow> th_pc (sy_threads s ! 0) = AtEnd \<Longrightarrow>
     sys_step pg h Main s (s\<lparr>sy_phase := (if sy_cancelled s then Closing else Exited 1)\<rparr>)"
| main_exits: "sy_phase s = Closing \<Longrightarrow> sys_step pg h Main s (s\<lparr>sy_phase := Exited 0\<rparr>)"

text \<open>A run, and the rows its requests have added.\<close>

inductive sys_run :: "('db, 'tx) pg \<Rightarrow> ('db, 'mcp) handler \<Rightarrow> ('db \<Rightarrow> tables) \<Rightarrow> ('db, 'mcp) sys \<Rightarrow> int \<Rightarrow> ('db, 'mcp) sys \<Rightarrow> bool"
  for pg h tables s where
  run_refl: "sys_run pg h tables s 0 s"
| run_step: "sys_run pg h tables s n t \<Longrightarrow> sys_step pg h a t u \<Longrightarrow>
     sys_run pg h tables s
       (n + (if a = Serving then count_rows (tables (sv_db (sy_sv u))) - count_rows (tables (sv_db (sy_sv t))) else 0)) u"


section \<open>The cycle, one goroutine alone\<close>

definition world_of :: "thread \<times> 'db \<times> Metrics \<Rightarrow> 'db world" where
  "world_of = (\<lambda>(th, db, m). \<lparr>w_sched = th_sched th, w_breaker = th_breaker th, w_db = db, w_metrics = m, w_retention = None\<rparr>)"

definition thread_after :: "thread \<Rightarrow> 'db world \<Rightarrow> thread \<times> 'db \<times> Metrics" where
  "thread_after th w = (th\<lparr>th_breaker := w_breaker w, th_pc := AtSelect\<rparr>, w_db w, w_metrics w)"

lemma cycle_step_idle: "th_pc th = AtSelect \<Longrightarrow> cycle_step pg env (th, db, m) = (th, db, m)"
  by (simp add: cycle_step_def)

lemma cycle_steps_idle: "th_pc th = AtSelect \<Longrightarrow> (cycle_step pg env ^^ k) (th, db, m) = (th, db, m)"
  by (induction k) (simp_all add: cycle_step_idle)

lemma store_account_alone:
  assumes "th_pc th = AtStore ss le"
  shows "cycle_step pg env (cycle_step pg env (th, db, m)) = thread_after th (snd (finish_cycle pg env ss le (world_of (th, db, m))))"
proof (cases "ss = []")
  case True
  with assms show ?thesis
    by (cases le) (auto simp: cycle_step_def finish_cycle_def fail_cycle_def upd_metrics_def thread_after_def world_of_def)
next
  case False
  obtain n r db' where "InsertSamples pg db ss = ((n, r), db')" by (metis prod.exhaust)
  with assms False show ?thesis
    by (cases r) (simp_all add: cycle_step_def finish_cycle_def fail_cycle_def upd_metrics_def thread_after_def world_of_def Let_def)
qed

lemma cycle_alone:
  assumes "th_pc th = AtCycle"
  shows "(cycle_step pg env ^^ 5) (th, db, m) = thread_after th (snd (collectOnce pg env (world_of (th, db, m))))"
proof -
  let ?f = "cycle_step pg env"
  have five: "(?f ^^ 5) x = ?f (?f (?f (?f (?f x))))" for x by (simp add: eval_nat_numeral)
  obtain ra b where a: "Allow (e_allow env) (th_breaker th) = (ra, b)" by fastforce
  let ?th = "th\<lparr>th_breaker := b, th_pc := AtRegister\<rparr>" and ?s = "th_sched th"
  obtain ru db' where u: "UpsertNode pg db (s_nodeID ?s) (s_hostname ?s) (s_baseURL ?s) = (ru, db')" by fastforce
  show ?thesis
  proof (cases ra)
    case (Some e)
    then have "?f (th, db, m) = (th\<lparr>th_breaker := snd (State (e_state env) b), th_pc := AtSelect\<rparr>, db, m)"
      using assms a by (simp add: cycle_step_def)
    then show ?thesis using a Some
      by (simp add: five cycle_step_idle collectOnce_def thread_after_def world_of_def)
  next
    case None
    have 1: "?f (th, db, m) = (?th, db, m)" using assms a None by (simp add: cycle_step_def)
    show ?thesis
    proof (cases ru)
      case (Some e)
      then have "?f (?th, db, m) = (?th\<lparr>th_pc := AtSelect\<rparr>, db', m)" using u by (simp add: cycle_step_def)
      then show ?thesis using 1 a u None Some
        by (simp add: five cycle_step_idle collectOnce_def thread_after_def world_of_def Let_def)
    next
      case None
      then have 2: "?f (?th, db, m) = (?th\<lparr>th_pc := AtGather\<rparr>, db', m)" using u by (simp add: cycle_step_def)
      show ?thesis
      proof (cases "retry_loop env None [1, 2, 3]")
        case (Cancelled e)
        then have "?f (?th\<lparr>th_pc := AtGather\<rparr>, db', m) = (?th\<lparr>th_pc := AtSelect\<rparr>, db', m)" by (simp add: cycle_step_def)
        then show ?thesis using 1 2 a u \<open>ra = None\<close> None Cancelled
          by (simp add: five cycle_step_idle collectOnce_def thread_after_def world_of_def Let_def)
      next
        case (Collected ss le)
        then have "?f (?th\<lparr>th_pc := AtGather\<rparr>, db', m) = (?th\<lparr>th_pc := AtStore ss le\<rparr>, db', m)" by (simp add: cycle_step_def)
        moreover have "th_pc (?th\<lparr>th_pc := AtStore ss le\<rparr>) = AtStore ss le" by simp
        ultimately show ?thesis using 1 2 a u \<open>ra = None\<close> None Collected
          store_account_alone [of "?th\<lparr>th_pc := AtStore ss le\<rparr>" ss le pg env db' m]
          by (simp add: five collectOnce_def thread_after_def world_of_def Let_def)
      qed
    qed
  qed
qed

lemma clean_alone:
  assumes "th_clean th = AtHourly d"
  shows "clean_step pg t4 (clean_step pg t3 (clean_step pg t2 (clean_step pg t1 (th, db, m))))
    = (th\<lparr>th_clean := AtWait d\<rparr>, w_db (runRetention pg t1 t2 t3 d (world_of (th, db, m))),
       w_metrics (runRetention pg t1 t2 t3 d (world_of (th, db, m))))"
proof -
  obtain r1 db1 where 1: "AggregateHourly pg db (t1 + - hour_ns) = (r1, db1)" by fastforce
  obtain r2 db2 where 2: "AggregateDaily pg db1 (t2 + - 24 * hour_ns) = (r2, db2)" by fastforce
  obtain k r3 db3 where 3: "DeleteOldSamples pg db2 t3 d = ((k, r3), db3)" by (metis prod.exhaust)
  have a: "clean_step pg t1 (th, db, m) = (th\<lparr>th_clean := AtDaily d\<rparr>, db1, m)" using assms 1 by (simp add: clean_step_def)
  have b: "clean_step pg t2 (th\<lparr>th_clean := AtDaily d\<rparr>, db1, m) = (th\<lparr>th_clean := AtDelete d\<rparr>, db2, m)"
    using 2 by (simp add: clean_step_def)
  show ?thesis
    unfolding a b using 1 2 3
    by (cases r3) (simp_all add: clean_step_def runRetention_def world_of_def upd_metrics_def)
qed

text \<open>The steps of the goroutines are the code of the scheduler: a cycle that nobody interleaves with is
  \<open>collectOnce\<close>, with its breaker, its database and its counters, after at most five steps, and a
  clean-up that nobody interleaves with is \<open>runRetention\<close> after at most four.\<close>

theorem goroutine_steps_refine_code:
  assumes "th_pc th = AtCycle" and "th_clean th' = AtHourly d"
  shows "(cycle_step pg env ^^ 5) (th, db, m) = thread_after th (snd (collectOnce pg env (world_of (th, db, m))))
    \<and> clean_step pg t4 (clean_step pg t3 (clean_step pg t2 (clean_step pg t1 (th', db, m))))
        = (th'\<lparr>th_clean := AtWait d\<rparr>, w_db (runRetention pg t1 t2 t3 d (world_of (th', db, m))),
           w_metrics (runRetention pg t1 t2 t3 d (world_of (th', db, m))))"
  by (rule conjI [OF cycle_alone [OF assms(1)] clean_alone [OF assms(2)]])

section \<open>What every interleaving keeps\<close>

text \<open>The rows and the counters, with what the goroutines have done to the table and not yet counted.\<close>

definition uncounted :: "thread \<Rightarrow> int" where
  "uncounted th = (case th_pc th of AtAccount n \<Rightarrow> n | _ \<Rightarrow> 0) - (case th_clean th of AtCount d k \<Rightarrow> k | _ \<Rightarrow> 0)"

definition balance :: "('db \<Rightarrow> tables) \<Rightarrow> 'db \<Rightarrow> Metrics \<Rightarrow> int" where
  "balance tables db m = count_rows (tables db) - SamplesInserted m + RetentionDeleted m"

definition sys_ledger :: "('db \<Rightarrow> tables) \<Rightarrow> ('db, 'mcp) sys \<Rightarrow> int" where
  "sys_ledger tables s =
     (balance tables (sv_db (sy_sv s)) (sv_metrics (sy_sv s)) - sum_list (map uncounted (sy_threads s))) mod 2 ^ 64"

definition at_rest :: "thread \<Rightarrow> bool" where
  "at_rest th \<longleftrightarrow> (\<forall>n. th_pc th \<noteq> AtAccount n) \<and> (\<forall>d k. th_clean th \<noteq> AtCount d k)"

lemma uncounted_at_rest: "at_rest th \<Longrightarrow> uncounted th = 0"
  by (simp add: at_rest_def uncounted_def split: run_pc.splits clean_pc.splits)

text \<open>A list of samples is a Go slice: its length is an \<open>int\<close>. A clean-up goroutine is started by \<open>Run\<close>.\<close>

definition pc_ok :: "thread \<Rightarrow> bool" where
  "pc_ok th \<longleftrightarrow> (\<forall>ss le. th_pc th = AtStore ss le \<longrightarrow> int (length ss) < 2 ^ 63)
     \<and> (th_pc th = AtLaunch \<longrightarrow> th_clean th = NoClean)"

definition sys_ok :: "('db \<Rightarrow> tables) \<Rightarrow> ('db, 'mcp) sys \<Rightarrow> bool" where
  "sys_ok tables s \<longleftrightarrow> store_ok (tables (sv_db (sy_sv s))) \<and> (\<forall>th \<in> set (sy_threads s). pc_ok th)"

lemma sum_list_swap:
  fixes f :: "'a \<Rightarrow> int"
  shows "i < length xs \<Longrightarrow> sum_list (map f (xs[i := x])) = sum_list (map f xs) - f (xs ! i) + f x"
proof (induction xs arbitrary: i)
  case (Cons a xs)
  then show ?case by (cases i) simp_all
qed simp

text \<open>The contract of what serves the requests: it keeps the table sound, changes the tables at most by adding
  rows, and leaves the counters of the schedulers alone.\<close>

locale request_handler =
  fixes h :: "('db, 'mcp) handler"
    and tables :: "'db \<Rightarrow> tables"
  assumes keeps_store: "h now r sv = (rep, sv') \<Longrightarrow> store_ok (tables (sv_db sv)) \<Longrightarrow> store_ok (tables (sv_db sv'))"
    and keeps_rows: "h now r sv = (rep, sv') \<Longrightarrow> \<exists>rows. tables (sv_db sv') = add_rows rows (tables (sv_db sv))"
    and keeps_counters: "h now r sv = (rep, sv') \<Longrightarrow> SamplesInserted (sv_metrics sv') = SamplesInserted (sv_metrics sv)
      \<and> RetentionDeleted (sv_metrics sv') = RetentionDeleted (sv_metrics sv)"

locale running = rollup_db + request_handler h tables
  for h :: "('a, 'mcp) handler"
begin

lemma Aggregate_nodes:
  "AggregateHourly pg db t = (r, db') \<Longrightarrow> tb_nodes (tables db') = tb_nodes (tables db)"
  "AggregateDaily pg db t = (r, db') \<Longrightarrow> tb_nodes (tables db') = tb_nodes (tables db)"
  by (auto simp: AggregateHourly_def AggregateDaily_def Let_def split: sum.splits prod.splits
      dest: rollup_ok [OF disjI1 [OF refl]] rollup_ok [OF disjI2 [OF refl]])

lemma Aggregate_ok:
  "store_ok (tables (snd (AggregateHourly pg db t))) \<longleftrightarrow> store_ok (tables db)"
  "store_ok (tables (snd (AggregateDaily pg db t))) \<longleftrightarrow> store_ok (tables db)"
  "count_rows (tables (snd (AggregateHourly pg db t))) = count_rows (tables db)"
  "count_rows (tables (snd (AggregateDaily pg db t))) = count_rows (tables db)"
  using Aggregate_nodes AggregateHourly_samples AggregateDaily_samples
  by (simp_all add: store_ok_def node_ids_def count_rows_def prod_eq_iff)

lemma UpsertNode_keeps:
  assumes "UpsertNode pg db n u v = (r, db')"
  shows "store_ok (tables db) \<Longrightarrow> store_ok (tables db')" and "count_rows (tables db') = count_rows (tables db)"
  using assms UpsertNode_samples [OF assms] store_step_ok [of db "OpUpsert n u v"] by (simp_all add: count_rows_def)

lemma InsertSamples_keeps:
  assumes "InsertSamples pg db ss = ((n, r), db')" and "int (length ss) < 2 ^ 63"
  shows "store_ok (tables db) \<Longrightarrow> store_ok (tables db')"
    and "count_rows (tables db') = count_rows (tables db) + (if r = None then n else 0)"
  using assms store_step_ok [of db "OpInsert ss"] InsertSamples_ok [of db ss n db'] InsertSamples_error [of db ss n _ db']
  by (auto simp: count_rows_def)

lemma DeleteOldSamples_keeps:
  assumes "DeleteOldSamples pg db now d = ((n, r), db')"
  shows "store_ok (tables db) \<Longrightarrow> store_ok (tables db')"
    and "count_rows (tables db') + (if r = None then n else 0) = count_rows (tables db)"
    and "r = None \<Longrightarrow> 0 \<le> n"
proof -
  show "store_ok (tables db) \<Longrightarrow> store_ok (tables db')"
    using assms store_step_ok [of db "OpDelete now d"] by simp
  show c: "count_rows (tables db') + (if r = None then n else 0) = count_rows (tables db)"
    using assms DeleteOldSamples_ok [of db now d n db'] DeleteOldSamples_error [of db now d n _ db']
    by (auto simp: count_rows_def)
  assume "r = None"
  with assms DeleteOldSamples_ok [of db now d n db'] have "count_rows (tables db') \<le> count_rows (tables db)"
    by (simp add: count_rows_def)
  with c \<open>r = None\<close> show "0 \<le> n" by simp
qed

end

definition share :: "('db \<Rightarrow> tables) \<Rightarrow> thread \<times> 'db \<times> Metrics \<Rightarrow> int" where
  "share tables = (\<lambda>(th, db, m). (balance tables db m - uncounted th) mod 2 ^ 64)"

definition part_ok :: "('db \<Rightarrow> tables) \<Rightarrow> thread \<times> 'db \<times> Metrics \<Rightarrow> bool" where
  "part_ok tables = (\<lambda>(th, db, m). store_ok (tables db) \<and> pc_ok th)"

lemma counted_inserts:
  "(balance tables db (m\<lparr>CollectionTotal := a, SamplesInserted := add64 n (SamplesInserted m), CollectionDuration := b\<rparr>) - u) mod 2 ^ 64
    = (balance tables db m - (u + n)) mod 2 ^ 64"
  using add64_mod(1) [of "count_rows (tables db)" n "SamplesInserted m" "RetentionDeleted m - u"]
  by (simp add: balance_def algebra_simps)

lemma counted_deletes:
  "(balance tables db (m\<lparr>RetentionDeleted := add64 n (RetentionDeleted m)\<rparr>) - u) mod 2 ^ 64
    = (balance tables db m - (u - n)) mod 2 ^ 64"
  using add64_mod(2) [of "count_rows (tables db) - u" "SamplesInserted m" n "RetentionDeleted m"]
  by (simp add: balance_def algebra_simps)

lemma retry_loop_short:
  "event_ok (Tick env) \<Longrightarrow> retry_loop env None [1, 2, 3] = Collected ss le \<Longrightarrow> int (length ss) < 2 ^ 63"
  using retry_loop_samples [of env None "[1, 2, 3]" ss le] by (auto simp: event_ok_def)

context running
begin

lemma store_step_keeps:
  assumes "th_pc th = AtStore ss le" and "part_ok tables (th, db, m)" and "cycle_step pg env (th, db, m) = x"
  shows "part_ok tables x \<and> share tables x = share tables (th, db, m)"
proof (cases "ss = []")
  case True
  with assms show ?thesis
    by (auto simp: cycle_step_def part_ok_def share_def pc_ok_def uncounted_def balance_def split: if_splits)
next
  case False
  have l: "int (length ss) < 2 ^ 63" using assms(1,2) by (simp add: part_ok_def pc_ok_def)
  obtain n r db' where i: "InsertSamples pg db ss = ((n, r), db')" by (metis prod.exhaust)
  note k = InsertSamples_keeps [OF i l]
  show ?thesis
  proof (cases r)
    case None
    with assms i k False show ?thesis
      by (auto simp: cycle_step_def part_ok_def share_def pc_ok_def uncounted_def balance_def algebra_simps)
  next
    case (Some e)
    with assms i k False show ?thesis
      by (auto simp: cycle_step_def part_ok_def share_def pc_ok_def uncounted_def balance_def)
  qed
qed

lemma cycle_step_keeps:
  assumes "part_ok tables (th, db, m)" and "event_ok (Tick env)" and "cycle_step pg env (th, db, m) = x"
  shows "part_ok tables x \<and> share tables x = share tables (th, db, m)"
proof (cases "th_pc th")
  case AtCycle
  with assms show ?thesis
    by (auto simp: cycle_step_def part_ok_def share_def pc_ok_def uncounted_def split: prod.splits option.splits)
next
  case AtRegister
  obtain r db' where u: "UpsertNode pg db (s_nodeID (th_sched th)) (s_hostname (th_sched th)) (s_baseURL (th_sched th)) = (r, db')"
    by fastforce
  with AtRegister assms UpsertNode_keeps [OF u] show ?thesis
    by (cases r) (auto simp: cycle_step_def part_ok_def share_def pc_ok_def uncounted_def balance_def)
next
  case AtGather
  with assms show ?thesis
    by (cases "retry_loop env None [1, 2, 3]")
      (auto simp: cycle_step_def part_ok_def share_def pc_ok_def uncounted_def intro: retry_loop_short [OF assms(2), simplified])
next
  case (AtStore ss le)
  with store_step_keeps assms show ?thesis by blast
next
  case (AtAccount n)
  have u: "uncounted th = uncounted (th\<lparr>th_pc := AtSelect\<rparr>) + n" by (simp add: uncounted_def AtAccount)
  from AtAccount assms(1,3) show ?thesis
    by (auto simp: cycle_step_def part_ok_def pc_ok_def share_def counted_inserts u simp del: power_numeral)
qed (use assms in \<open>auto simp: cycle_step_def\<close>)

lemma clean_step_keeps:
  assumes "part_ok tables (th, db, m)" and "clean_step pg now (th, db, m) = x"
  shows "part_ok tables x \<and> share tables x = share tables (th, db, m)"
proof (cases "th_clean th")
  case (AtDelete d)
  obtain n r db' where i: "DeleteOldSamples pg db now d = ((n, r), db')" by (metis prod.exhaust)
  note k = DeleteOldSamples_keeps [OF i]
  show ?thesis
  proof (cases r)
    case None
    with k have c: "count_rows (tables db') = count_rows (tables db) - n" "0 \<le> n" by simp_all
    show ?thesis
    proof (cases "0 < n")
      case True
      with assms i None AtDelete have x: "x = (th\<lparr>th_clean := AtCount d n\<rparr>, db', m)" by (simp add: clean_step_def)
      have "balance tables db' m - uncounted (th\<lparr>th_clean := AtCount d n\<rparr>) = balance tables db m - uncounted th"
        using AtDelete by (simp add: balance_def uncounted_def c(1))
      then show ?thesis using assms(1) k(1) AtDelete by (simp only: x share_def part_ok_def prod.case) (simp add: pc_ok_def)
    next
      case False
      with assms i None AtDelete have "x = (th\<lparr>th_clean := AtWait d\<rparr>, db', m)" by (simp add: clean_step_def)
      with c False assms(1) k(1) AtDelete show ?thesis by (simp add: share_def part_ok_def balance_def uncounted_def pc_ok_def)
    qed
  next
    case (Some e)
    with assms i k AtDelete show ?thesis
      by (auto simp: clean_step_def part_ok_def share_def uncounted_def balance_def pc_ok_def)
  qed
next
  case (AtCount d n)
  have u: "uncounted th = uncounted (th\<lparr>th_clean := AtWait d\<rparr>) - n" by (simp add: uncounted_def AtCount)
  from AtCount assms show ?thesis
    by (auto simp: clean_step_def part_ok_def share_def pc_ok_def counted_deletes u simp del: power_numeral)
qed (use assms Aggregate_ok in \<open>auto simp: clean_step_def part_ok_def share_def uncounted_def balance_def pc_ok_def\<close>)

end

lemma put_back_keeps:
  assumes "sys_ok tables s" and "i < length (sy_threads s)"
    and "part_ok tables x \<and> share tables x = share tables (take_out i s)"
  shows "sys_ok tables (put_back i x s) \<and> sys_ledger tables (put_back i x s) = sys_ledger tables s"
proof -
  obtain th db m where x: "x = (th, db, m)" by (cases x)
  let ?th = "sy_threads s ! i" and ?S = "sum_list (map uncounted (sy_threads s))"
  have "sys_ok tables (put_back i x s)"
    using assms(1,3) set_update_subset_insert [of "sy_threads s" i th]
    by (auto simp: x sys_ok_def put_back_def part_ok_def)
  moreover have "sys_ledger tables (put_back i x s) = sys_ledger tables s"
  proof -
    have "sys_ledger tables (put_back i x s) = (balance tables db m - (?S - uncounted ?th + uncounted th)) mod 2 ^ 64"
      by (simp add: sys_ledger_def x put_back_def sum_list_swap [OF assms(2)])
    also have "\<dots> = (balance tables db m - uncounted th - (?S - uncounted ?th)) mod 2 ^ 64"
      by (rule arg_cong [where f = "\<lambda>x. x mod 2 ^ 64"]) simp
    also have "\<dots> = (balance tables (sv_db (sy_sv s)) (sv_metrics (sy_sv s)) - uncounted ?th - (?S - uncounted ?th)) mod 2 ^ 64"
      by (rule mod_diff_cong [OF _ refl]) (use assms(3) in \<open>simp add: share_def x take_out_def\<close>)
    finally show ?thesis by (simp add: sys_ledger_def)
  qed
  ultimately show ?thesis by blast
qed

lemma set_pc_keeps:
  assumes "sys_ok tables s" and "i < length (sy_threads s)"
    and "pc_ok (f (sy_threads s ! i))" and "uncounted (f (sy_threads s ! i)) = uncounted (sy_threads s ! i)"
  shows "sys_ok tables (set_pc i f s) \<and> sys_ledger tables (set_pc i f s) = sys_ledger tables s"
  using assms set_update_subset_insert [of "sy_threads s" i "f (sy_threads s ! i)"]
  by (auto simp: sys_ok_def set_pc_def sys_ledger_def sum_list_swap [OF assms(2)])

lemma take_out_part: "sys_ok tables s \<Longrightarrow> i < length (sy_threads s) \<Longrightarrow> part_ok tables (take_out i s)"
  by (simp add: sys_ok_def part_ok_def take_out_def)

text \<open>A reload changes settings only.\<close>

lemma sighup_length: "sighup loaded (cfg, ss) = (cfg', ss') \<Longrightarrow> length ss' = length ss"
  by (cases loaded; cases "snd loaded") (auto simp: sighup_def split: if_splits)

definition same_place :: "thread \<Rightarrow> thread \<Rightarrow> bool" where
  "same_place th th' \<longleftrightarrow> th_pc th' = th_pc th \<and> th_clean th' = th_clean th \<and> th_breaker th' = th_breaker th"

lemma reload_places:
  "length ss = length ths \<Longrightarrow> list_all2 same_place ths (map (\<lambda>(th, sc). th\<lparr>th_sched := sc\<rparr>) (zip ths ss))"
  by (auto simp: list_all2_conv_all_nth same_place_def)

lemma same_place_keeps: "same_place th th' \<Longrightarrow> uncounted th' = uncounted th" "same_place th th' \<Longrightarrow> pc_ok th' = pc_ok th"
  by (simp_all only: same_place_def uncounted_def pc_ok_def)

lemma same_places_keep:
  assumes "list_all2 same_place ths ths'"
  shows "map uncounted ths' = map uncounted ths" and "map pc_ok ths' = map pc_ok ths"
  using assms same_place_keeps by (simp_all add: list_all2_conv_all_nth list_eq_iff_nth_eq)

lemma reload_keeps:
  assumes "sys_ok tables s" and "sighup loaded (sy_cfg s, map th_sched (sy_threads s)) = (cfg', ss)"
    and "t = s\<lparr>sy_cfg := cfg', sy_threads := map (\<lambda>(th, sc). th\<lparr>th_sched := sc\<rparr>) (zip (sy_threads s) ss)\<rparr>"
  shows "sys_ok tables t \<and> sys_ledger tables t = sys_ledger tables s"
proof -
  have "length ss = length (sy_threads s)" using sighup_length [OF assms(2)] by simp
  note p = same_places_keep [OF reload_places [OF this]]
  have t: "sy_sv t = sy_sv s" "map uncounted (sy_threads t) = map uncounted (sy_threads s)"
    "map pc_ok (sy_threads t) = map pc_ok (sy_threads s)" using p by (simp_all add: assms(3))
  from t(3) have "list_all id (map pc_ok (sy_threads t)) = list_all id (map pc_ok (sy_threads s))" by (simp only:)
  then have "(\<forall>th \<in> set (sy_threads t). pc_ok th) = (\<forall>th \<in> set (sy_threads s). pc_ok th)" by (simp add: list_all_iff)
  with t(1,2) assms(1) show ?thesis by (simp only: sys_ok_def sys_ledger_def) simp
qed

context running
begin

lemma serve_keeps:
  assumes "sys_ok tables s" and "h now r (sy_sv s) = (rep, sv')"
  shows "sys_ok tables (s\<lparr>sy_sv := sv'\<rparr>)
    \<and> sys_ledger tables (s\<lparr>sy_sv := sv'\<rparr>)
        = (sys_ledger tables s + (count_rows (tables (sv_db sv')) - count_rows (tables (sv_db (sy_sv s))))) mod 2 ^ 64"
proof -
  let ?d = "count_rows (tables (sv_db sv')) - count_rows (tables (sv_db (sy_sv s)))"
  let ?S = "sum_list (map uncounted (sy_threads s))" and ?B = "balance tables (sv_db (sy_sv s)) (sv_metrics (sy_sv s))"
  have e: "balance tables (sv_db sv') (sv_metrics sv') - ?S = ?B - ?S + ?d"
    using keeps_counters [OF assms(2)] by (simp add: balance_def)
  have "sys_ledger tables (s\<lparr>sy_sv := sv'\<rparr>) = (balance tables (sv_db sv') (sv_metrics sv') - ?S) mod 2 ^ 64"
    by (simp add: sys_ledger_def)
  also have "\<dots> = (?B - ?S + ?d) mod 2 ^ 64" by (simp only: e)
  also have "\<dots> = (sys_ledger tables s + ?d) mod 2 ^ 64" by (simp only: sys_ledger_def mod_add_left_eq)
  finally show ?thesis using keeps_store [OF assms(2)] assms(1) by (simp add: sys_ok_def)
qed

lemma sys_step_keeps:
  assumes "sys_step pg h a s t" and "sys_ok tables s"
  shows "sys_ok tables t \<and> sys_ledger tables t = (sys_ledger tables s
    + (if a = Serving then count_rows (tables (sv_db (sy_sv t))) - count_rows (tables (sv_db (sy_sv s))) else 0)) mod 2 ^ 64"
proof -
  have norm: "sys_ledger tables s mod 2 ^ 64 = sys_ledger tables s" for s :: "('a, 'd) sys"
    unfolding sys_ledger_def by (rule mod_mod_trivial)
  have quiet: ?thesis if "a \<noteq> Serving" and "sys_ok tables t \<and> sys_ledger tables t = sys_ledger tables s"
    using that norm [of s] by (simp only: add_0_right if_False simp_thms)
  have frame: "sys_ok tables (s\<lparr>sy_phase := p\<rparr>) \<and> sys_ledger tables (s\<lparr>sy_phase := p\<rparr>) = sys_ledger tables s"
    "sys_ok tables (s\<lparr>sy_cancelled := b\<rparr>) \<and> sys_ledger tables (s\<lparr>sy_cancelled := b\<rparr>) = sys_ledger tables s"
    "sys_ok tables (s\<lparr>sy_sv := (sy_sv s)\<lparr>sv_limiter := l\<rparr>\<rparr>)
      \<and> sys_ledger tables (s\<lparr>sy_sv := (sy_sv s)\<lparr>sv_limiter := l\<rparr>\<rparr>) = sys_ledger tables s" for p b l
    using assms(2) by (simp_all add: sys_ok_def sys_ledger_def)
  have ok: "pc_ok (sy_threads s ! i)" if "i < length (sy_threads s)" for i
    using assms(2) that by (simp add: sys_ok_def)
  show ?thesis using assms(1)
  proof cases
    case (run_cycle i env)
    obtain th db m where x: "take_out i s = (th, db, m)" by (cases "take_out i s")
    note p = take_out_part [OF assms(2) run_cycle(4), unfolded x]
    from put_back_keeps [OF assms(2) run_cycle(4) cycle_step_keeps [OF p run_cycle(6) refl, folded x]] run_cycle(1,2)
    show ?thesis by (intro quiet) simp_all
  next
    case (clean_up i now)
    obtain th db m where x: "take_out i s = (th, db, m)" by (cases "take_out i s")
    note p = take_out_part [OF assms(2) clean_up(4), unfolded x]
    from put_back_keeps [OF assms(2) clean_up(4) clean_step_keeps [OF p refl, folded x]] clean_up(1,2)
    show ?thesis by (intro quiet) simp_all
  next
    case (serve now r rep sv')
    with serve_keeps [OF assms(2) serve(4)] show ?thesis by simp
  next
    case (reload loaded cfg' ss)
    with reload_keeps [OF assms(2) reload(4,2)] show ?thesis by (intro quiet) simp_all
  next
    case (run_launch i)
    from set_pc_keeps [OF assms(2) run_launch(4), of "\<lambda>th. th\<lparr>th_pc := AtCycle,
        th_clean := (if s_retentionDays (th_sched th) > 0 then Spawned else NoClean)\<rparr>"] ok [OF run_launch(4)] run_launch
    show ?thesis by (intro quiet) (simp_all add: pc_ok_def uncounted_def)
  next
    case (run_ticker i)
    from set_pc_keeps [OF assms(2) run_ticker(4), of "\<lambda>th. th\<lparr>th_ticker := True\<rparr>"] ok [OF run_ticker(4)] run_ticker
    show ?thesis by (intro quiet) (simp_all add: pc_ok_def uncounted_def)
  next
    case (run_tick i)
    from set_pc_keeps [OF assms(2) run_tick(4), of "\<lambda>th. th\<lparr>th_pc := AtCycle\<rparr>"] ok [OF run_tick(4)] run_tick
    show ?thesis by (intro quiet) (simp_all add: pc_ok_def uncounted_def)
  next
    case (run_done i)
    from set_pc_keeps [OF assms(2) run_done(4), of "\<lambda>th. th\<lparr>th_pc := AtEnd\<rparr>"] ok [OF run_done(4)] run_done
    show ?thesis by (intro quiet) (simp_all add: pc_ok_def uncounted_def)
  next
    case (clean_tick i d)
    from set_pc_keeps [OF assms(2) clean_tick(4), of "\<lambda>th. th\<lparr>th_clean := AtHourly d\<rparr>"] ok [OF clean_tick(4)] clean_tick
    show ?thesis by (intro quiet) (simp_all add: pc_ok_def uncounted_def)
  next
    case (clean_done i d)
    from set_pc_keeps [OF assms(2) clean_done(4), of "\<lambda>th. th\<lparr>th_clean := CleanEnd\<rparr>"] ok [OF clean_done(4)] clean_done
    show ?thesis by (intro quiet) (simp_all add: pc_ok_def uncounted_def)
  next
    case (run_panic i)
    with frame show ?thesis by (intro quiet) simp_all
  next
    case (sweep now)
    with frame show ?thesis by (intro quiet) simp_all
  next
    case cancel
    with frame show ?thesis by (intro quiet) simp_all
  next
    case main_returns
    with frame show ?thesis by (intro quiet) simp_all
  next
    case main_exits
    with frame show ?thesis by (intro quiet) simp_all
  qed
qed

end

section \<open>The mux keeps the contract\<close>

context postgres
begin

lemma ingest_keeps_store:
  assumes "ingest pg rwh series db = ((n, r), db')"
  shows "\<exists>rows. tables db' = add_rows rows (tables db)" and "store_ok (tables db) \<Longrightarrow> store_ok (tables db')"
proof -
  have "\<exists>rows. tables db' = add_rows rows (tables db) \<and> r_node ` set rows \<subseteq> node_ids (tables db)"
  proof (cases "r = None \<and> rows_of_series series \<noteq> []")
  case False
  with assms ingest_error [of rwh series db n _ db'] have "db' = db" by (cases r) (auto simp: ingest_def)
  then show ?thesis by (intro exI [of _ "[]"]) (simp add: add_rows_def)
next
  case True
  then obtain tx tx' where tx: "Begin pg db = Inr tx"
    and l: "batch_loop (rw_insert pg (rw_nodeID rwh)) ''batch insert'' (\<lambda>count k b. wrap64 (count + int (length b)))
      tx 0 0 (chunks 500 (rows_of_series series)) = ((n, None), tx')"
    and c: "Commit pg tx' = (None, db')"
    using assms(1) by (auto simp: ingest_def Let_def split: sum.splits prod.splits option.splits)
  have "tx_tables tx = tables db" "tables db' = tx_tables tx'" using begin_ok [OF tx] commit_ok [OF c] by simp_all
  with rws.loop_rows [OF l batches_small] show ?thesis
    by (intro exI [of _ "map (row_of_rw stamp (rw_nodeID rwh)) (rows_of_series series)"]) (simp add: concat_batches image_image)
  qed
  then show "\<exists>rows. tables db' = add_rows rows (tables db)" and "store_ok (tables db) \<Longrightarrow> store_ok (tables db')"
    using store_ok_add_rows by auto
qed

end

lemma ServeHTTP_cases:
  obtains "snd (ServeHTTP pg snappy rwh r st) = st"
  | series n e db' where "ingest pg rwh series (rw_db st) = ((n, Some e), db')"
      "snd (ServeHTTP pg snappy rwh r st)
        = st\<lparr>rw_db := db', rw_metrics := (rw_metrics st)\<lparr>RemoteWriteErrors := add64 1 (RemoteWriteErrors (rw_metrics st))\<rparr>\<rparr>"
  | series n db' where "ingest pg rwh series (rw_db st) = ((n, None), db')"
      "snd (ServeHTTP pg snappy rwh r st)
        = st\<lparr>rw_db := db', rw_metrics := (rw_metrics st)\<lparr>RemoteWriteSamples := add64 n (RemoteWriteSamples (rw_metrics st))\<rparr>\<rparr>"
proof (cases "\<exists>body decoded series. rq_method r = ''POST'' \<and> rq_body r = Inr body
    \<and> snappy (take (10 * 2 ^ 20) body) = Inr decoded \<and> parseWriteRequest decoded = Ok series")
  case False
  then have "snd (ServeHTTP pg snappy rwh r st) = st"
    by (simp add: ServeHTTP_def split: sum.split outcome.split)
  then show ?thesis by (rule that(1))
next
  case True
  then obtain body decoded series where b: "rq_method r = ''POST''" "rq_body r = Inr body"
    "snappy (take (10 * 2 ^ 20) body) = Inr decoded" "parseWriteRequest decoded = Ok series" by blast
  obtain n e db' where i: "ingest pg rwh series (rw_db st) = ((n, e), db')" by (metis prod.exhaust)
  note p = ServeHTTP_parsed [where snappy = snappy, OF b i]
  show ?thesis
  proof (cases e)
    case None
    show ?thesis by (rule that(3) [OF i [unfolded None]]) (use p None in simp)
  next
    case (Some x)
    show ?thesis by (rule that(2) [OF i [unfolded Some]]) (use p Some in simp)
  qed
qed

definition harmless :: "('db \<Rightarrow> tables) \<Rightarrow> ('db, 'mcp) service \<Rightarrow> ('db, 'mcp) service \<Rightarrow> bool" where
  "harmless tables sv sv' \<longleftrightarrow> (\<exists>rows. tables (sv_db sv') = add_rows rows (tables (sv_db sv)))
     \<and> (store_ok (tables (sv_db sv)) \<longrightarrow> store_ok (tables (sv_db sv')))
     \<and> SamplesInserted (sv_metrics sv') = SamplesInserted (sv_metrics sv)
     \<and> RetentionDeleted (sv_metrics sv') = RetentionDeleted (sv_metrics sv)"

definition tame :: "('db \<Rightarrow> tables) \<Rightarrow> ('db, 'mcp) handler \<Rightarrow> bool" where
  "tame tables h \<longleftrightarrow> (\<forall>now r sv. harmless tables sv (snd (h now r sv)))"

lemma add_no_rows [simp]: "add_rows [] t = t"
  by (simp add: add_rows_def)

lemma add_rows_refl [simp]: "\<exists>rows. t = add_rows rows t"
  by (rule exI [of _ "[]"]) simp

lemma harmless_same: "tables (sv_db sv') = tables (sv_db sv) \<Longrightarrow> SamplesInserted (sv_metrics sv') = SamplesInserted (sv_metrics sv)
    \<Longrightarrow> RetentionDeleted (sv_metrics sv') = RetentionDeleted (sv_metrics sv) \<Longrightarrow> harmless tables sv sv'"
  unfolding harmless_def by (metis add_no_rows)

lemma tame_auth: "tame tables h \<Longrightarrow> tame tables (authMiddleware token h)"
  by (auto simp: tame_def authMiddleware_def harmless_def count_metric_def)

lemma tame_body: "tame tables h \<Longrightarrow> tame tables (maxBodyMiddleware n h)"
  by (simp add: tame_def maxBodyMiddleware_def)

lemma tame_rate:
  assumes "tame tables h"
  shows "tame tables (rateLimitHandler trust h)"
proof -
  have "harmless tables sv (snd (rateLimitHandler trust h now r sv))" for now r sv
  proof (cases "sv_limiter sv")
    case None
    with assms show ?thesis by (simp add: rateLimitHandler_def tame_def)
  next
    case (Some rl)
    obtain b rl' where a: "rl_Allow now (extractIP trust r) rl = (b, rl')" by fastforce
    have "harmless tables (sv\<lparr>sv_limiter := Some rl'\<rparr>) (snd (h now r (sv\<lparr>sv_limiter := Some rl'\<rparr>)))"
      using assms by (simp only: tame_def)
    with Some a show ?thesis
      by (cases b) (simp_all add: rateLimitHandler_def harmless_def count_metric_def)
  qed
  then show ?thesis by (simp add: tame_def)
qed

text \<open>The MCP server only reads: its tools are queries.\<close>

locale service_host = rollup_db pg tables tx_tables base stamp
  for pg :: "('db, 'tx) pg" and tables tx_tables base stamp +
  fixes sse :: "('db, 'mcp) mcp_server"
  assumes sse_reads: "sse r (db, n) = (rep, db', n') \<Longrightarrow> tables db' = tables db"
begin

lemma tame_sse: "tame tables (sseHandler sse)"
  by (auto simp: tame_def sseHandler_def dest!: sse_reads intro!: harmless_same split: prod.splits)

lemma tame_mcp: "tame tables (mcpHandler cfg trust sse)"
  by (simp only: mcpHandler_def Let_def split: if_split)
    (blast intro: tame_sse tame_auth tame_body tame_rate)

lemma tame_write: "tame tables (writeHandler pg snappy rwh :: ('db, 'mcp) handler)"
proof -
  have "harmless tables sv (snd (writeHandler pg snappy rwh now r sv))" for now r and sv :: "('db, 'mcp) service"
  proof -
    define rq where "rq = \<lparr>rq_method = hq_method r, rq_body = (case hq_body r of None \<Rightarrow> Inr [] | Some b \<Rightarrow> read_all b)\<rparr>"
    define st where "st = \<lparr>rw_db = sv_db sv, rw_metrics = sv_metrics sv\<rparr>"
    define st' where "st' = snd (ServeHTTP pg snappy rwh rq st)"
    have e: "snd (writeHandler pg snappy rwh now r sv) = sv\<lparr>sv_db := rw_db st', sv_metrics := rw_metrics st'\<rparr>"
      by (simp add: writeHandler_def rq_def st_def st'_def Let_def split: prod.split)
    show ?thesis unfolding e
    proof (cases rule: ServeHTTP_cases [of pg snappy rwh rq st])
      case 1
      then show "harmless tables sv (sv\<lparr>sv_db := rw_db st', sv_metrics := rw_metrics st'\<rparr>)"
        by (simp add: harmless_def st'_def st_def)
    next
      case (2 series n x db')
      with ingest_keeps_store [OF 2(1)] show "harmless tables sv (sv\<lparr>sv_db := rw_db st', sv_metrics := rw_metrics st'\<rparr>)"
        by (simp add: harmless_def st'_def st_def)
    next
      case (3 series n db')
      with ingest_keeps_store [OF 3(1)] show "harmless tables sv (sv\<lparr>sv_db := rw_db st', sv_metrics := rw_metrics st'\<rparr>)"
        by (simp add: harmless_def st'_def st_def)
    qed
  qed
  then show ?thesis by (simp add: tame_def)
qed

lemma tame_mux: "tame tables (service_mux cfg trust version pg ping snappy sse)"
proof -
  have refl: "harmless tables sv sv" for sv :: "('db, 'mcp) service" by (simp add: harmless_def)
  have "harmless tables sv (snd (service_mux cfg trust version pg ping snappy sse now r sv))" for now r sv
    using tame_write [of snappy "rw_handler_of cfg"] tame_mcp [of cfg trust] refl
    by (simp add: service_mux_def healthzHandler_def readyzHandler_def metricsHandler_def tame_def split: option.split)
  then show ?thesis by (simp add: tame_def)
qed

end

sublocale service_host \<subseteq> running pg tables tx_tables base stamp "service_mux cfg trust version pg ping snappy sse"
  for cfg trust version ping snappy
  proof unfold_locales
  fix now r sv rep sv' assume "service_mux cfg trust version pg ping snappy sse now r sv = (rep, sv')"
  with tame_mux [of cfg trust version ping snappy] have h: "harmless tables sv sv'" by (metis snd_conv tame_def)
  then show "store_ok (tables (sv_db sv)) \<Longrightarrow> store_ok (tables (sv_db sv'))"
    and "\<exists>rows. tables (sv_db sv') = add_rows rows (tables (sv_db sv))"
    and "SamplesInserted (sv_metrics sv') = SamplesInserted (sv_metrics sv)
      \<and> RetentionDeleted (sv_metrics sv') = RetentionDeleted (sv_metrics sv)" by (simp_all add: harmless_def)
qed

definition quiet_sse :: "(tables, int) mcp_server" where
  "quiet_sse = (\<lambda>r (db, n). (None, db, n + 1))"

interpretation ref_host: service_host ref_pg id snd fst micro quiet_sse
  by unfold_locales (auto simp: quiet_sse_def)

context running
begin

lemma sys_run_keeps:
  "sys_run pg h tables s n t \<Longrightarrow> sys_ok tables s \<Longrightarrow>
    sys_ok tables t \<and> sys_ledger tables t = (sys_ledger tables s + n) mod 2 ^ 64"
proof (induction rule: sys_run.induct)
  case run_refl
  then show ?case unfolding sys_ledger_def add_0_right mod_mod_trivial by blast
next
  case (run_step n t a u)
  let ?k = "if a = Serving then count_rows (tables (sv_db (sy_sv u))) - count_rows (tables (sv_db (sy_sv t))) else 0"
  from run_step.IH [OF run_step.prems] have t: "sys_ok tables t" "sys_ledger tables t = (sys_ledger tables s + n) mod 2 ^ 64"
    by blast+
  note u = sys_step_keeps [OF run_step.hyps(2) t(1)]
  have "(sys_ledger tables t + ?k) mod 2 ^ 64 = (sys_ledger tables s + (n + ?k)) mod 2 ^ 64"
    unfolding t(2) mod_add_left_eq by (simp only: add.assoc)
  with u show ?case by (simp only:)
qed

end

lemma launch_ok: "store_ok (tables db) \<Longrightarrow> sys_ok tables (launch cfg limiter mcp scs db)"
  by (auto simp: sys_ok_def launch_def new_thread_def pc_ok_def)

lemma launch_ledger: "sys_ledger tables (launch cfg limiter mcp scs db) = count_rows (tables db) mod 2 ^ 64"
proof -
  have "sum_list (map uncounted (map (new_thread \<circ> fst) scs)) = 0"
    by (induction scs) (simp_all add: uncounted_def new_thread_def)
  then show ?thesis by (simp add: sys_ledger_def launch_def balance_def Global_def)
qed

context service_host
begin

lemma mux_run_keeps:
  "sys_run pg (service_mux cfg trust version pg ping snappy sse) tables s n t \<Longrightarrow> sys_ok tables s \<Longrightarrow>
    sys_ok tables t \<and> sys_ledger tables t = (sys_ledger tables s + n) mod 2 ^ 64"
  by (rule sys_run_keeps)

end

text \<open>The running service keeps its table sound. However the goroutines of its schedulers, their
  clean-ups, requests to any endpoint, reloads and the shutdown interleave, and whatever fails, the
  sample table has one row per key and every row's node is registered.\<close>

theorem service_keeps_store:
  assumes "service_host pg tables tx_tables base stamp sse" and "store_ok (tables db)"
    and "sys_run pg (service_mux cfg trust version pg ping snappy sse) tables (launch cfg limiter mcp scs db) n t"
  shows "store_ok (tables (sv_db (sy_sv t)))"
  using service_host.mux_run_keeps [OF assms(1) assms(3) launch_ok [where tables = tables, OF assms(2)]]
  by (simp add: sys_ok_def)

text \<open>C6. The counters of the running service account for its table. Whenever no goroutine is between a
  statement and the counter it feeds, the rows are those at the start, plus those the requests have
  added, plus the samples-inserted counter, minus the retention-deleted counter, modulo 2^64.\<close>

theorem service_counters:
  assumes "service_host pg tables tx_tables base stamp sse" and "store_ok (tables db)"
    and "sys_run pg (service_mux cfg trust version pg ping snappy sse) tables (launch cfg limiter mcp scs db) n t"
    and "\<forall>th \<in> set (sy_threads t). at_rest th"
  shows "count_rows (tables (sv_db (sy_sv t))) mod 2 ^ 64
    = (count_rows (tables db) + n + SamplesInserted (sv_metrics (sy_sv t)) - RetentionDeleted (sv_metrics (sy_sv t))) mod 2 ^ 64"
proof -
  let ?m = "sv_metrics (sy_sv t)" and ?c = "count_rows (tables (sv_db (sy_sv t)))"
  have "sum_list (map uncounted (sy_threads t)) = 0"
    using assms(4) uncounted_at_rest by (simp cong: map_cong)
  then have "sys_ledger tables t = (?c - SamplesInserted ?m + RetentionDeleted ?m) mod 2 ^ 64"
    by (simp add: sys_ledger_def balance_def)
  moreover have "sys_ledger tables t = (count_rows (tables db) + n) mod 2 ^ 64"
    using service_host.mux_run_keeps [OF assms(1) assms(3) launch_ok [where tables = tables, OF assms(2)]]
    unfolding launch_ledger mod_add_left_eq by blast
  ultimately have e: "(?c - SamplesInserted ?m + RetentionDeleted ?m) mod 2 ^ 64 = (count_rows (tables db) + n) mod 2 ^ 64" by simp
  have "?c mod 2 ^ 64 = (?c - SamplesInserted ?m + RetentionDeleted ?m + (SamplesInserted ?m - RetentionDeleted ?m)) mod 2 ^ 64"
    by (rule arg_cong [where f = "\<lambda>x. x mod 2 ^ 64"]) simp
  also have "\<dots> = (count_rows (tables db) + n + (SamplesInserted ?m - RetentionDeleted ?m)) mod 2 ^ 64"
    by (rule mod_add_cong [OF e refl])
  finally show ?thesis by (simp only: add_diff_eq)
qed

section \<open>How the process ends\<close>

text \<open>Only a cancelled context ends a goroutine, and only a bad interval crashes the process.\<close>

definition ends_ok :: "int list \<Rightarrow> ('db, 'mcp) sys \<Rightarrow> bool" where
  "ends_ok intervals s \<longleftrightarrow> map (s_interval \<circ> th_sched) (sy_threads s) = intervals
     \<and> ((\<exists>th \<in> set (sy_threads s). th_pc th = AtEnd) \<longrightarrow> sy_cancelled s)
     \<and> (sy_phase s = Closing \<longrightarrow> sy_cancelled s)
     \<and> (\<forall>c. sy_phase s = Exited c \<longrightarrow> c = 0 \<and> sy_cancelled s)
     \<and> (sy_phase s = Crashed \<longrightarrow> (\<exists>d \<in> set intervals. d \<le> 0))"

lemma cycle_step_thread:
  assumes "cycle_step pg env (th, db, m) = (th', db', m')"
  shows "th_sched th' = th_sched th" and "th_pc th \<noteq> AtEnd \<Longrightarrow> th_pc th' \<noteq> AtEnd" and "th_ticker th' = th_ticker th"
  using assms
  by (auto simp: cycle_step_def split: run_pc.splits prod.splits option.splits retry_result.splits if_splits)

lemma clean_step_thread:
  assumes "clean_step pg now (th, db, m) = (th', db', m')"
  shows "th_sched th' = th_sched th" and "th_pc th' = th_pc th"
  using assms by (auto simp: clean_step_def split: clean_pc.splits prod.splits option.splits if_splits)

lemma ends_update:
  assumes "ends_ok ds s" and "i < length (sy_threads s)" and "th_sched th = th_sched (sy_threads s ! i)"
    and "th_pc th = AtEnd \<Longrightarrow> th_pc (sy_threads s ! i) = AtEnd \<or> sy_cancelled s"
    and "sy_threads t = (sy_threads s)[i := th]" and "sy_cancelled t = sy_cancelled s" and "sy_phase t = sy_phase s"
  shows "ends_ok ds t"
proof -
  have "map (s_interval \<circ> th_sched) (sy_threads t) = map (s_interval \<circ> th_sched) (sy_threads s)"
    using assms(2,3) by (simp add: assms(5) map_update) (metis comp_apply list_update_id nth_map)
  moreover have "sy_cancelled s" if "x \<in> set (sy_threads t)" "th_pc x = AtEnd" for x
    using that assms(1,2,4) set_update_subset_insert [of "sy_threads s" i th]
    unfolding assms(5) ends_ok_def by (metis insertE nth_mem subsetD)
  ultimately show ?thesis using assms(1,6,7) by (auto simp: ends_ok_def)
qed

lemma sighup_intervals: "sighup loaded (cfg, ss) = (cfg', ss') \<Longrightarrow> map s_interval ss' = map s_interval ss"
  by (cases loaded; cases "snd loaded") (auto simp: sighup_def set_retention_def split: if_splits)

lemma sys_step_ends:
  assumes "sys_step pg h a s t" and "ends_ok ds s"
  shows "ends_ok ds t"
  using assms(1)
proof cases
  case (run_cycle i env)
  obtain th' db' m' where c: "cycle_step pg env (take_out i s) = (th', db', m')" by (cases "cycle_step pg env (take_out i s)")
  note k = cycle_step_thread [OF c [unfolded take_out_def]]
  show ?thesis
    by (rule ends_update [OF assms(2) run_cycle(4), of th'])
      (use k run_cycle c in \<open>auto simp: put_back_def in_cycle_def\<close>)
next
  case (clean_up i now)
  obtain th' db' m' where c: "clean_step pg now (take_out i s) = (th', db', m')" by (cases "clean_step pg now (take_out i s)")
  note k = clean_step_thread [OF c [unfolded take_out_def]]
  show ?thesis
    by (rule ends_update [OF assms(2) clean_up(4), of th']) (use k clean_up c in \<open>auto simp: put_back_def\<close>)
next
  case (run_launch i)
  then show ?thesis by (intro ends_update [OF assms(2) run_launch(4)]) (auto simp: set_pc_def)
next
  case (run_ticker i)
  then show ?thesis by (intro ends_update [OF assms(2) run_ticker(4)]) (auto simp: set_pc_def)
next
  case (run_tick i)
  then show ?thesis by (intro ends_update [OF assms(2) run_tick(4)]) (auto simp: set_pc_def)
next
  case (run_done i)
  then show ?thesis by (intro ends_update [OF assms(2) run_done(4)]) (auto simp: set_pc_def)
next
  case (clean_tick i d)
  then show ?thesis by (intro ends_update [OF assms(2) clean_tick(4)]) (auto simp: set_pc_def)
next
  case (clean_done i d)
  then show ?thesis by (intro ends_update [OF assms(2) clean_done(4)]) (auto simp: set_pc_def)
next
  case (run_panic i)
  have "s_interval (th_sched (sy_threads s ! i)) \<in> set ds"
    using assms(2) run_panic(4) by (auto simp: ends_ok_def)
  with assms(2) run_panic show ?thesis by (auto simp: ends_ok_def)
next
  case (reload loaded cfg' ss)
  have l: "length ss = length (sy_threads s)" using sighup_length [OF reload(4)] by simp
  have "map (s_interval \<circ> th_sched) (sy_threads t) = map s_interval ss"
    using l by (simp add: reload(2) list_eq_iff_nth_eq)
  moreover have "map s_interval ss = map (s_interval \<circ> th_sched) (sy_threads s)"
    using sighup_intervals [OF reload(4)] by simp
  moreover have "map th_pc (sy_threads t) = map th_pc (sy_threads s)"
    using l by (simp add: reload(2) list_eq_iff_nth_eq)
  then have "th_pc ` set (sy_threads t) = th_pc ` set (sy_threads s)" by (metis set_map)
  then have "(\<exists>th \<in> set (sy_threads t). th_pc th = AtEnd) = (\<exists>th \<in> set (sy_threads s). th_pc th = AtEnd)"
    by (metis (no_types, lifting) image_iff)
  ultimately show ?thesis using assms(2) by (simp only: ends_ok_def) (simp add: reload(2))
next
  case main_returns
  have "sy_cancelled s" using assms(2) main_returns(4,5) nth_mem [of 0 "sy_threads s"] by (auto simp: ends_ok_def)
  with assms(2) main_returns show ?thesis by (simp add: ends_ok_def)
qed (use assms(2) in \<open>simp_all add: ends_ok_def\<close>)

text \<open>C13. The service ends for one reason. From its start on, in every interleaving: the shutdown and the exit
  come after a signal, the exit status is then 0 (the error branch behind \<open>Run\<close> is never taken), and
  the process dies by a panic of its schedulers only when an interval is not positive.\<close>

theorem service_ends_on_signal:
  assumes "sys_run pg h tables (launch cfg limiter mcp scs db) n t"
  shows "(sy_phase t = Closing \<longrightarrow> sy_cancelled t) \<and> (\<forall>c. sy_phase t = Exited c \<longrightarrow> c = 0 \<and> sy_cancelled t)
    \<and> (sy_phase t = Crashed \<longrightarrow> (\<exists>(s, c) \<in> set scs. s_interval s \<le> 0))"
proof -
  have "ends_ok (map (s_interval \<circ> fst) scs) t"
    using assms
  proof (induction rule: sys_run.induct)
    case run_refl
    show ?case by (auto simp: ends_ok_def launch_def new_thread_def)
  next
    case (run_step n t a u)
    then show ?case using sys_step_ends by blast
  qed
  then show ?thesis by (force simp: ends_ok_def)
qed

section \<open>The service can always stop\<close>

definition rank :: "thread \<Rightarrow> nat" where
  "rank th = (case th_pc th of AtLaunch \<Rightarrow> 8 | AtCycle \<Rightarrow> 7 | AtRegister \<Rightarrow> 6 | AtGather \<Rightarrow> 5 | AtStore ss le \<Rightarrow> 4
     | AtAccount n \<Rightarrow> 3 | AtSelect \<Rightarrow> (if th_ticker th then 1 else 2) | AtEnd \<Rightarrow> 0)"

lemma rank_cycle:
  assumes "cycle_step pg env (th, db, m) = (th', db', m')" and "in_cycle (th_pc th)"
  shows "rank th' < rank th"
  using assms
  by (auto simp: cycle_step_def in_cycle_def rank_def
      split: run_pc.splits prod.splits option.splits retry_result.splits if_splits)

abbreviation some_step :: "('db, 'tx) pg \<Rightarrow> ('db, 'mcp) handler \<Rightarrow> ('db, 'mcp) sys \<Rightarrow> ('db, 'mcp) sys \<Rightarrow> bool" where
  "some_step pg h \<equiv> (\<lambda>s t. \<exists>a. sys_step pg h a s t)"

definition stopping :: "('db, 'mcp) sys \<Rightarrow> bool" where
  "stopping s \<longleftrightarrow> sy_phase s = Running \<and> sy_cancelled s \<and> sy_threads s \<noteq> [] \<and> s_interval (th_sched (sy_threads s ! 0)) > 0"

lemma event_ok_empty: "event_ok (Tick (demo_env (\<lambda>_. Inl [])))"
  by (simp add: event_ok_def demo_env_def)

lemma stopping_step:
  assumes "stopping s" and "th_pc (sy_threads s ! 0) \<noteq> AtEnd"
  shows "\<exists>t. some_step pg h s t \<and> stopping t \<and> rank (sy_threads t ! 0) < rank (sy_threads s ! 0)"
proof -
  let ?th = "sy_threads s ! 0"
  have s: "alive s" "0 < length (sy_threads s)" "sy_cancelled s" using assms(1) by (auto simp: stopping_def alive_def)
  consider "th_pc ?th = AtLaunch" | "th_pc ?th = AtSelect" "th_ticker ?th" | "th_pc ?th = AtSelect" "\<not> th_ticker ?th"
    | "in_cycle (th_pc ?th)" using assms(2) by (auto simp: in_cycle_def)
  then show ?thesis
  proof cases
    case 1
    note st = sys_step.run_launch [of s 0, OF s(1,2) 1, of pg h]
    show ?thesis by (intro exI [of _ "set_pc 0 _ s"] conjI exI, rule st) (use 1 assms(1) s in \<open>auto simp: stopping_def set_pc_def rank_def\<close>)
  next
    case 2
    note st = sys_step.run_done [of s 0, OF s(1,2) 2 s(3), of pg h]
    show ?thesis by (intro exI [of _ "set_pc 0 _ s"] conjI exI, rule st) (use 2 assms(1) s in \<open>auto simp: stopping_def set_pc_def rank_def\<close>)
  next
    case 3
    have "s_interval (th_sched ?th) > 0" using assms(1) by (simp add: stopping_def)
    note st = sys_step.run_ticker [of s 0, OF s(1,2) 3 this, of pg h]
    show ?thesis by (intro exI [of _ "set_pc 0 _ s"] conjI exI, rule st) (use 3 assms(1) s in \<open>auto simp: stopping_def set_pc_def rank_def\<close>)
  next
    case 4
    let ?x = "cycle_step pg (demo_env (\<lambda>_. Inl [])) (take_out 0 s)"
    obtain th' db' m' where c: "?x = (th', db', m')" by (cases ?x)
    note k = cycle_step_thread [OF c [unfolded take_out_def]] rank_cycle [OF c [unfolded take_out_def] 4]
    note st = sys_step.run_cycle [of s 0, OF s(1,2) 4 event_ok_empty, of pg h]
    show ?thesis by (intro exI [of _ "put_back 0 ?x s"] conjI exI, rule st)
      (use k assms(1) s c in \<open>auto simp: stopping_def put_back_def\<close>)
  qed
qed

lemma stopping_run:
  "stopping s \<Longrightarrow> \<exists>k t. k \<le> rank (sy_threads s ! 0) \<and> (some_step pg h ^^ k) s t \<and> stopping t \<and> th_pc (sy_threads t ! 0) = AtEnd"
proof (induction "rank (sy_threads s ! 0)" arbitrary: s rule: less_induct)
  case less
  show ?case
  proof (cases "th_pc (sy_threads s ! 0) = AtEnd")
    case True
    with less.prems show ?thesis by (intro exI [of _ 0]) auto
  next
    case False
    obtain t where t: "some_step pg h s t" "stopping t" "rank (sy_threads t ! 0) < rank (sy_threads s ! 0)"
      using stopping_step [OF less.prems False] by blast
    obtain k u where u: "k \<le> rank (sy_threads t ! 0)" "(some_step pg h ^^ k) t u" "stopping u" "th_pc (sy_threads u ! 0) = AtEnd"
      using less.hyps [OF t(3,2)] by blast
    from relpowp_Suc_I2 [OF t(1) u(2)] u t(3) show ?thesis by (intro exI [of _ "Suc k"]) auto
  qed
qed

lemma stops_from:
  assumes "alive s" and "sy_cancelled s" and "sy_threads s \<noteq> []" and "s_interval (th_sched (sy_threads s ! 0)) > 0"
  shows "\<exists>k t. k \<le> 10 \<and> (some_step pg h ^^ k) s t \<and> sy_phase t = Exited 0"
proof (cases "sy_phase s = Closing")
  case True
  then have "(some_step pg h ^^ 1) s (s\<lparr>sy_phase := Exited 0\<rparr>)"
    unfolding relpowp_1 using sys_step.main_exits by blast
  moreover have "(1 :: nat) \<le> 10" "sy_phase (s\<lparr>sy_phase := Exited 0\<rparr>) = Exited 0" by simp_all
  ultimately show ?thesis by blast
next
  case False
  with assms have "stopping s" by (simp add: stopping_def alive_def)
  from stopping_run [OF this, of pg h] obtain k t where t: "k \<le> rank (sy_threads s ! 0)" "(some_step pg h ^^ k) s t"
    "stopping t" "th_pc (sy_threads t ! 0) = AtEnd" by blast
  have r: "rank (sy_threads s ! 0) \<le> 8" by (simp add: rank_def split: run_pc.split)
  have "sys_step pg h Main t (t\<lparr>sy_phase := Closing\<rparr>)"
    using sys_step.main_returns [of t pg h] t(3,4) by (auto simp: stopping_def)
  with t(2) have "(some_step pg h ^^ Suc k) s (t\<lparr>sy_phase := Closing\<rparr>)" by (blast intro: relpowp_Suc_I)
  moreover have "sys_step pg h Main (t\<lparr>sy_phase := Closing\<rparr>) (t\<lparr>sy_phase := Closing\<rparr>\<lparr>sy_phase := Exited 0\<rparr>)"
    by (rule sys_step.main_exits) simp
  ultimately have "(some_step pg h ^^ Suc (Suc k)) s (t\<lparr>sy_phase := Closing\<rparr>\<lparr>sy_phase := Exited 0\<rparr>)"
    by (blast intro: relpowp_Suc_I)
  moreover have "sy_phase (t\<lparr>sy_phase := Closing\<rparr>\<lparr>sy_phase := Exited 0\<rparr>) = Exited 0" "Suc (Suc k) \<le> 10" using t(1) r by simp_all
  ultimately show ?thesis by blast
qed

text \<open>C14. The service can always stop. From every state after a signal in which the process is alive and its
  first scheduler has a valid interval, wherever that scheduler is in its cycle, ten steps are enough
  to exit with status 0.\<close>

theorem service_can_stop:
  assumes "alive s" and "sy_cancelled s" and "sy_threads s \<noteq> []" and "s_interval (th_sched (sy_threads s ! 0)) > 0"
  shows "\<exists>k t. k \<le> 10 \<and> (some_step pg h ^^ k) s t \<and> sy_phase t = Exited 0"
  by (rule stops_from [OF assms])

section \<open>Steps put together\<close>

lemma put_take: "i < length (sy_threads s) \<Longrightarrow> take_out i (put_back i x s) = x"
  "put_back i y (put_back i x s) = put_back i y s"
  by (simp_all add: take_out_def put_back_def split: prod.split)

lemma put_back_self: "put_back i (take_out i s) s = s"
  by (simp add: take_out_def put_back_def)

lemma put_back_frame:
  "alive (put_back i x s) = alive s" "length (sy_threads (put_back i x s)) = length (sy_threads s)"
  "i < length (sy_threads s) \<Longrightarrow> sy_threads (put_back i (th, db, m) s) ! i = th"
  "sv_db (sy_sv (put_back i (th, db, m) s)) = db"
  by (simp_all add: alive_def put_back_def split: prod.split)

lemma clean_step_run:
  assumes "sys_run pg h tables s0 n (put_back i (th, db, m) s)" and "alive s" and "i < length (sy_threads s)"
    and "in_clean_up (th_clean th)"
  shows "sys_run pg h tables s0 n (put_back i (clean_step pg now (th, db, m)) s)"
proof -
  let ?t = "put_back i (th, db, m) s"
  have "sys_step pg h (Cleaning i) ?t (put_back i (clean_step pg now (take_out i ?t)) ?t)"
    by (rule sys_step.clean_up) (use assms(2-4) in \<open>simp_all add: put_back_frame\<close>)
  from run_step [OF assms(1) this] show ?thesis by (simp add: put_take(1) [OF assms(3)] put_take(2))
qed

section \<open>A run\<close>

definition demo_sys :: "(tables, int) sys" where
  "demo_sys = launch Defaults None 0 [(newScheduler 10 ''n1'' ''h'' ''u'', newCollector ''u'' [] ''n1'' [''system.cpu''] 10)] demo_tables"

abbreviation demo_mux :: "(tables, int) handler" where
  "demo_mux \<equiv> service_mux Defaults False ''dev'' ref_pg (\<lambda>_. None) Inr quiet_sse"

text \<open>The code's mux on the reference database meets both contracts.\<close>

interpretation ref_running: running ref_pg id snd fst micro demo_mux
  by (rule ref_host.running_axioms)

lemma demo_sys_fields:
  "sy_threads demo_sys = [new_thread (newScheduler 10 ''n1'' ''h'' ''u'')]" "sy_phase demo_sys = Running"
  "sy_cfg demo_sys = Defaults" "sv_db (sy_sv demo_sys) = demo_tables" "alive demo_sys"
  by (simp_all add: demo_sys_def launch_def alive_def)

lemma demo_store_ok: "store_ok (id demo_tables)"
  by (simp add: store_ok_def demo_tables_def)

text \<open>The scheduler is launched, a request for the metrics is served, and the signal arrives.\<close>

lemma demo_sys_run:
  obtains t where "sys_run ref_pg demo_mux id demo_sys 0 t" and "alive t" and "sy_cancelled t"
    and "length (sy_threads t) = 1" and "th_pc (sy_threads t ! 0) = AtCycle" and "at_rest (sy_threads t ! 0)"
    and "s_interval (th_sched (sy_threads t ! 0)) > 0"
proof -
  let ?f = "\<lambda>th. th\<lparr>th_pc := AtCycle, th_clean := (if s_retentionDays (th_sched th) > 0 then Spawned else NoClean)\<rparr>"
  let ?s1 = "set_pc 0 ?f demo_sys"
  have "th_pc (sy_threads demo_sys ! 0) = AtLaunch" by (simp add: demo_sys_fields new_thread_def)
  then have 1: "sys_run ref_pg demo_mux id demo_sys 0 ?s1"
    using run_step [OF run_refl sys_step.run_launch [of demo_sys 0 ref_pg demo_mux]] by (simp add: demo_sys_fields)
  obtain rep where "demo_mux 0 (demo_req ''/metrics'' []) (sy_sv ?s1) = (rep, sy_sv ?s1)"
    by (simp add: service_mux_def demo_req_def metricsHandler_def)
  then have "sys_step ref_pg demo_mux Serving ?s1 (?s1\<lparr>sy_sv := sy_sv ?s1\<rparr>)"
    by (rule sys_step.serve [rotated]) (simp add: alive_def set_pc_def demo_sys_fields)
  from run_step [OF 1 this] have 2: "sys_run ref_pg demo_mux id demo_sys 0 ?s1" by simp
  have a: "alive ?s1" by (simp add: alive_def set_pc_def demo_sys_fields)
  from run_step [OF 2 sys_step.cancel [OF a]]
  have 3: "sys_run ref_pg demo_mux id demo_sys 0 (?s1\<lparr>sy_cancelled := True\<rparr>)" by simp
  show ?thesis
    by (rule that [OF 3])
      (simp_all add: alive_def set_pc_def demo_sys_fields new_thread_def at_rest_def newScheduler_def wrap64_def)
qed

theorem service_keeps_store_witness:
  "\<exists>t. sys_run ref_pg demo_mux id demo_sys 0 t \<and> sy_cancelled t \<and> store_ok (sv_db (sy_sv t))"
proof -
  obtain t where t: "sys_run ref_pg demo_mux id demo_sys 0 t" "sy_cancelled t" by (rule demo_sys_run)
  from service_keeps_store [OF ref_host.service_host_axioms demo_store_ok t(1) [unfolded demo_sys_def]] t show ?thesis by auto
qed

theorem service_counters_witness:
  "\<exists>t. sys_run ref_pg demo_mux id demo_sys 0 t \<and> sy_cancelled t \<and> count_rows (sv_db (sy_sv t)) mod 2 ^ 64
     = (SamplesInserted (sv_metrics (sy_sv t)) - RetentionDeleted (sv_metrics (sy_sv t))) mod 2 ^ 64"
proof -
  obtain t where t: "sys_run ref_pg demo_mux id demo_sys 0 t" "sy_cancelled t" "length (sy_threads t) = 1" "at_rest (sy_threads t ! 0)"
    by (rule demo_sys_run)
  then have "\<forall>th \<in> set (sy_threads t). at_rest th" by (auto simp: length_Suc_conv)
  from service_counters [OF ref_host.service_host_axioms demo_store_ok t(1) [unfolded demo_sys_def] this]
  have "count_rows (sv_db (sy_sv t)) mod 2 ^ 64
     = (SamplesInserted (sv_metrics (sy_sv t)) - RetentionDeleted (sv_metrics (sy_sv t))) mod 2 ^ 64"
    by (simp add: demo_tables_def count_rows_def)
  with t show ?thesis by blast
qed

lemma some_steps_run: "(some_step pg h ^^ k) s t \<Longrightarrow> sys_run pg h tables s0 n s \<Longrightarrow> \<exists>n. sys_run pg h tables s0 n t"
proof (induction k arbitrary: t)
  case (Suc k)
  then obtain u where "(some_step pg h ^^ k) s u" "some_step pg h u t" by auto
  with Suc.IH [of u] Suc.prems(2) run_step show ?case by blast
qed auto

theorem service_ends_on_signal_witness:
  "\<exists>n t. sys_run ref_pg demo_mux id demo_sys n t \<and> sy_phase t = Exited 0 \<and> sy_cancelled t"
proof -
  obtain s where s: "sys_run ref_pg demo_mux id demo_sys 0 s" "alive s" "sy_cancelled s" "length (sy_threads s) = 1"
    "s_interval (th_sched (sy_threads s ! 0)) > 0" by (rule demo_sys_run)
  then have "sy_threads s \<noteq> []" by auto
  from stops_from [OF s(2,3) this s(5)] obtain k t where t: "(some_step ref_pg demo_mux ^^ k) s t" "sy_phase t = Exited 0" by blast
  from some_steps_run [OF t(1) s(1)] obtain n where n: "sys_run ref_pg demo_mux id demo_sys n t" by blast
  from service_ends_on_signal [OF n [unfolded demo_sys_def]] t(2) n show ?thesis by blast
qed

theorem service_can_stop_witness:
  "\<exists>n s k t. sys_run ref_pg demo_mux id demo_sys n s \<and> k \<le> 10 \<and> (some_step ref_pg demo_mux ^^ k) s t \<and> sy_phase t = Exited 0"
proof -
  obtain s where s: "sys_run ref_pg demo_mux id demo_sys 0 s" "alive s" "sy_cancelled s" "length (sy_threads s) = 1"
    "s_interval (th_sched (sy_threads s ! 0)) > 0" by (rule demo_sys_run)
  then have "sy_threads s \<noteq> []" by auto
  from service_can_stop [OF s(2,3) this s(5)] s(1) show ?thesis by blast
qed

theorem goroutine_steps_refine_code_witness:
  "\<exists>n. fst (snd ((cycle_step ref_pg (demo_env demo_collect) ^^ 5)
      ((new_thread (newScheduler 10 ''n1'' ''h'' ''u''))\<lparr>th_pc := AtCycle\<rparr>, demo_tables, Global))) = n
    \<and> n = w_db (snd (collectOnce ref_pg (demo_env demo_collect)
        (world_of ((new_thread (newScheduler 10 ''n1'' ''h'' ''u''))\<lparr>th_pc := AtCycle\<rparr>, demo_tables, Global))))"
proof -
  let ?th = "(new_thread (newScheduler 10 ''n1'' ''h'' ''u''))\<lparr>th_pc := AtCycle\<rparr>"
  have c: "th_pc ?th = AtCycle" "th_clean (?th\<lparr>th_clean := AtHourly 5\<rparr>) = AtHourly 5" by simp_all
  from goroutine_steps_refine_code [OF c, THEN conjunct1, of ref_pg "demo_env demo_collect" demo_tables Global]
  show ?thesis by (simp only: thread_after_def fst_conv snd_conv) blast
qed

end
