(* ===== verification/SystemTable.thy ===== *)
theory SystemTable
  imports System
begin

text \<open>
  The sample table of the running service, step by step: what each goroutine does to it, and that a node is
  registered before anything is stored for it, in every interleaving of \<open>System\<close>.
\<close>

section \<open>A node is registered before its samples are stored\<close>

definition sys_rows :: "('db \<Rightarrow> tables) \<Rightarrow> ('db, 'mcp) sys \<Rightarrow> sample_row list" where
  "sys_rows tables s = tb_samples (tables (sv_db (sy_sv s)))"

definition past_registration :: "run_pc \<Rightarrow> bool" where
  "past_registration p \<longleftrightarrow> (case p of AtGather \<Rightarrow> True | AtStore ss le \<Rightarrow> True | AtAccount n \<Rightarrow> True | _ \<Rightarrow> False)"

text \<open>For one goroutine and a set of registered nodes, and for all of them.\<close>

definition node_known :: "string set \<Rightarrow> thread \<Rightarrow> bool" where
  "node_known ids th \<longleftrightarrow> (past_registration (th_pc th) \<longrightarrow> s_nodeID (th_sched th) \<in> ids)"

definition nodes_known :: "('db \<Rightarrow> tables) \<Rightarrow> ('db, 'mcp) sys \<Rightarrow> bool" where
  "nodes_known tables s \<longleftrightarrow> (\<forall>th \<in> set (sy_threads s). node_known (node_ids (tables (sv_db (sy_sv s)))) th)"

text \<open>One goroutine's step: the nodes only grow, and the table changes as described.\<close>

definition cycle_effect :: "('db \<Rightarrow> tables) \<Rightarrow> (int \<Rightarrow> int) \<Rightarrow> thread \<times> 'db \<times> Metrics \<Rightarrow> thread \<times> 'db \<times> Metrics \<Rightarrow> bool" where
  "cycle_effect tables stamp x y \<longleftrightarrow> (case (x, y) of ((th, db, m), (th', db', m')) \<Rightarrow>
     node_ids (tables db) \<subseteq> node_ids (tables db') \<and> (node_known (node_ids (tables db)) th \<longrightarrow> node_known (node_ids (tables db')) th')
     \<and> (tb_samples (tables db') = tb_samples (tables db)
        \<or> (\<exists>ss le. th_pc th = AtStore ss le \<and> ss \<noteq> []
            \<and> tb_samples (tables db') = insert_new (tb_samples (tables db)) (map (row_of stamp) ss)
            \<and> th_pc th' = AtAccount (int (length (tb_samples (tables db'))) - int (length (tb_samples (tables db)))))))"

definition clean_effect :: "('db \<Rightarrow> tables) \<Rightarrow> (int \<Rightarrow> int) \<Rightarrow> int \<Rightarrow> thread \<times> 'db \<times> Metrics \<Rightarrow> thread \<times> 'db \<times> Metrics \<Rightarrow> bool" where
  "clean_effect tables stamp now x y \<longleftrightarrow> (case (x, y) of ((th, db, m), (th', db', m')) \<Rightarrow>
     node_ids (tables db') = node_ids (tables db) \<and> th_sched th' = th_sched th \<and> th_pc th' = th_pc th
     \<and> (tb_samples (tables db') = tb_samples (tables db)
        \<or> (\<exists>d. th_clean th = AtDelete d
            \<and> tb_samples (tables db') = filter (\<lambda>r. stamp (now + wrap64 (- d)) \<le> r_at r) (tb_samples (tables db)))))"

lemma node_ids_upsert_node: "node_ids (t\<lparr>tb_nodes := upsert_node (n, h, u) (tb_nodes t)\<rparr>) = insert n (node_ids t)"
  by (simp add: node_ids_def node_ids_upsert)

context running
begin

lemma cycle_step_effect:
  assumes "pc_ok th"
  shows "cycle_effect tables stamp (th, db, m) (cycle_step pg env (th, db, m))"
proof (cases "th_pc th")
  case AtCycle
  then show ?thesis
    by (auto simp: cycle_step_def cycle_effect_def node_known_def past_registration_def split: prod.split option.split)
next
  case AtRegister
  obtain r db' where u: "UpsertNode pg db (s_nodeID (th_sched th)) (s_hostname (th_sched th)) (s_baseURL (th_sched th)) = (r, db')"
    by fastforce
  with AtRegister UpsertNode_ok [of db _ _ _ db'] UpsertNode_error [of db _ _ _ _ db'] show ?thesis
    by (cases r) (auto simp: cycle_step_def cycle_effect_def node_known_def past_registration_def node_ids_upsert_node)
next
  case AtGather
  then show ?thesis
    by (auto simp: cycle_step_def cycle_effect_def node_known_def past_registration_def split: retry_result.split)
next
  case (AtStore ss le)
  obtain n r db' where i: "InsertSamples pg db ss = ((n, r), db')" by (metis prod.exhaust)
  have l: "int (length ss) < 2 ^ 63" using assms AtStore by (simp add: pc_ok_def)
  show ?thesis
  proof (cases "r = None \<and> ss \<noteq> []")
    case True
    with i InsertSamples_ok [of db ss n db'] l AtStore show ?thesis
      by (simp add: cycle_step_def cycle_effect_def node_known_def past_registration_def add_rows_def count_rows_def node_ids_def)
  next
    case False
    with i InsertSamples_error [of db ss n _ db'] AtStore show ?thesis
      by (cases r) (auto simp: cycle_step_def cycle_effect_def node_known_def past_registration_def)
  qed
qed (auto simp: cycle_step_def cycle_effect_def node_known_def past_registration_def)

lemma clean_step_effect: "clean_effect tables stamp now (th, db, m) (clean_step pg now (th, db, m))"
proof (cases "th_clean th")
  case (AtDelete d)
  obtain n r db' where i: "DeleteOldSamples pg db now d = ((n, r), db')" by (metis prod.exhaust)
  with AtDelete DeleteOldSamples_ok [of db now d n db'] DeleteOldSamples_error [of db now d n _ db'] show ?thesis
    by (cases r) (simp_all add: clean_step_def clean_effect_def node_ids_def not_less)
next
  case (AtHourly d)
  then show ?thesis
    using Aggregate_nodes(1) AggregateHourly_samples by (simp add: clean_step_def clean_effect_def node_ids_def prod_eq_iff)
next
  case (AtDaily d)
  then show ?thesis
    using Aggregate_nodes(2) AggregateDaily_samples by (simp add: clean_step_def clean_effect_def node_ids_def prod_eq_iff)
qed (auto simp: clean_step_def clean_effect_def)

end

section \<open>Every step of the service\<close>

lemma put_back_rows: "sys_rows tables (put_back i (th, db, m) s) = tb_samples (tables db)"
  "i < length (sy_threads s) \<Longrightarrow> sy_threads (put_back i (th, db, m) s) ! i = th"
  by (simp_all add: sys_rows_def put_back_def)

lemma put_back_known:
  assumes "nodes_known tables s" and "i < length (sy_threads s)"
    and "node_ids (tables (sv_db (sy_sv s))) \<subseteq> node_ids (tables db)" and "node_known (node_ids (tables db)) th"
  shows "nodes_known tables (put_back i (th, db, m) s)"
  using assms set_update_subset_insert [of "sy_threads s" i th] by (auto simp: nodes_known_def put_back_def node_known_def)

lemma set_pc_known:
  assumes "nodes_known tables s" and "node_known (node_ids (tables (sv_db (sy_sv s)))) (f (sy_threads s ! i))"
  shows "nodes_known tables (set_pc i f s) \<and> sys_rows tables (set_pc i f s) = sys_rows tables s"
  using assms set_update_subset_insert [of "sy_threads s" i "f (sy_threads s ! i)"]
  by (auto simp: nodes_known_def set_pc_def sys_rows_def)

text \<open>A reload leaves the node ids of the schedulers.\<close>

lemma sighup_nodes: "sighup loaded (cfg, ss) = (cfg', ss') \<Longrightarrow> map s_nodeID ss' = map s_nodeID ss"
  by (cases loaded; cases "snd loaded") (auto simp: sighup_def set_retention_def split: if_splits)

lemma reload_known:
  assumes "nodes_known tables s" and "sighup loaded (sy_cfg s, map th_sched (sy_threads s)) = (cfg', ss)"
    and "t = s\<lparr>sy_cfg := cfg', sy_threads := map (\<lambda>(th, sc). th\<lparr>th_sched := sc\<rparr>) (zip (sy_threads s) ss)\<rparr>"
  shows "nodes_known tables t \<and> sys_rows tables t = sys_rows tables s"
proof -
  have l: "length ss = length (sy_threads s)" using sighup_length [OF assms(2)] by simp
  have n: "s_nodeID (ss ! j) = s_nodeID (th_sched (sy_threads s ! j))" if "j < length (sy_threads s)" for j
    using arg_cong [OF sighup_nodes [OF assms(2)], of "\<lambda>xs. xs ! j"] that l by simp
  have "node_known ids (th\<lparr>th_sched := sc\<rparr>)" if "(th, sc) \<in> set (zip (sy_threads s) ss)" "node_known ids th" for th sc ids
    using that n by (auto simp: in_set_zip node_known_def)
  then show ?thesis
    using assms(1) set_zip_leftD by (auto simp: assms(3) nodes_known_def sys_rows_def) fast
qed

text \<open>What a step may do to the rows.\<close>

definition row_change :: "('db, 'tx) pg \<Rightarrow> ('db \<Rightarrow> tables) \<Rightarrow> (int \<Rightarrow> int) \<Rightarrow> actor \<Rightarrow> ('db, 'mcp) sys \<Rightarrow> ('db, 'mcp) sys \<Rightarrow> bool" where
  "row_change pg tables stamp a s t \<longleftrightarrow>
     sys_rows tables t = sys_rows tables s
   \<or> (\<exists>i ss le. a = Scheduling i \<and> i < length (sy_threads s) \<and> th_pc (sy_threads s ! i) = AtStore ss le \<and> ss \<noteq> []
        \<and> s_nodeID (th_sched (sy_threads s ! i)) \<in> node_ids (tables (sv_db (sy_sv s)))
        \<and> sys_rows tables t = insert_new (sys_rows tables s) (map (row_of stamp) ss)
        \<and> th_pc (sy_threads t ! i) = AtAccount (int (length (sys_rows tables t)) - int (length (sys_rows tables s))))
   \<or> (\<exists>i d now. a = Cleaning i \<and> i < length (sy_threads s) \<and> th_clean (sy_threads s ! i) = AtDelete d
        \<and> t = put_back i (clean_step pg now (take_out i s)) s
        \<and> sys_rows tables t = filter (\<lambda>r. stamp (now + wrap64 (- d)) \<le> r_at r) (sys_rows tables s))
   \<or> (a = Serving \<and> (\<exists>rows. sys_rows tables t = insert_new (sys_rows tables s) rows))"

context running
begin

lemma sys_step_rows:
  assumes "sys_step pg h a s t" and "sys_ok tables s" and "nodes_known tables s"
  shows "nodes_known tables t \<and> row_change pg tables stamp a s t"
proof -
  let ?ids = "node_ids (tables (sv_db (sy_sv s)))"
  have quiet: ?thesis if "nodes_known tables t \<and> sys_rows tables t = sys_rows tables s" using that by (simp add: row_change_def)
  have known: "node_known ?ids (sy_threads s ! i)" if "i < length (sy_threads s)" for i
    using assms(3) that by (simp add: nodes_known_def)
  have ok: "pc_ok (sy_threads s ! i)" if "i < length (sy_threads s)" for i using assms(2) that by (simp add: sys_ok_def)
  show ?thesis using assms(1)
  proof cases
    case (run_cycle i env)
    note i = run_cycle(4)
    obtain th' db' m' where x: "cycle_step pg env (take_out i s) = (th', db', m')" by (metis prod.exhaust)
    note e = cycle_step_effect [OF ok [OF i], of "sv_db (sy_sv s)" "sv_metrics (sy_sv s)" env, folded take_out_def, unfolded x]
    then have "?ids \<subseteq> node_ids (tables db')" "node_known (node_ids (tables db')) th'"
      using known [OF i] by (simp_all add: cycle_effect_def take_out_def)
    then have "nodes_known tables t" using put_back_known [OF assms(3) i] run_cycle(2) x by simp
    moreover have "row_change pg tables stamp a s t"
      using e known [OF i] run_cycle(1,2) i x
      by (auto simp: cycle_effect_def take_out_def row_change_def put_back_rows node_known_def past_registration_def)
        (simp_all add: sys_rows_def)
    ultimately show ?thesis by blast
  next
    case (clean_up i now)
    note i = clean_up(4)
    obtain th' db' m' where x: "clean_step pg now (take_out i s) = (th', db', m')" by (metis prod.exhaust)
    note e = clean_step_effect [of now "sy_threads s ! i" "sv_db (sy_sv s)" "sv_metrics (sy_sv s)", folded take_out_def, unfolded x]
    then have "?ids \<subseteq> node_ids (tables db')" "node_known (node_ids (tables db')) th'"
      using known [OF i] by (simp_all add: clean_effect_def take_out_def node_known_def)
    then have "nodes_known tables t" using put_back_known [OF assms(3) i] clean_up(2) x by simp
    moreover have "row_change pg tables stamp a s t"
    proof -
      from e have "tb_samples (tables db') = sys_rows tables s \<or> (\<exists>d. th_clean (sy_threads s ! i) = AtDelete d
          \<and> tb_samples (tables db') = filter (\<lambda>r. stamp (now + wrap64 (- d)) \<le> r_at r) (sys_rows tables s))"
        by (simp add: clean_effect_def take_out_def sys_rows_def)
      moreover have "sys_rows tables t = tb_samples (tables db')" by (simp add: clean_up(2) x put_back_rows)
      ultimately show ?thesis using clean_up(1,2) i unfolding row_change_def by metis
    qed
    ultimately show ?thesis by blast
  next
    case (serve now r rep sv')
    obtain rows where "tables (sv_db sv') = add_rows rows (tables (sv_db (sy_sv s)))" using keeps_rows [OF serve(4)] by blast
    with serve(1,2) assms(3) show ?thesis by (auto simp: row_change_def sys_rows_def nodes_known_def add_rows_def node_ids_def)
  next
    case (reload loaded cfg' ss)
    from reload_known [OF assms(3) reload(4,2)] show ?thesis by (rule quiet)
  next
    case (run_launch i)
    show ?thesis unfolding run_launch(2) 
      by (rule quiet [unfolded run_launch(2)], rule set_pc_known [OF assms(3)]) (simp add: node_known_def past_registration_def)
  next
    case (run_ticker i)
    show ?thesis unfolding run_ticker(2)
      by (rule quiet [unfolded run_ticker(2)], rule set_pc_known [OF assms(3)])
        (use known [OF run_ticker(4)] in \<open>simp add: node_known_def\<close>)
  next
    case (run_tick i)
    show ?thesis unfolding run_tick(2)
      by (rule quiet [unfolded run_tick(2)], rule set_pc_known [OF assms(3)]) (simp add: node_known_def past_registration_def)
  next
    case (run_done i)
    show ?thesis unfolding run_done(2)
      by (rule quiet [unfolded run_done(2)], rule set_pc_known [OF assms(3)]) (simp add: node_known_def past_registration_def)
  next
    case (clean_tick i d)
    show ?thesis unfolding clean_tick(2)
      by (rule quiet [unfolded clean_tick(2)], rule set_pc_known [OF assms(3)])
        (use known [OF clean_tick(4)] in \<open>simp add: node_known_def\<close>)
  next
    case (clean_done i d)
    show ?thesis unfolding clean_done(2)
      by (rule quiet [unfolded clean_done(2)], rule set_pc_known [OF assms(3)])
        (use known [OF clean_done(4)] in \<open>simp add: node_known_def\<close>)
  qed (use assms(3) in \<open>auto simp: nodes_known_def sys_rows_def row_change_def\<close>)
qed

lemma sys_run_known:
  "sys_run pg h tables s n t \<Longrightarrow> sys_ok tables s \<Longrightarrow> nodes_known tables s \<Longrightarrow> sys_ok tables t \<and> nodes_known tables t"
proof (induction rule: sys_run.induct)
  case (run_step n t a u)
  then show ?case using sys_step_keeps [OF run_step.hyps(2)] sys_step_rows [OF run_step.hyps(2)] by blast
qed simp

end

context service_host
begin

lemma mux_step_rows:
  assumes "sys_run pg (service_mux cfg trust version pg ping snappy sse) tables s0 n s" and "sys_ok tables s0" and "nodes_known tables s0"
    and "sys_step pg (service_mux cfg trust version pg ping snappy sse) a s t"
  shows "nodes_known tables t \<and> row_change pg tables stamp a s t"
  using sys_step_rows [OF assms(4)] sys_run_known [OF assms(1-3)] by blast

end

text \<open>C7. What the running service does to its sample table, step by step, in every interleaving of its goroutines with
  requests, reloads and the shutdown, whatever fails. A scheduler changes it in one way: its cycle, past the
  registration of its node, adds all the samples it has collected, except those whose key is present, and
  then owes the counter exactly the rows added. A clean-up changes it in one way: it deletes what is older
  than its own period at the time it runs. A request at most adds rows. Nothing else changes it; and every
  cycle past its registration, whatever the others do meanwhile, has its node in the node table.\<close>

theorem service_table_changes:
  assumes "service_host pg tables tx_tables base stamp sse" and "store_ok (tables db)"
    and "sys_run pg (service_mux cfg trust version pg ping snappy sse) tables (launch cfg limiter mcp scs db) n s"
    and "sys_step pg (service_mux cfg trust version pg ping snappy sse) a s t"
  shows "(\<forall>th \<in> set (sy_threads t). past_registration (th_pc th) \<longrightarrow>
        s_nodeID (th_sched th) \<in> node_ids (tables (sv_db (sy_sv t))))
    \<and> (sys_rows tables t = sys_rows tables s
      \<or> (\<exists>i ss le. a = Scheduling i \<and> i < length (sy_threads s) \<and> th_pc (sy_threads s ! i) = AtStore ss le \<and> ss \<noteq> []
          \<and> s_nodeID (th_sched (sy_threads s ! i)) \<in> node_ids (tables (sv_db (sy_sv s)))
          \<and> sys_rows tables t = insert_new (sys_rows tables s) (map (row_of stamp) ss)
          \<and> th_pc (sy_threads t ! i) = AtAccount (int (length (sys_rows tables t)) - int (length (sys_rows tables s))))
      \<or> (\<exists>i d now. a = Cleaning i \<and> i < length (sy_threads s) \<and> th_clean (sy_threads s ! i) = AtDelete d
          \<and> t = put_back i (clean_step pg now (take_out i s)) s
          \<and> sys_rows tables t = filter (\<lambda>r. stamp (now + wrap64 (- d)) \<le> r_at r) (sys_rows tables s))
      \<or> (a = Serving \<and> (\<exists>rows. sys_rows tables t = insert_new (sys_rows tables s) rows)))"
proof -
  have "nodes_known tables (launch cfg limiter mcp scs db)"
    by (auto simp: nodes_known_def launch_def new_thread_def node_known_def past_registration_def)
  from service_host.mux_step_rows [OF assms(1,3) launch_ok [where tables = tables, OF assms(2)] this assms(4)]
  show ?thesis unfolding nodes_known_def node_known_def row_change_def by blast
qed

text \<open>A scheduler is launched, registers its node, collects a sample and stores it.\<close>

lemma cycle_step_run:
  assumes "sys_run pg h tables s0 n (put_back i (th, db, m) s)" and "alive s" and "i < length (sy_threads s)"
    and "in_cycle (th_pc th)" and "event_ok (Tick env)"
  shows "sys_step pg h (Scheduling i) (put_back i (th, db, m) s) (put_back i (cycle_step pg env (th, db, m)) s)"
    and "sys_run pg h tables s0 n (put_back i (cycle_step pg env (th, db, m)) s)"
proof -
  let ?t = "put_back i (th, db, m) s"
  have "sys_step pg h (Scheduling i) ?t (put_back i (cycle_step pg env (take_out i ?t)) ?t)"
    by (rule sys_step.run_cycle) (use assms(2-5) in \<open>simp_all add: put_back_frame\<close>)
  then show 1: "sys_step pg h (Scheduling i) ?t (put_back i (cycle_step pg env (th, db, m)) s)"
    by (simp add: put_take(1) [OF assms(3)] put_take(2))
  from run_step [OF assms(1) this] show "sys_run pg h tables s0 n (put_back i (cycle_step pg env (th, db, m)) s)" by simp
qed

theorem service_table_changes_witness:
  "\<exists>s t. sys_run ref_pg demo_mux id demo_sys 0 s \<and> sys_step ref_pg demo_mux (Scheduling 0) s t
    \<and> sys_rows id s = [] \<and> sys_rows id t = [row_of micro (demo_sample 9000)]
    \<and> (\<forall>th \<in> set (sy_threads t). past_registration (th_pc th) \<longrightarrow> s_nodeID (th_sched th) \<in> node_ids (sv_db (sy_sv t)))"
proof -
  let ?env = "demo_env (\<lambda>_. Inr [demo_sample 9000])"
  let ?sc = "newScheduler 10 ''n1'' ''h'' ''u''"
  let ?th = "\<lambda>p. (new_thread ?sc)\<lparr>th_pc := p, th_clean := Spawned\<rparr>"
  have e: "event_ok (Tick ?env)" by (simp add: event_ok_def demo_env_def)
  have a: "alive demo_sys" "0 < length (sy_threads demo_sys)" by (simp_all add: demo_sys_fields)
  have "th_pc (sy_threads demo_sys ! 0) = AtLaunch" by (simp add: demo_sys_fields new_thread_def)
  from run_step [OF run_refl sys_step.run_launch [OF a this, of ref_pg demo_mux], of id]
  have 0: "sys_run ref_pg demo_mux id demo_sys 0 (put_back 0 (?th AtCycle, demo_tables, sv_metrics (sy_sv demo_sys)) demo_sys)"
    by (simp add: set_pc_def put_back_def demo_sys_fields new_thread_def newScheduler_def demo_sys_def launch_def)
  let ?m = "sv_metrics (sy_sv demo_sys)"
  have c1: "cycle_step ref_pg ?env (?th AtCycle, demo_tables, ?m) = (?th AtRegister, demo_tables, ?m)"
    by (simp add: cycle_step_def new_thread_def Allow_def currentState_def scheduler_breaker_def newBreaker_def)
  obtain db where u: "UpsertNode ref_pg demo_tables ''n1'' ''h'' ''u'' = (None, db)" and db: "db = demo_tables"
    by (simp add: UpsertNode_def ref_pg_def ref_exec_def demo_tables_def upsert_node_def)
  have c2: "cycle_step ref_pg ?env (?th AtRegister, demo_tables, ?m) = (?th AtGather, demo_tables, ?m)"
    using u by (simp add: cycle_step_def new_thread_def newScheduler_def db)
  have c3: "cycle_step ref_pg ?env (?th AtGather, demo_tables, ?m) = (?th (AtStore [demo_sample 9000] None), demo_tables, ?m)"
    by (simp add: cycle_step_def new_thread_def demo_env_def)
  obtain k where i: "InsertSamples ref_pg demo_tables [demo_sample 9000] = ((k, None), add_rows (map (row_of micro) [demo_sample 9000]) demo_tables)"
    by (simp add: InsertSamples_ref demo_tables_def demo_sample_def node_ids_def)
  note s1 = cycle_step_run(2) [OF 0 a _ e, unfolded c1]
  have r1: "sys_run ref_pg demo_mux id demo_sys 0 (put_back 0 (?th AtRegister, demo_tables, ?m) demo_sys)"
    by (rule s1) (simp add: in_cycle_def)
  have r2: "sys_run ref_pg demo_mux id demo_sys 0 (put_back 0 (?th AtGather, demo_tables, ?m) demo_sys)"
    using cycle_step_run(2) [OF r1 a _ e] c2 by (simp add: in_cycle_def)
  have r3: "sys_run ref_pg demo_mux id demo_sys 0 (put_back 0 (?th (AtStore [demo_sample 9000] None), demo_tables, ?m) demo_sys)"
    using cycle_step_run(2) [OF r2 a _ e] c3 by (simp add: in_cycle_def)
  let ?s = "put_back 0 (?th (AtStore [demo_sample 9000] None), demo_tables, ?m) demo_sys"
  let ?x = "cycle_step ref_pg ?env (?th (AtStore [demo_sample 9000] None), demo_tables, ?m)"
  have st: "sys_step ref_pg demo_mux (Scheduling 0) ?s (put_back 0 ?x demo_sys)"
    using cycle_step_run(1) [OF r3 a _ e] by (simp add: in_cycle_def)
  have "fst (snd ?x) = add_rows (map (row_of micro) [demo_sample 9000]) demo_tables" using i by (simp add: cycle_step_def)
  then have "sys_rows id (put_back 0 ?x demo_sys) = [row_of micro (demo_sample 9000)]"
    by (cases ?x) (simp add: put_back_rows add_rows_def demo_tables_def)
  moreover have "sys_rows id ?s = []" by (simp add: put_back_rows demo_tables_def)
  ultimately show ?thesis
    using service_table_changes [OF ref_host.service_host_axioms demo_store_ok r3 [unfolded demo_sys_def] st [unfolded demo_sys_def]] r3 st
    by (intro exI [of _ ?s] exI [of _ "put_back 0 ?x demo_sys"]) (simp add: demo_sys_def)
qed

end
