(* ===== verification/SystemRace.thy ===== *)
theory SystemRace
  imports System
begin

text \<open>
  A reload between the launch of a clean-up goroutine and its first read of the setting, and the same reload
  at the two other moments: the outcomes of the unsynchronised \<open>retentionDays\<close> of
  \<open>internal/scheduler/scheduler.go\<close>, which \<open>SetRetentionDays\<close> writes, \<open>Run\<close> reads once to decide whether to start the
  clean-ups, and \<open>retentionLoop\<close> reads once more for their period.
\<close>

section \<open>Reloads that switch retention off\<close>

text \<open>The state a \<open>SIGHUP\<close> makes when the new file says 0 days and nothing else stands in its way.\<close>

definition switched_off :: "Config \<Rightarrow> ('db, 'mcp) sys \<Rightarrow> ('db, 'mcp) sys" where
  "switched_off cfg' s = s\<lparr>sy_cfg := cfg', sy_threads := map (\<lambda>th. th\<lparr>th_sched := set_retention 0 (th_sched th)\<rparr>) (sy_threads s)\<rparr>"

lemma switched_off_sighup:
  assumes "RetentionDays (sy_cfg s) \<noteq> 0" and "RetentionDays cfg' = 0"
  shows "sighup (cfg', None) (sy_cfg s, map th_sched (sy_threads s)) = (cfg', map (set_retention 0) (map th_sched (sy_threads s)))"
    and "s\<lparr>sy_cfg := cfg', sy_threads := map (\<lambda>(th, sc). th\<lparr>th_sched := sc\<rparr>)
        (zip (sy_threads s) (map (set_retention 0) (map th_sched (sy_threads s))))\<rparr> = switched_off cfg' s"
  using assms by (simp_all add: sighup_def switched_off_def zip_map2 zip_same_conv_map)

lemma switched_off_step:
  assumes "alive s" and "RetentionDays (sy_cfg s) \<noteq> 0" and "RetentionDays cfg' = 0"
  shows "sys_step pg h Reloading s (switched_off cfg' s)"
  using sys_step.reload [OF assms(1) switched_off_sighup(1) [OF assms(2,3)]]
  by (simp only: switched_off_sighup(2) [OF assms(2,3)])

lemma switched_off_thread:
  "i < length (sy_threads s) \<Longrightarrow> sy_threads (switched_off cfg' s) ! i
    = (sy_threads s ! i)\<lparr>th_sched := set_retention 0 (th_sched (sy_threads s ! i))\<rparr>"
  "length (sy_threads (switched_off cfg' s)) = length (sy_threads s)"
  "alive (switched_off cfg' s) = alive s" "sy_cfg (switched_off cfg' s) = cfg'" "sy_sv (switched_off cfg' s) = sy_sv s"
  by (simp_all add: switched_off_def alive_def)

text \<open>The launch of a scheduler, and the read of its clean-up goroutine.\<close>

definition launched :: "nat \<Rightarrow> ('db, 'mcp) sys \<Rightarrow> ('db, 'mcp) sys" where
  "launched i s = set_pc i (\<lambda>th. th\<lparr>th_pc := AtCycle,
     th_clean := (if s_retentionDays (th_sched th) > 0 then Spawned else NoClean)\<rparr>) s"

definition retention_read :: "nat \<Rightarrow> ('db, 'mcp) sys \<Rightarrow> ('db, 'mcp) sys" where
  "retention_read i s = set_pc i (\<lambda>th. th\<lparr>th_clean := AtHourly (retention_period (s_retentionDays (th_sched th)))\<rparr>) s"

lemma launched_step:
  assumes "alive s" and "i < length (sy_threads s)" and "th_pc (sy_threads s ! i) = AtLaunch"
  shows "sys_step pg h (Scheduling i) s (launched i s)"
  unfolding launched_def by (rule sys_step.run_launch [OF assms])

lemma set_pc_frame:
  "i < length (sy_threads s) \<Longrightarrow> sy_threads (set_pc i f s) ! i = f (sy_threads s ! i)"
  "length (sy_threads (set_pc i f s)) = length (sy_threads s)"
  "alive (set_pc i f s) = alive s" "sy_cfg (set_pc i f s) = sy_cfg s" "sy_sv (set_pc i f s) = sy_sv s"
  by (simp_all add: set_pc_def alive_def)

lemmas launched_frame = set_pc_frame [where f = "\<lambda>th. th\<lparr>th_pc := AtCycle,
     th_clean := (if s_retentionDays (th_sched th) > 0 then Spawned else NoClean)\<rparr>", folded launched_def]

lemmas read_frame = set_pc_frame [where f =
     "\<lambda>th. th\<lparr>th_clean := AtHourly (retention_period (s_retentionDays (th_sched th)))\<rparr>", folded retention_read_def]

lemma read_step:
  assumes "alive s" and "i < length (sy_threads s)" and "th_clean (sy_threads s ! i) = Spawned"
  shows "sys_step pg h (Cleaning i) s (retention_read i s)"
proof -
  have "sys_step pg h (Cleaning i) s (put_back i (clean_step pg now (take_out i s)) s)" for now
    by (rule sys_step.clean_up) (use assms in \<open>simp_all add: in_clean_up_def\<close>)
  moreover have "put_back i (clean_step pg now (take_out i s)) s = retention_read i s" for now
    using assms by (simp add: clean_step_def take_out_def put_back_def retention_read_def set_pc_def)
  ultimately show ?thesis by metis
qed

section \<open>The clean-up that follows\<close>

definition three_clean_steps :: "('db, 'tx) pg \<Rightarrow> int \<Rightarrow> int \<Rightarrow> int \<Rightarrow> nat \<Rightarrow> ('db, 'mcp) sys \<Rightarrow> ('db, 'mcp) sys" where
  "three_clean_steps pg t1 t2 t3 i s = put_back i (clean_step pg t3 (clean_step pg t2 (clean_step pg t1 (take_out i s)))) s"

text \<open>The third of the three steps has sent the delete statement: the rows are those \<open>runRetention\<close> leaves.\<close>

lemma three_clean_steps_db:
  assumes "th_clean th = AtHourly d"
  shows "fst (snd (clean_step pg t3 (clean_step pg t2 (clean_step pg t1 (th, db, m)))))
    = w_db (runRetention pg t1 t2 t3 d (world_of (th, db, m)))"
proof -
  let ?x = "clean_step pg t3 (clean_step pg t2 (clean_step pg t1 (th, db, m)))"
  have c: "\<exists>th' m'. ?x = (th', fst (snd ?x), m') \<and> (\<exists>k. th_clean th' = AtWait d \<or> th_clean th' = AtCount d k)"
    using assms by (auto simp: clean_step_def split: prod.split option.split)
  then obtain th' m' k where x: "?x = (th', fst (snd ?x), m')" "th_clean th' = AtWait d \<or> th_clean th' = AtCount d k" by blast
  then have "fst (snd (clean_step pg 0 ?x)) = fst (snd ?x)" by (cases ?x) (auto simp: clean_step_def)
  with clean_alone [OF assms, of pg 0 t3 t2 t1 db m] show ?thesis by simp
qed

lemma three_clean_steps_run:
  assumes "sys_run pg h tables s0 n s" and "alive s" and "i < length (sy_threads s)" and "th_clean (sy_threads s ! i) = AtHourly d"
  shows "sys_run pg h tables s0 n (three_clean_steps pg t1 t2 t3 i s)"
proof -
  obtain th db m where x: "take_out i s = (th, db, m)" by (metis prod.exhaust)
  have th: "th_clean th = AtHourly d" using x assms(4) by (auto simp: take_out_def)
  note a = assms(2,3)
  have 0: "sys_run pg h tables s0 n (put_back i (th, db, m) s)" using assms(1) put_back_self [of i s] x by simp
  obtain db1 where 1: "clean_step pg t1 (th, db, m) = (th\<lparr>th_clean := AtDaily d\<rparr>, db1, m)" using th by (simp add: clean_step_def)
  obtain db2 where 2: "clean_step pg t2 (th\<lparr>th_clean := AtDaily d\<rparr>, db1, m) = (th\<lparr>th_clean := AtDelete d\<rparr>, db2, m)"
    by (simp add: clean_step_def)
  have r1: "sys_run pg h tables s0 n (put_back i (th\<lparr>th_clean := AtDaily d\<rparr>, db1, m) s)"
    using clean_step_run [OF 0 a, where now = t1] th by (simp add: 1 in_clean_up_def)
  have r2: "sys_run pg h tables s0 n (put_back i (th\<lparr>th_clean := AtDelete d\<rparr>, db2, m) s)"
    using clean_step_run [OF r1 a, where now = t2] by (simp add: 2 in_clean_up_def)
  show ?thesis
    using clean_step_run [OF r2 a, where now = t3] by (simp add: three_clean_steps_def x 1 2 in_clean_up_def)
qed

lemma three_clean_steps_rows:
  assumes "rollup_db pg tables tx_tables base stamp" and "i < length (sy_threads s)" and "th_clean (sy_threads s ! i) = AtHourly d"
    and "delete_accepted pg tables t3 d (tb_samples (tables (sv_db (sy_sv s))))"
  shows "tb_samples (tables (sv_db (sy_sv (three_clean_steps pg t1 t2 t3 i s))))
    = filter (\<lambda>r. stamp (t3 + wrap64 (- d)) \<le> r_at r) (tb_samples (tables (sv_db (sy_sv s))))"
proof -
  obtain th db m where x: "take_out i s = (th, db, m)" by (metis prod.exhaust)
  have th: "th_clean th = AtHourly d" "db = sv_db (sy_sv s)" using x assms(3) by (auto simp: take_out_def)
  let ?x = "clean_step pg t3 (clean_step pg t2 (clean_step pg t1 (th, db, m)))"
  have "sv_db (sy_sv (three_clean_steps pg t1 t2 t3 i s)) = fst (snd ?x)"
    by (cases ?x) (simp add: three_clean_steps_def x put_back_def)
  also have "\<dots> = w_db (runRetention pg t1 t2 t3 d (world_of (th, db, m)))" by (rule three_clean_steps_db [OF th(1)])
  finally show ?thesis
    using runRetention_cases(1) [OF assms(1) refl, of t3 d "world_of (th, db, m)" t1 t2] assms(4) th(2)
    by (simp add: world_of_def)
qed

section \<open>The race\<close>

text \<open>C37. Switching retention off while a scheduler starts can delete everything, and whether it does is decided by
  when the reload arrives. Take a configured retention, a scheduler about to be launched with a positive one, and a
  \<open>SIGHUP\<close> whose file says 0 days ("disabled"). Between the launch and the moment the new clean-up goroutine reads
  the setting, the goroutine takes the period 0: its clean-up, at whatever clock readings, sends a delete statement
  whose cut-off is the moment it runs, and if the database accepts it every sample older than that moment
  is gone. Before the launch the same reload starts no clean-up at all; after the read it changes nothing: the
  clean-up keeps the period of the setting it was launched with.\<close>

theorem reload_race_deletes_all:
  fixes cfg' :: Config
  assumes "rollup_db pg tables tx_tables base stamp" and "alive s" and "i < length (sy_threads s)"
    and "th_pc (sy_threads s ! i) = AtLaunch" and "days = s_retentionDays (th_sched (sy_threads s ! i))" and "days > 0"
    and "RetentionDays (sy_cfg s) \<noteq> 0" and "RetentionDays cfg' = 0"
  shows "(\<exists>s1 s2 s3. sys_step pg h (Scheduling i) s s1 \<and> sys_step pg h Reloading s1 s2 \<and> sys_step pg h (Cleaning i) s2 s3
        \<and> sy_cfg s2 = cfg' \<and> s_retentionDays (th_sched (sy_threads s2 ! i)) = 0 \<and> th_clean (sy_threads s3 ! i) = AtHourly 0
        \<and> (\<forall>t1 t2 t3. let t = put_back i (clean_step pg t3 (clean_step pg t2 (clean_step pg t1 (take_out i s3)))) s3 in
            sys_run pg h tables s 0 t
            \<and> (delete_accepted pg tables t3 0 (tb_samples (tables (sv_db (sy_sv s)))) \<longrightarrow>
                tb_samples (tables (sv_db (sy_sv t)))
                  = filter (\<lambda>r. stamp t3 \<le> r_at r) (tb_samples (tables (sv_db (sy_sv s)))))))
    \<and> (\<exists>s1 s2. sys_step pg h Reloading s s1 \<and> sys_step pg h (Scheduling i) s1 s2
        \<and> sy_cfg s1 = cfg' \<and> th_pc (sy_threads s2 ! i) = AtCycle \<and> th_clean (sy_threads s2 ! i) = NoClean)
    \<and> (\<exists>s1 s2 s3. sys_step pg h (Scheduling i) s s1 \<and> sys_step pg h (Cleaning i) s1 s2 \<and> sys_step pg h Reloading s2 s3
        \<and> sy_cfg s3 = cfg' \<and> th_clean (sy_threads s3 ! i) = AtHourly (retention_period days))"
proof (intro conjI)
  note i = assms(2,3)
  let ?l = "launched i s" and ?o = "switched_off cfg' (launched i s)"
  let ?s3 = "retention_read i ?o"
  have l: "alive ?l" "i < length (sy_threads ?l)" "th_clean (sy_threads ?l ! i) = Spawned"
    "s_retentionDays (th_sched (sy_threads ?l ! i)) = days" "RetentionDays (sy_cfg ?l) \<noteq> 0" "sy_sv ?l = sy_sv s"
    using assms(2,3,5-7) by (simp_all add: launched_frame)
  have o: "alive ?o" "i < length (sy_threads ?o)" "th_clean (sy_threads ?o ! i) = Spawned"
    "s_retentionDays (th_sched (sy_threads ?o ! i)) = 0" "sy_cfg ?o = cfg'" "sy_sv ?o = sy_sv s"
    using l by (simp_all add: switched_off_thread set_retention_def)
  have s3: "alive ?s3" "i < length (sy_threads ?s3)" "th_clean (sy_threads ?s3 ! i) = AtHourly 0" "sy_sv ?s3 = sy_sv s"
    using o by (simp_all add: read_frame retention_period_def wrap64_def)
  have st: "sys_step pg h (Scheduling i) s ?l" "sys_step pg h Reloading ?l ?o" "sys_step pg h (Cleaning i) ?o ?s3"
    by (rule launched_step [OF i assms(4)], rule switched_off_step [OF l(1,5) assms(8)], rule read_step [OF o(1-3)])
  have run: "sys_run pg h tables s 0 ?s3"
    using run_step [OF run_step [OF run_step [OF run_refl st(1)] st(2)] st(3)] by simp
  note rows = three_clean_steps_rows [OF assms(1) s3(2,3), unfolded three_clean_steps_def s3(4)]
  show "\<exists>s1 s2 s3. sys_step pg h (Scheduling i) s s1 \<and> sys_step pg h Reloading s1 s2 \<and> sys_step pg h (Cleaning i) s2 s3
      \<and> sy_cfg s2 = cfg' \<and> s_retentionDays (th_sched (sy_threads s2 ! i)) = 0 \<and> th_clean (sy_threads s3 ! i) = AtHourly 0
      \<and> (\<forall>t1 t2 t3. let t = put_back i (clean_step pg t3 (clean_step pg t2 (clean_step pg t1 (take_out i s3)))) s3 in
          sys_run pg h tables s 0 t
          \<and> (delete_accepted pg tables t3 0 (tb_samples (tables (sv_db (sy_sv s)))) \<longrightarrow>
              tb_samples (tables (sv_db (sy_sv t)))
                = filter (\<lambda>r. stamp t3 \<le> r_at r) (tb_samples (tables (sv_db (sy_sv s))))))"
    by (rule exI [of _ ?l], rule exI [of _ ?o], rule exI [of _ ?s3])
      (use st o(4,5) s3(3) rows three_clean_steps_run [OF run s3(1-3), unfolded three_clean_steps_def] in
        \<open>simp add: Let_def wrap64_def\<close>)
  let ?b = "switched_off cfg' s"
  have b: "alive ?b" "i < length (sy_threads ?b)" "th_pc (sy_threads ?b ! i) = AtLaunch"
    using assms(2-4) by (simp_all add: switched_off_thread)
  show "\<exists>s1 s2. sys_step pg h Reloading s s1 \<and> sys_step pg h (Scheduling i) s1 s2
      \<and> sy_cfg s1 = cfg' \<and> th_pc (sy_threads s2 ! i) = AtCycle \<and> th_clean (sy_threads s2 ! i) = NoClean"
    by (rule exI [of _ ?b], rule exI [of _ "launched i ?b"])
      (use switched_off_step [OF assms(2,7,8), of pg h] launched_step [OF b, of pg h] assms(3) b(2) in
        \<open>simp add: switched_off_thread launched_frame set_retention_def\<close>)
  let ?r = "retention_read i ?l"
  have r: "alive ?r" "i < length (sy_threads ?r)" "RetentionDays (sy_cfg ?r) \<noteq> 0"
    "th_clean (sy_threads ?r ! i) = AtHourly (retention_period days)"
    using l by (simp_all add: read_frame)
  show "\<exists>s1 s2 s3. sys_step pg h (Scheduling i) s s1 \<and> sys_step pg h (Cleaning i) s1 s2 \<and> sys_step pg h Reloading s2 s3
      \<and> sy_cfg s3 = cfg' \<and> th_clean (sy_threads s3 ! i) = AtHourly (retention_period days)"
    by (rule exI [of _ ?l], rule exI [of _ ?r], rule exI [of _ "switched_off cfg' ?r"])
      (use st(1) read_step [OF l(1-3), of pg h] switched_off_step [OF r(1,3) assms(8), of pg h] r(2,4) in
        \<open>simp add: switched_off_thread\<close>)
qed

text \<open>A stored sample of second 9, a clean-up at second 10.\<close>

theorem reload_race_deletes_all_witness:
  "\<exists>t. sys_run ref_pg demo_mux id (demo_sys\<lparr>sy_sv := (sy_sv demo_sys)\<lparr>sv_db :=
        add_rows (map (row_of micro) [demo_sample 9000]) demo_tables\<rparr>\<rparr>) 0 t \<and> tb_samples (sv_db (sy_sv t)) = []"
proof -
  let ?s = "demo_sys\<lparr>sy_sv := (sy_sv demo_sys)\<lparr>sv_db := add_rows (map (row_of micro) [demo_sample 9000]) demo_tables\<rparr>\<rparr>"
  have i: "0 < length (sy_threads ?s)" "th_pc (sy_threads ?s ! 0) = AtLaunch" "s_retentionDays (th_sched (sy_threads ?s ! 0)) > 0"
    "alive ?s" "RetentionDays (sy_cfg ?s) \<noteq> 0" "RetentionDays (Defaults\<lparr>RetentionDays := 0\<rparr>) = 0"
    by (simp_all add: demo_sys_fields new_thread_def newScheduler_def alive_def Defaults_def)
  obtain t where t: "sys_run ref_pg demo_mux id ?s 0 t"
    "tb_samples (id (sv_db (sy_sv t))) = filter (\<lambda>r. micro 10000 \<le> r_at r) (tb_samples (id (sv_db (sy_sv ?s))))"
    using conjunct1 [OF reload_race_deletes_all [OF ref_rollup.rollup_db_axioms i(4,1,2) refl i(3,5,6), of demo_mux]] ref_delete_accepted
    unfolding Let_def by blast
  have "tb_samples (sv_db (sy_sv ?s)) = [row_of micro (demo_sample 9000)]"
    by (simp add: add_rows_def demo_tables_def)
  with t show ?thesis by (auto simp: row_of_def micro_def demo_sample_def)
qed

end
