(* ===== verification/Tracing.thy ===== *)
theory Tracing
  imports Service
begin

text \<open>
  \<open>internal/tracing\<close>: the log handler that adds the ids of the active span to every record, and the set-up
  of the tracer provider. The handler underneath is any \<open>slog.Handler\<close>, with the laws of its
  documentation; OpenTelemetry is a parameter.
\<close>

section \<open>Log handlers\<close>

type_synonym attr = "string \<times> string"

record log_record =
  lr_level :: int
  lr_message :: string
  lr_attrs :: "attr list"

text \<open>The methods of a \<open>slog.Handler\<close> on handlers \<open>'h\<close>, contexts \<open>'ctx\<close> and what writing a record gives.\<close>

record ('h, 'ctx, 'out) slog_handler =
  hd_Enabled :: "'h \<Rightarrow> 'ctx \<Rightarrow> int \<Rightarrow> bool"
  hd_Handle :: "'h \<Rightarrow> 'ctx \<Rightarrow> log_record \<Rightarrow> 'out"
  hd_WithAttrs :: "'h \<Rightarrow> attr list \<Rightarrow> 'h"
  hd_WithGroup :: "'h \<Rightarrow> string \<Rightarrow> 'h"

text \<open>The span context of a context: whether it is valid, and its ids in hexadecimal.\<close>

record span_context =
  sp_valid :: bool
  sp_traceID :: string
  sp_spanID :: string

record 'h LogHandler =
  lh_inner :: 'h

definition NewLogHandler :: "'h \<Rightarrow> 'h LogHandler" where
  "NewLogHandler inner = \<lparr>lh_inner = inner\<rparr>"

definition AddAttrs :: "attr list \<Rightarrow> log_record \<Rightarrow> log_record" where
  "AddAttrs as r = r\<lparr>lr_attrs := lr_attrs r @ as\<rparr>"

definition trace_attrs :: "span_context \<Rightarrow> attr list" where
  "trace_attrs sp = (if sp_valid sp then [(''trace_id'', sp_traceID sp), (''span_id'', sp_spanID sp)] else [])"

definition log_handler :: "('ctx \<Rightarrow> span_context) \<Rightarrow> ('h, 'ctx, 'out) slog_handler \<Rightarrow> ('h LogHandler, 'ctx, 'out) slog_handler" where
  "log_handler spanOf ops =
     \<lparr>hd_Enabled = (\<lambda>h ctx level. hd_Enabled ops (lh_inner h) ctx level),
      hd_Handle = (\<lambda>h ctx r.
        let r = (if sp_valid (spanOf ctx)
                 then AddAttrs [(''trace_id'', sp_traceID (spanOf ctx)), (''span_id'', sp_spanID (spanOf ctx))] r else r)
        in hd_Handle ops (lh_inner h) ctx r),
      hd_WithAttrs = (\<lambda>h attrs. \<lparr>lh_inner = hd_WithAttrs ops (lh_inner h) attrs\<rparr>),
      hd_WithGroup = (\<lambda>h name. \<lparr>lh_inner = hd_WithGroup ops (lh_inner h) name\<rparr>)\<rparr>"

text \<open>The handlers of the standard library: a level, the groups opened, and the attributes added so far, each
  qualified by the groups that were open. What is written is the message with qualified attributes.\<close>

record std_handler =
  st_level :: int
  st_json :: bool
  st_groups :: "string list"
  st_attrs :: "(string list \<times> string) list"

type_synonym log_line = "string \<times> (string list \<times> string) list"

definition qualify :: "string list \<Rightarrow> attr list \<Rightarrow> (string list \<times> string) list" where
  "qualify gs as = map (\<lambda>(k, v). (gs @ [k], v)) as"

definition std_ops :: "(std_handler, 'ctx, log_line) slog_handler" where
  "std_ops =
     \<lparr>hd_Enabled = (\<lambda>h ctx level. st_level h \<le> level),
      hd_Handle = (\<lambda>h ctx r. (lr_message r, st_attrs h @ qualify (st_groups h) (lr_attrs r))),
      hd_WithAttrs = (\<lambda>h attrs. h\<lparr>st_attrs := st_attrs h @ qualify (st_groups h) attrs\<rparr>),
      hd_WithGroup = (\<lambda>h name. if name = [] then h else h\<lparr>st_groups := st_groups h @ [name]\<rparr>)\<rparr>"

definition service_handler :: "(string \<Rightarrow> string) \<Rightarrow> string \<Rightarrow> string \<Rightarrow> std_handler LogHandler" where
  "service_handler uni_lower level format =
     NewLogHandler \<lparr>st_level = fst (newLogger uni_lower level format), st_json = snd (newLogger uni_lower level format),
       st_groups = [], st_attrs = []\<rparr>"

text \<open>A logger is a handler; it is derived with attributes and groups, and writes a record when its
  handler is enabled for the level.\<close>

datatype derivation = With "attr list" | Group string

fun derive :: "('h, 'ctx, 'out) slog_handler \<Rightarrow> 'h \<Rightarrow> derivation list \<Rightarrow> 'h" where
  "derive ops h [] = h"
| "derive ops h (With as # ds) = derive ops (hd_WithAttrs ops h as) ds"
| "derive ops h (Group g # ds) = derive ops (hd_WithGroup ops h g) ds"

definition write_log :: "('h, 'ctx, 'out) slog_handler \<Rightarrow> 'h \<Rightarrow> 'ctx \<Rightarrow> log_record \<Rightarrow> 'out option" where
  "write_log ops h ctx r = (if hd_Enabled ops h ctx (lr_level r) then Some (hd_Handle ops h ctx r) else None)"

text \<open>The groups open after derivations, and the attributes they add, each under the groups open at the time.\<close>

fun derived_groups :: "string list \<Rightarrow> derivation list \<Rightarrow> string list" where
  "derived_groups gs [] = gs"
| "derived_groups gs (With as # ds) = derived_groups gs ds"
| "derived_groups gs (Group g # ds) = derived_groups (gs @ (if g = [] then [] else [g])) ds"

fun derived_attrs :: "string list \<Rightarrow> derivation list \<Rightarrow> (string list \<times> string) list" where
  "derived_attrs gs [] = []"
| "derived_attrs gs (With as # ds) = qualify gs as @ derived_attrs gs ds"
| "derived_attrs gs (Group g # ds) = derived_attrs (gs @ (if g = [] then [] else [g])) ds"

section \<open>The contract of a handler\<close>

text \<open>What the documentation of \<open>slog.Handler\<close> says, on what a handler has accumulated: \<open>WithAttrs\<close> and
  \<open>WithGroup\<close> add to it (an empty group name changes nothing), and a record is written with the
  accumulated attributes first, its own qualified by the open groups. \<open>extra\<close> is what the handler adds
  from the context.\<close>

locale slog_contract =
  fixes ops :: "('h, 'ctx, log_line) slog_handler"
    and level_of :: "'h \<Rightarrow> int"
    and groups :: "'h \<Rightarrow> string list"
    and attrs :: "'h \<Rightarrow> (string list \<times> string) list"
    and extra :: "'ctx \<Rightarrow> attr list"
  assumes enabled: "hd_Enabled ops h ctx l \<longleftrightarrow> level_of h \<le> l"
    and handle: "hd_Handle ops h ctx r = (lr_message r, attrs h @ qualify (groups h) (lr_attrs r @ extra ctx))"
    and with_attrs: "level_of (hd_WithAttrs ops h as) = level_of h" "groups (hd_WithAttrs ops h as) = groups h"
      "attrs (hd_WithAttrs ops h as) = attrs h @ qualify (groups h) as"
    and with_group: "level_of (hd_WithGroup ops h g) = level_of h" "groups (hd_WithGroup ops h g) = groups h @ (if g = [] then [] else [g])"
      "attrs (hd_WithGroup ops h g) = attrs h"
begin

lemma derived:
  "level_of (derive ops h ds) = level_of h \<and> groups (derive ops h ds) = derived_groups (groups h) ds
    \<and> attrs (derive ops h ds) = attrs h @ derived_attrs (groups h) ds"
proof (induction ds arbitrary: h)
  case (Cons d ds)
  show ?case
  proof (cases d)
    case (With as)
    with Cons.IH [of "hd_WithAttrs ops h as"] show ?thesis by (simp add: with_attrs)
  next
    case (Group g)
    with Cons.IH [of "hd_WithGroup ops h g"] show ?thesis by (simp add: with_group)
  qed
qed simp

lemma written:
  "write_log ops (derive ops h ds) ctx r =
     (if level_of h \<le> lr_level r
      then Some (lr_message r, attrs h @ derived_attrs (groups h) ds @ qualify (derived_groups (groups h) ds) (lr_attrs r @ extra ctx))
      else None)"
  by (simp add: write_log_def enabled handle derived)

end

interpretation std: slog_contract std_ops st_level st_groups st_attrs "\<lambda>_. []"
  by unfold_locales (simp_all add: std_ops_def)

text \<open>Wrapping any handler keeps the contract and adds the ids.\<close>

lemma trace_attrs_added: "(if sp_valid sp then AddAttrs [(''trace_id'', sp_traceID sp), (''span_id'', sp_spanID sp)] r else r)
    = AddAttrs (trace_attrs sp) r"
  by (simp add: trace_attrs_def AddAttrs_def)

context slog_contract
begin

lemma log_handler_contract:
  "slog_contract (log_handler spanOf ops) (\<lambda>h. level_of (lh_inner h)) (\<lambda>h. groups (lh_inner h)) (\<lambda>h. attrs (lh_inner h))
    (\<lambda>ctx. trace_attrs (spanOf ctx) @ extra ctx)"
proof unfold_locales
  fix h ctx r
  show "hd_Handle (log_handler spanOf ops) h ctx r
    = (lr_message r, attrs (lh_inner h) @ qualify (groups (lh_inner h)) (lr_attrs r @ trace_attrs (spanOf ctx) @ extra ctx))"
    by (simp add: log_handler_def Let_def trace_attrs_added handle) (simp add: AddAttrs_def)
qed (simp_all add: log_handler_def enabled with_attrs with_group)

end

interpretation correlated: slog_contract "log_handler spanOf std_ops" "\<lambda>h. st_level (lh_inner h)" "\<lambda>h. st_groups (lh_inner h)"
    "\<lambda>h. st_attrs (lh_inner h)" "\<lambda>ctx. trace_attrs (spanOf ctx)" for spanOf
  using std.log_handler_contract by simp

text \<open>C38. Log lines carry the trace. A logger made by the commands, derived with any attributes and groups, writes
  a record exactly when its level reaches the configured one; it writes the attributes added so far,
  then those of the record, then the trace and span ids exactly if the context has a valid span. Inside
  an open group the ids are qualified by the group.\<close>

theorem log_correlation:
  "write_log (log_handler spanOf std_ops) (derive (log_handler spanOf std_ops) (service_handler uni_lower level format) ds) ctx r
    = (if fst (newLogger uni_lower level format) \<le> lr_level r
       then Some (lr_message r, derived_attrs [] ds @ qualify (derived_groups [] ds) (lr_attrs r @ trace_attrs (spanOf ctx)))
       else None)"
  unfolding correlated.written by (simp add: service_handler_def NewLogHandler_def)

section \<open>The tracer provider\<close>

text \<open>What shuts the provider down; \<open>NoShutdown\<close> is the function that does nothing.\<close>

datatype 'tp shutdown = NoShutdown | ShutdownProvider 'tp

text \<open>\<open>Init\<close>: the result and the global provider. \<open>newExporter\<close> connects to the endpoint, \<open>newResource\<close> takes the
  service's name and version. The libraries behind these three read further variables of their own
  (\<open>OTEL_EXPORTER_OTLP_HEADERS\<close>, \<open>OTEL_RESOURCE_ATTRIBUTES\<close>, \<open>OTEL_BSP_*\<close> and more): each is given the environment.\<close>

definition tracerName :: string where
  "tracerName = ''netdata-postgres-mcp''"

definition Init :: "environ \<Rightarrow> (environ \<Rightarrow> string \<Rightarrow> string + 'exp) \<Rightarrow> (environ \<Rightarrow> string \<Rightarrow> string \<Rightarrow> string + 'res)
    \<Rightarrow> (environ \<Rightarrow> 'exp \<Rightarrow> 'res \<Rightarrow> 'tp) \<Rightarrow> string \<Rightarrow> 'tp option \<Rightarrow> (string + 'tp shutdown) \<times> 'tp option" where
  "Init env newExporter newResource newProvider version global =
     (let endpoint = env ''OTEL_EXPORTER_OTLP_ENDPOINT'' in
      if endpoint = [] then (Inr NoShutdown, global)
      else case newExporter env endpoint of
          Inl e \<Rightarrow> (Inl e, global)
        | Inr exporter \<Rightarrow>
            (case newResource env tracerName version of
               Inl e \<Rightarrow> (Inl e, global)
             | Inr res \<Rightarrow> let tp = newProvider env exporter res in (Inr (ShutdownProvider tp), Some tp)))"

text \<open>Shutting down gives the provider five seconds.\<close>

definition run_shutdown :: "('tp \<Rightarrow> int \<Rightarrow> string option) \<Rightarrow> 'tp shutdown \<Rightarrow> string option" where
  "run_shutdown shut s = (case s of NoShutdown \<Rightarrow> None | ShutdownProvider tp \<Rightarrow> shut tp (5 * 1000000000))"

text \<open>A span is started by the tracer of the global provider under the service's name; an error is recorded
  on the span of a context if that is recording.\<close>

definition Tracer :: "('tp option \<Rightarrow> string \<Rightarrow> 'tracer) \<Rightarrow> 'tp option \<Rightarrow> 'tracer" where
  "Tracer tracerOf global = tracerOf global tracerName"

definition StartSpan :: "('tp option \<Rightarrow> string \<Rightarrow> 'tracer) \<Rightarrow> ('tracer \<Rightarrow> 'ctx \<Rightarrow> string \<Rightarrow> attr list \<Rightarrow> 'ctx \<times> 'span) \<Rightarrow> 'tp option
    \<Rightarrow> 'ctx \<Rightarrow> string \<Rightarrow> attr list \<Rightarrow> 'ctx \<times> 'span" where
  "StartSpan tracerOf start global ctx name attrs = start (Tracer tracerOf global) ctx name attrs"

definition RecordError :: "('span \<Rightarrow> bool) \<Rightarrow> ('span \<Rightarrow> string \<Rightarrow> 'span) \<Rightarrow> string \<Rightarrow> 'span \<Rightarrow> 'span" where
  "RecordError isRecording record_error err sp = (if isRecording sp then record_error sp err else sp)"

lemma Init_cases:
  "env ''OTEL_EXPORTER_OTLP_ENDPOINT'' = [] \<Longrightarrow> Init env newExporter newResource newProvider v g = (Inr NoShutdown, g)"
  "Init env newExporter newResource newProvider v g = (Inl e, g') \<Longrightarrow> g' = g"
  "Init env newExporter newResource newProvider v g = (Inr (ShutdownProvider tp), g') \<Longrightarrow> g' = Some tp"
  by (auto simp: Init_def Let_def split: if_splits sum.splits)

end
