(* ===== verification/Commands.thy ===== *)
theory Commands
  imports System Tracing
begin

text \<open>
  The rest of \<open>cmd/netdata-postgres-mcp/main.go\<close>: the usage text, loading the configuration, what a command
  leaves behind (exit status, deferred calls, output), the listener and the graceful shutdown. The outside
  of each command is a parameter, as in \<open>Service\<close>.
\<close>

section \<open>The usage text\<close>

definition usage_lines :: "string \<Rightarrow> string list" where
  "usage_lines version =
     [''netdata-postgres-mcp '' @ version,
      [],
      ''A sidecar that stores Netdata metrics in PostgreSQL and serves them via MCP.'',
      [],
      ''Commands:'',
      ''  migrate        Run database migrations (idempotent, safe to re-run)'',
      ''  collect-once   Collect metrics once and exit (useful for cron/testing)'',
      ''  run            Start scheduler + MCP server (HTTP/SSE) '' @ em_dash @ '' main production mode'',
      ''  mcp            Start MCP server only (stdio transport for AI assistants)'',
      ''  version        Show version'',
      ''  help           Show this help'',
      [],
      ''Subcommand Details:'',
      ''  migrate:'',
      ''    Applies all pending SQL migrations from internal/store/migrations/.'',
      ''    Idempotent '' @ em_dash @ '' safe to run multiple times. Creates tables for metrics,'',
      ''    nodes, rollups, tenants, and API tokens.'',
      ''    Example: netdata-postgres-mcp migrate'',
      [],
      ''  collect-once:'',
      ''    Connects to Netdata, collects one round of metrics, inserts into'',
      ''    PostgreSQL, then exits. Useful for testing or cron-based collection.'',
      ''    Example: POSTGRES_DSN=... NETDATA_BASE_URL=... netdata-postgres-mcp collect-once'',
      [],
      ''  run:'',
      ''    Main production mode. Starts the metric collection scheduler and'',
      ''    HTTP/SSE MCP server. Serves /healthz, /readyz, /metrics (Prometheus),'',
      ''    /sse, /message, and /api/v1/write (remote-write receiver).'',
      ''    Supports SIGHUP for config hot-reload without restart.'',
      ''    Example: netdata-postgres-mcp run'',
      [],
      ''  mcp:'',
      ''    Starts MCP server on stdio (stdin/stdout). Designed for direct'',
      ''    connection from AI assistants like Claude Desktop or Cursor.'',
      ''    Example: netdata-postgres-mcp mcp'',
      [],
      ''Environment:'',
      ''  CONFIG_FILE                  Path to YAML config (optional)'',
      ''  NETDATA_BASE_URL             Netdata agent URL (default: http://localhost:19999)'',
      ''  NETDATA_API_KEY              Netdata API key (optional)'',
      ''  POSTGRES_DSN                 PostgreSQL connection string (required)'',
      ''  COLLECTION_INTERVAL_SECONDS  Collection interval in seconds (default: 60)'',
      ''  NODE_ID                      Node identifier (auto-detected if empty)'',
      ''  ENABLED_CONTEXTS             Comma-separated metric contexts'',
      ''  MCP_BIND_ADDR                MCP HTTP server address (default: 127.0.0.1:8765)'',
      ''  LOG_LEVEL                    Log level: debug, info, warn, error (default: info)'',
      ''  LOG_FORMAT                   Log format: text, json (default: text)'',
      ''  RETENTION_DAYS               Delete samples older than N days (default: 30, 0 to disable)'',
      ''  MCP_AUTH_TOKEN               Bearer token for MCP endpoints (optional, no auth if empty)'',
      ''  RATE_LIMIT_RPS               Max requests per second per IP (default: 0 = disabled)'',
      ''  TLS_CERT_FILE                Path to TLS certificate file (enables HTTPS)'',
      ''  TLS_KEY_FILE                 Path to TLS private key file (enables HTTPS)'',
      ''  NETDATA_NODES                Comma-separated Netdata URLs for multi-node collection'',
      ''  OTEL_EXPORTER_OTLP_ENDPOINT  OpenTelemetry OTLP endpoint (optional, enables tracing)'',
      [],
      ''Signals:'',
      ''  SIGHUP     Reload configuration without restart'',
      ''  SIGINT     Graceful shutdown'',
      ''  SIGTERM    Graceful shutdown'']"

definition newline :: string where "newline = [CHR 0x0A]"

definition printUsage :: "string \<Rightarrow> string" where
  "printUsage version = concat (map (\<lambda>l. l @ newline) (usage_lines version))"

text \<open>The variables the text documents: the first words of the lines below \<open>Environment:\<close>.\<close>

definition usage_variables :: "string list" where
  "usage_variables =
     map (\<lambda>l. takeWhile (\<lambda>c. c \<noteq> CHR '' '') (drop 2 l))
       (takeWhile (\<lambda>l. l \<noteq> []) (tl (dropWhile (\<lambda>l. l \<noteq> ''Environment:'') (usage_lines []))))"

lemma usage_variables_list:
  "usage_variables = [''CONFIG_FILE'', ''NETDATA_BASE_URL'', ''NETDATA_API_KEY'', ''POSTGRES_DSN'', ''COLLECTION_INTERVAL_SECONDS'',
     ''NODE_ID'', ''ENABLED_CONTEXTS'', ''MCP_BIND_ADDR'', ''LOG_LEVEL'', ''LOG_FORMAT'', ''RETENTION_DAYS'', ''MCP_AUTH_TOKEN'',
     ''RATE_LIMIT_RPS'', ''TLS_CERT_FILE'', ''TLS_KEY_FILE'', ''NETDATA_NODES'', ''OTEL_EXPORTER_OTLP_ENDPOINT'']"
  by code_simp

section \<open>The command line\<close>

text \<open>\<open>loadConfig\<close> reads the file named by \<open>CONFIG_FILE\<close>, if any, under the environment.\<close>

definition loadConfig :: "(string \<Rightarrow> string + string) \<Rightarrow> (string \<Rightarrow> Config \<Rightarrow> Config \<times> string option) \<Rightarrow> environ \<Rightarrow> Config \<times> string option" where
  "loadConfig readFile unmarshal env = Load readFile unmarshal env (env ''CONFIG_FILE'')"

text \<open>What is left of a process: its exit status and what it has written itself. \<open>run\<close> is what a command does
  with the configuration once it is loaded, as an exit status.\<close>

record proc_end =
  pe_code :: int
  pe_stdout :: string
  pe_stderr :: string

definition quiet_end :: "int \<Rightarrow> proc_end" where
  "quiet_end code = \<lparr>pe_code = code, pe_stdout = [], pe_stderr = []\<rparr>"

definition main_result :: "string \<Rightarrow> string list \<Rightarrow> Config \<times> string option \<Rightarrow> (cli_action \<Rightarrow> Config \<Rightarrow> int) \<Rightarrow> proc_end" where
  "main_result version args loaded run =
     (case main_action args of
        UsageError \<Rightarrow>
          (quiet_end 1)\<lparr>pe_stderr :=
            (if length args < 2 then [] else ''Unknown command: '' @ args ! 1 @ newline @ newline) @ printUsage version\<rparr>
      | ShowVersion \<Rightarrow> (quiet_end 0)\<lparr>pe_stdout := ''netdata-postgres-mcp '' @ version @ newline\<rparr>
      | ShowHelp \<Rightarrow> (quiet_end 0)\<lparr>pe_stderr := printUsage version\<rparr>
      | act \<Rightarrow>
          (case loaded of
             (cfg, Some e) \<Rightarrow> (quiet_end 1)\<lparr>pe_stderr := ''Error loading config: '' @ e @ newline\<rparr>
           | (cfg, None) \<Rightarrow> quiet_end (run act cfg)))"

section \<open>Serving and shutting down\<close>

text \<open>The listener: TLS when both files are named. An error of it is logged unless the server was closed.\<close>

datatype listener = ListenTLS string string | ListenPlain

record http_server =
  hs_addr :: string
  hs_readHeaderTimeout :: int
  hs_listener :: listener

definition service_server :: "Config \<Rightarrow> http_server" where
  "service_server cfg =
     \<lparr>hs_addr = MCPBindAddr cfg, hs_readHeaderTimeout = 10 * 1000000000,
      hs_listener = (if TLSCertFile cfg \<noteq> [] \<and> TLSKeyFile cfg \<noteq> [] then ListenTLS (TLSCertFile cfg) (TLSKeyFile cfg)
                     else ListenPlain)\<rparr>"

definition ErrServerClosed :: string where "ErrServerClosed = ''http: Server closed''"

definition listener_log :: "http_server \<Rightarrow> string option \<Rightarrow> string list" where
  "listener_log s err =
     (case err of
        None \<Rightarrow> []
      | Some e \<Rightarrow>
          if e = ErrServerClosed then []
          else [(case hs_listener s of ListenTLS c k \<Rightarrow> ''HTTPS server error'' | ListenPlain \<Rightarrow> ''HTTP server error'')])"

text \<open>\<open>http.Server.Shutdown\<close>: it waits until every connection is idle, and ends with the error of its context
  when that is done first. A connection is the time its request is answered; an event stream is not
  answered until somebody closes it. The polling interval of the library is left out.\<close>

definition http_Shutdown :: "int \<Rightarrow> int \<Rightarrow> int option list \<Rightarrow> string option \<times> int" where
  "http_Shutdown deadline now conns =
     (if list_all (\<lambda>c. \<exists>t. c = Some t \<and> t \<le> deadline) conns
      then (None, fold max (List.map_filter id conns) now)
      else (Some ''context deadline exceeded'', max now deadline))"

text \<open>The shutdown of \<open>runService\<close>: ten seconds for both servers, the HTTP server first. \<open>sse\<close> is the SSE server's
  \<open>Shutdown\<close> with the deadline and the time it is called.\<close>

definition shutdown_servers :: "(int \<Rightarrow> int \<Rightarrow> string option \<times> int) \<Rightarrow> int \<Rightarrow> int option list \<Rightarrow> (string option \<times> string option) \<times> int" where
  "shutdown_servers sse now conns =
     (let deadline = now + 10 * 1000000000;
          (e1, t1) = http_Shutdown deadline now conns;
          (e2, t2) = sse deadline t1
      in ((e1, e2), t2))"

text \<open>What is left of \<open>run\<close>: the exit status, and whether the deferred closing of the store and shutting down of
  the tracing have been made. \<open>os.Exit\<close> skips them; a panic of the main goroutine does not, and exits with 2.\<close>

record service_end =
  se_code :: int
  se_closed :: bool
  se_traced :: bool

text \<open>The main goroutine of \<open>run\<close>. \<open>first\<close> and \<open>choice\<close> are what the first scheduler's \<open>Run\<close> meets, \<open>cancelled\<close> whether the
  context is done when it returns; without a return the service runs on.\<close>

definition runService :: "('db, 'tx) pg \<Rightarrow> dir_entry list \<Rightarrow> (string \<Rightarrow> PoolOptions option \<Rightarrow> string + 'db) \<Rightarrow> outside
    \<Rightarrow> string + 'tp shutdown \<Rightarrow> cycle_env \<Rightarrow> (nat \<Rightarrow> string + cycle_env) \<Rightarrow> bool \<Rightarrow> Config \<times> string option \<Rightarrow> service_end option" where
  "runService pg entries connect o_s tracing first choice cancelled loaded =
     (case loaded of
        (cfg, Some e) \<Rightarrow> Some \<lparr>se_code = 1, se_closed = False, se_traced = False\<rparr>
      | (cfg, None) \<Rightarrow>
          (case start_service pg entries connect o_s (cfg, None) of
             (Inr ((s, c) # scs), Some db) \<Rightarrow>
               (case Run pg first choice (fresh_world s db) of
                  None \<Rightarrow> None
                | Some (TickerPanic w) \<Rightarrow> Some \<lparr>se_code = 2, se_closed = True, se_traced = (\<exists>sh. tracing = Inr sh)\<rparr>
                | Some (Returned err w) \<Rightarrow>
                    if cancelled then Some \<lparr>se_code = 0, se_closed = True, se_traced = (\<exists>sh. tracing = Inr sh)\<rparr>
                    else Some \<lparr>se_code = 1, se_closed = False, se_traced = False\<rparr>)
           | _ \<Rightarrow> Some \<lparr>se_code = 1, se_closed = False, se_traced = False\<rparr>))"

section \<open>The usage text tells the truth about the environment\<close>

lemma loadConfig_cong:
  assumes "env ''CONFIG_FILE'' = env' ''CONFIG_FILE''" and "\<And>c. applyEnv env c = applyEnv env' c"
  shows "loadConfig readFile unmarshal env = loadConfig readFile unmarshal env'"
  using assms by (simp add: loadConfig_def Load_def cong: sum.case_cong option.case_cong prod.case_cong)

lemma applyEnv_cong: "\<forall>v \<in> set usage_variables. env v = env' v \<Longrightarrow> applyEnv env c = applyEnv env' c"
  unfolding usage_variables_list by (simp add: applyEnv_fields env_or_def)

text \<open>What setting one variable to \<open>x\<close> does to the settings in an otherwise empty environment.\<close>

definition only :: "string \<Rightarrow> string \<Rightarrow> environ" where
  "only var x = (\<lambda>_. [])(var := x)"

lemma documented_variable_read:
  assumes "var \<in> set usage_variables"
  shows "var = ''CONFIG_FILE'' \<or> var = ''OTEL_EXPORTER_OTLP_ENDPOINT'' \<or> applyEnv (only var ''7'') Defaults \<noteq> applyEnv (only var []) Defaults"
proof -
  have n: "Atoi ''7'' = Some 7" "read_list ''7'' = Some [''7'']" "ParseFloat ''7'' = Some (Fin 7)" by code_simp+
  show ?thesis
    using assms unfolding usage_variables_list
    by (simp only: list.set insert_iff empty_iff, elim disjE FalseE)
      (simp_all add: applyEnv_fields env_or_def only_def n Defaults_def node_at_def DefaultContexts_def)
qed

lemma documented_variable_loaded:
  assumes "applyEnv (only v ''7'') Defaults \<noteq> applyEnv (only v []) Defaults" and "v \<noteq> ''CONFIG_FILE''"
  shows "fst (loadConfig readFile unmarshal (only v ''7'')) \<noteq> fst (loadConfig readFile unmarshal (only v []))"
  using assms by (simp add: loadConfig_def Load_def only_def Let_def)

text \<open>C39. The usage text is true and complete about the environment the program itself reads. Two environments that
  agree on the variables it lists give the same configuration, whatever else they set, and the same tracing
  once the OpenTelemetry libraries see the same environment: what those read beyond the list is theirs. Every
  listed variable matters: \<open>CONFIG_FILE\<close> names the file that is read; without the endpoint tracing is off and no
  library is called, with it the exporter is made for it and its error is reported; and each of the
  other fifteen changes the configuration on its own, when the file is absent.\<close>

theorem usage_documents_environment:
  fixes newExporter :: "environ \<Rightarrow> string \<Rightarrow> string + 'exp" and newResource :: "environ \<Rightarrow> string \<Rightarrow> string \<Rightarrow> string + 'res"
    and newProvider :: "environ \<Rightarrow> 'exp \<Rightarrow> 'res \<Rightarrow> 'tp"
  shows "(\<forall>env env'. (\<forall>v \<in> set usage_variables. env v = env' v) \<longrightarrow>
      loadConfig readFile unmarshal env = loadConfig readFile unmarshal env'
      \<and> Init env newExporter newResource newProvider version global
        = Init env' (\<lambda>_. newExporter env) (\<lambda>_. newResource env) (\<lambda>_. newProvider env) version global)
    \<and> (\<forall>e. readFile ''7'' = Inl e \<longrightarrow>
        loadConfig readFile unmarshal (only ''CONFIG_FILE'' ''7'') = (Defaults, Some (''reading config file 7: '' @ e)))
    \<and> (\<forall>env endpoint e. env ''OTEL_EXPORTER_OTLP_ENDPOINT'' = endpoint \<longrightarrow>
        (endpoint = [] \<longrightarrow> Init env newExporter newResource newProvider version global = (Inr NoShutdown, global))
        \<and> (endpoint \<noteq> [] \<and> newExporter env endpoint = Inl e \<longrightarrow>
            Init env newExporter newResource newProvider version global = (Inl e, global)))
    \<and> set usage_variables = {''CONFIG_FILE'', ''OTEL_EXPORTER_OTLP_ENDPOINT''} \<union> {v. v \<in> set usage_variables
        \<and> fst (loadConfig readFile unmarshal (only v ''7'')) \<noteq> fst (loadConfig readFile unmarshal (only v []))}"
proof (intro conjI allI impI)
  fix env env' :: environ assume a: "\<forall>v \<in> set usage_variables. env v = env' v"
  show "loadConfig readFile unmarshal env = loadConfig readFile unmarshal env'"
    using a by (intro loadConfig_cong applyEnv_cong) (simp_all add: usage_variables_list)
  show "Init env newExporter newResource newProvider version global
      = Init env' (\<lambda>_. newExporter env) (\<lambda>_. newResource env) (\<lambda>_. newProvider env) version global"
    using a by (simp add: usage_variables_list Init_def)
next
  show "set usage_variables = {''CONFIG_FILE'', ''OTEL_EXPORTER_OTLP_ENDPOINT''} \<union> {v. v \<in> set usage_variables
      \<and> fst (loadConfig readFile unmarshal (only v ''7'')) \<noteq> fst (loadConfig readFile unmarshal (only v []))}" (is "_ = ?two \<union> ?rest")
  proof
    show "set usage_variables \<subseteq> ?two \<union> ?rest" using documented_variable_read documented_variable_loaded by blast
    show "?two \<union> ?rest \<subseteq> set usage_variables" by (auto simp: usage_variables_list)
  qed
qed (simp_all add: Init_def loadConfig_def Load_def only_def)

theorem usage_documents_environment_witness:
  "loadConfig (\<lambda>_. Inl []) (\<lambda>_ c. (c, None)) (demo_environ(''HOME'' := ''/root'')) = loadConfig (\<lambda>_. Inl []) (\<lambda>_ c. (c, None)) demo_environ"
proof -
  have "\<forall>v \<in> set usage_variables. (demo_environ(''HOME'' := ''/root'')) v = demo_environ v" by (simp add: usage_variables_list)
  with usage_documents_environment [of "\<lambda>_. Inl []" "\<lambda>_ c. (c, None)", THEN conjunct1] show ?thesis by blast
qed

section \<open>How the service ends\<close>

text \<open>An event stream that is still open holds the HTTP server's shutdown up for the whole ten seconds, and the SSE
  server, whose shutdown would close it, is told only then, with a context that is already over; without
  one, and with every request answered in time, there is no error and no needless wait.\<close>

lemma shutdown_waits_for_streams:
  "None \<in> set conns \<Longrightarrow> shutdown_servers sse now conns
     = (let d = now + 10 * 1000000000 in ((Some ''context deadline exceeded'', fst (sse d d)), snd (sse d d)))"
  "\<forall>c \<in> set conns. \<exists>t. c = Some t \<and> t \<le> now \<Longrightarrow> shutdown_servers sse now conns
     = ((None, fst (sse (now + 10 * 1000000000) now)), snd (sse (now + 10 * 1000000000) now))"
proof -
  show "None \<in> set conns \<Longrightarrow> shutdown_servers sse now conns
     = (let d = now + 10 * 1000000000 in ((Some ''context deadline exceeded'', fst (sse d d)), snd (sse d d)))"
    by (auto simp: shutdown_servers_def http_Shutdown_def Let_def list_all_iff max_def split: prod.split)
  assume a: "\<forall>c \<in> set conns. \<exists>t. c = Some t \<and> t \<le> now"
  then have "fold max (List.map_filter id conns) now = now"
    by (induction conns) (auto simp: List.map_filter_def max_def)
  moreover have "list_all (\<lambda>c. \<exists>t. c = Some t \<and> t \<le> now + 10 * 1000000000) conns"
    using a by (fastforce simp: list_all_iff)
  ultimately show "shutdown_servers sse now conns
     = ((None, fst (sse (now + 10 * 1000000000) now)), snd (sse (now + 10 * 1000000000) now))"
    by (simp add: shutdown_servers_def http_Shutdown_def Let_def split: prod.split)
qed

text \<open>The store is closed and the tracing shut down on every way out that is not \<open>os.Exit(1)\<close>.\<close>

lemma deferred_calls_made:
  "runService pg entries connect o_s tracing first choice cancelled loaded = Some e \<Longrightarrow>
     (se_closed e \<longleftrightarrow> se_code e \<noteq> 1) \<and> (se_traced e \<longleftrightarrow> se_code e \<noteq> 1 \<and> (\<exists>sh. tracing = Inr sh))"
  by (auto simp: runService_def split: prod.splits option.splits sum.splits list.splits run_end.splits if_splits)

end
