(* ===== verification/Spec2Isabelle.thy ===== *)
theory Spec2Isabelle
  imports Breaker RateLimit RwIngest PromText Collector Scheduler Config Webhook Tenant Derived Reload Http Service
    GoTime GoCalendar McpQuery McpBottleneck McpNatural McpAlerts McpForecast McpSummary McpServer RunLoop System SystemTable SystemRace Tracing Commands
begin

text \<open>
  Verification library for netdata-postgres-mcp, a service that collects hardware metrics from Netdata agents,
  stores them in PostgreSQL and answers questions about them over MCP.

  How the parts interact. A scheduler per node (\<open>internal/scheduler\<close>) asks its collector (\<open>internal/collector\<close>) for
  samples every interval, behind a circuit breaker (\<open>internal/circuitbreaker\<close>), and gives them to the store
  (\<open>internal/store\<close>); once a day it rolls up and deletes old samples. The HTTP side serves health checks,
  self metrics (\<open>internal/metrics\<close>), a Prometheus remote-write receiver (\<open>internal/remotewrite\<close>) and, behind a
  token and a rate limiter (\<open>internal/middleware\<close>), the MCP tools (\<open>internal/mcp\<close>), which read the tables.
  \<open>cmd/netdata-postgres-mcp/main.go\<close> loads the configuration (\<open>internal/config\<close>) and puts all of this together.

  Theories, in the order they build on each other.

  \<^item> \<open>Prelude\<close>: outcomes with panics, 64-bit wrap-around, lists and maps. \<open>GoFloat\<close>: float64 as rationals rounded
    to 53 bits, with NaN, infinities and the negative zero. \<open>GoString\<close>, \<open>GoScan\<close>: package \<open>strings\<close>,
    \<open>strconv\<close>, \<open>fmt\<close>. \<open>GoTime\<close>, \<open>GoCalendar\<close>: durations, \<open>time.Parse\<close>, \<open>parseTimeArg\<close> and the
    RFC 3339 text of a time. These model the standard library as far as the code uses it.
  \<^item> \<open>Breaker\<close>: \<open>breaker.go\<close>, a refinement of a three-mode machine. \<open>RateLimit\<close>: the token buckets of
    \<open>ratelimit.go\<close>, with the invariant of the buckets, isolation of clients and re-admission.
  \<^item> \<open>WireFormat\<close>: the protobuf decoder of \<open>remotewrite/handler.go\<close>, with an encoder as its reference.
  \<^item> \<open>Sql\<close>, \<open>PgTables\<close>, \<open>PgStore\<close>: statements and arguments; what the code relies on of PostgreSQL, as the locale
    \<open>postgres\<close> over an abstract driver, interpreted on a reference database; every operation of \<open>store.go\<close> and
    \<open>rollup.go\<close>. Inserts are shown to refine one all-or-nothing addition of rows.
  \<^item> \<open>SelfMetrics\<close>, \<open>RwIngest\<close>: \<open>metrics.go\<close>, and the receiver from the HTTP request to the rows.
  \<^item> \<open>PromText\<close>, \<open>Collector\<close>: the exposition parser, the three JSON shapes, the HTTP exchange and the node id.
  \<^item> \<open>Scheduler\<close>: a cycle with its three attempts, the clean-up, and runs as sequences of events (the locale
    \<open>rollup_db\<close> adds what roll-ups leave alone). \<open>RunLoop\<close>: \<open>Run\<close> and \<open>retentionLoop\<close>, loops that need not end
    (\<open>partial_function\<close>), and the intervals and retention periods at which \<open>time.Duration\<close> overflows.
  \<^item> \<open>Config\<close>, \<open>Reload\<close>, \<open>Derived\<close>, \<open>Webhook\<close>, \<open>Tenant\<close>: the packages of these names. The last four are not yet wired into the commands
    of \<open>main.go\<close>.
  \<^item> \<open>Http\<close>: handlers, middlewares (locale \<open>middleware\<close>, interpreted on all three) and the routing.
    \<open>Service\<close>: the commands of \<open>main.go\<close>, the set-up of the schedulers and SIGHUP.
  \<^item> \<open>System\<close>: the running service, a step relation over the goroutines that \<open>runService\<close> and \<open>Run\<close> start, with the
    invariants of every interleaving (locales \<open>running\<close> for any handler that keeps the store, \<open>service_host\<close> for the mux).
    \<open>SystemTable\<close>: what each step does to the sample table, and that a node is registered before anything is
    stored for it. \<open>SystemRace\<close>: a reload of the retention setting at the three moments of a clean-up's start.
    \<open>Commands\<close>: the usage text, what a command leaves behind, the listener and the shutdown.
  \<^item> \<open>Tracing\<close>: \<open>internal/tracing\<close>: the log handler (locale \<open>slog_contract\<close>: what \<open>log/slog\<close> asks of a handler), the set-up
    of the provider and the spans.
  \<^item> \<open>McpQuery\<close>, \<open>McpBottleneck\<close>, \<open>McpSummary\<close>, \<open>McpNatural\<close>, \<open>McpAlerts\<close>, \<open>McpForecast\<close>: the tools. A tool is a function of
    the arguments, the clock and a database that answers rows; its answer is the value that is encoded,
    or a text. The locale \<open>weak_order\<close> carries the correctness of the sorts. \<open>McpServer\<close>: the tools as they are
    registered, with their argument schemas, and the dispatch of a call to its handler (locale \<open>tool_registry\<close>).
  \<^item> This theory: properties that span components.

  State and operations. A struct is a record with the fields of the source (prefixed where two structs share a
  name), a method a function from the state to the state and its results; an \<open>error\<close> result is \<open>Some\<close> text or
  \<open>Inl\<close> text, a panic the value \<open>Panic\<close> (or no reply). The clock is an argument: one reading per call of
  \<open>time.Now\<close>, in nanoseconds since 1970. Code under a mutex is one step; concurrent use is a sequence of
  steps. In \<open>System\<close> a goroutine is a thread with a program counter, and a step is one use of what goroutines
  share: a breaker call, a collection, a call of the store (a transaction is one step, as the database isolates it),
  an addition to the counters, a read of the retention setting, a request (the handlers touch the store once). Requests
  are answered until the process exits, those still in flight during the shutdown included.
  A Go map is a partial map, or an association list where the order of iteration matters, which is then a
  parameter. \<open>int\<close> is an integer kept in 64 bits by \<open>wrap64\<close>, \<open>time.Duration\<close> saturates or wraps as in the source,
  and a conversion of a float out of range gives what the parameter \<open>impl\<close> says.

  What stands for code that is not here: the PostgreSQL driver and server (the record \<open>pg\<close>, or a function from a
  statement to its rows), Snappy, YAML and JSON text decoding, SHA-256, the MCP library, OpenTelemetry (which is given
  the whole environment), the network, the file system and the environment. Their laws are named hypotheses (the locales above), each shown to be
  satisfiable by an interpretation on the reference database.

  Bounds. Every loop is structural or has a termination measure, but for the two loops that end on a signal, whose
  endless run is the value \<open>None\<close>; there is no fuel. Batches are 500 rows, and the
  laws of the driver speak of statements of at most 65535 parameters, which the batches never exceed.

  What the groups of lemmas show: invariants (breaker, limiter, counters and registration of nodes under every
  interleaving), what each step of the running service does to its sample table, refinements (breaker, inserts, ingest, cycle), when the loops end and that
  a signal ends the service, round trips (wire format, exposition text, times), equivalence of the one-pass index
  and statistics with their definitions, agreement of statements with their arguments, what is answered on every error path, and
  behaviour that is not what the code means: panics of the decoder on hostile lengths, expired tokens that
  pass, a body limit that is lost, a default that is refused, fallback samples the tools never see, settings
  whose duration overflows, a reload that races with the start of a clean-up.

  Not modelled: the messages the code logs (only what the log handler adds to a record is), the inside of the libraries
  (OpenTelemetry, MCP, the path cleaning of the HTTP multiplexer and its polling during a shutdown), what is
  inside the migration scripts and what the roll-up queries compute inside PostgreSQL. The deadlines of contexts (thirty
  seconds for a tool, ten for the shutdown) are seen as the error the database or the server answers.
\<close>

section \<open>Collecting once, from the command line to the table\<close>

text \<open>C9. What \<open>collect-once\<close> leaves behind, from the command line to the table: with a database that keeps its
  promises, either the exit status is 0 and the table has gained exactly the samples that the collector
  returned in one of the three attempts, all of them and every one under the node id the collector resolved,
  or the sample table is as it was. An exit status other than 0 always leaves it as it was.\<close>

theorem collect_once_command:
  assumes "rollup_db pg tables tx_tables base stamp" and "connect (PostgresDSN cfg) = Inr db"
    and "\<forall>c k ss. Collect (os_parse o_s) (os_impl o_s) (os_net o_s k) c (os_clock o_s (2 * k)) (os_clock o_s (2 * k + 1)) = Inr ss
      \<longrightarrow> int (length ss) < 2 ^ 63"
    and "runCollectOnce pg connect o_s env (cfg, None) = (code, Some db')"
  shows "(\<exists>nodeID col k ss. code = 0 \<and> ss \<noteq> [] \<and> k \<in> {1, 2, 3}
      \<and> ResolveNodeID (os_parse o_s) (os_info o_s (NetdataBaseURL cfg)) (os_hostname o_s)
          (newCollector (NetdataBaseURL cfg) (NetdataAPIKey cfg) (CfgNodeID cfg) (EnabledContexts cfg) (CollectionIntervalSeconds cfg))
        = (Inr nodeID, col)
      \<and> Collect (os_parse o_s) (os_impl o_s) (os_net o_s k) col (os_clock o_s (2 * k)) (os_clock o_s (2 * k + 1)) = Inr ss
      \<and> (\<forall>s \<in> set ss. NodeID s = nodeID)
      \<and> tb_samples (tables db') = insert_new (tb_samples (tables db)) (map (row_of stamp) ss))
    \<or> tb_samples (tables db') = tb_samples (tables db)"
proof -
  let ?c0 = "newCollector (NetdataBaseURL cfg) (NetdataAPIKey cfg) (CfgNodeID cfg) (EnabledContexts cfg) (CollectionIntervalSeconds cfg)"
  obtain rn col where r: "ResolveNodeID (os_parse o_s) (os_info o_s (NetdataBaseURL cfg)) (os_hostname o_s) ?c0 = (rn, col)" by fastforce
  show ?thesis
  proof (cases rn)
    case (Inl e)
    with assms(2,4) r show ?thesis by (simp add: runCollectOnce_def Let_def)
  next
    case (Inr nodeID)
    let ?s = "newScheduler (CollectionIntervalSeconds cfg) nodeID (hostname_or_empty o_s) (NetdataBaseURL cfg)"
    let ?env = "with_collector (os_parse o_s) (os_impl o_s) col (os_net o_s) (os_clock o_s) env"
    obtain ro w where c: "collectOnce pg ?env (fresh_world ?s db) = (ro, w)" by fastforce
    have code: "code = (if ro = None then 0 else 1)" "db' = w_db w"
      using assms(2,4) r Inr c by (auto simp: runCollectOnce_def Let_def split: option.splits)
    have node: "c_nodeID col = nodeID" using ResolveNodeID_node r Inr by metis
    have "(\<exists>k ss. k \<in> {1, 2, 3} \<and> ro = None \<and> e_collect ?env k = Inr ss \<and> ss \<noteq> [] \<and> stored_all stamp tables ss (fresh_world ?s db) w)
        \<or> stored_nothing tables (fresh_world ?s db) w"
      by (rule rollup_db.collectOnce_attempts [OF assms(1) c]) (use assms(3) in \<open>simp add: with_collector_def\<close>)
    then show ?thesis
    proof
      assume "\<exists>k ss. k \<in> {1, 2, 3} \<and> ro = None \<and> e_collect ?env k = Inr ss \<and> ss \<noteq> [] \<and> stored_all stamp tables ss (fresh_world ?s db) w"
      then obtain k ss where k: "k \<in> {1, 2, 3}" "ro = None" "e_collect ?env k = Inr ss" "ss \<noteq> []"
        "stored_all stamp tables ss (fresh_world ?s db) w" by blast
      from k(3) have co: "Collect (os_parse o_s) (os_impl o_s) (os_net o_s k) col (os_clock o_s (2 * k)) (os_clock o_s (2 * k + 1)) = Inr ss"
        by (simp add: with_collector_def)
      then have n: "\<forall>s \<in> set ss. NodeID s = nodeID" using Collect_node node by blast
      have t: "tb_samples (tables db') = insert_new (tb_samples (tables db)) (map (row_of stamp) ss)"
        using k(5) code(2) by (simp add: stored_all_def fresh_world_def)
      have "code = 0" using k(2) code(1) by simp
      with k(1,4) co n t r Inr show ?thesis by blast
    qed (simp add: stored_nothing_def fresh_world_def code(2))
  qed
qed

text \<open>A node that answers the JSON request with one value.\<close>

definition answering_outside :: outside where
  "answering_outside = demo_outside
     \<lparr>os_parse := \<lambda>_. Some (JArr [JObj [(''context'', JStr ''system.cpu''), (''dimension'', JStr ''user''), (''value'', JNum (Fin 2))]]),
      os_net := \<lambda>_ _. Inr \<lparr>hs_status = 200, hs_body = [], hs_read_error = None\<rparr>\<rparr>"

lemma answering_collect:
  "Collect (os_parse answering_outside) (os_impl answering_outside) (os_net answering_outside k) c n1 n2
    = Inr [(empty_sample (c_nodeID c) n1)\<lparr>Context := ''system.cpu'', Dimension := ''user'', SValue := Fin 2\<rparr>]"
  by (simp add: Collect_def collectJSON_def doGet_def answering_outside_def demo_outside_def setAuth_def
      parseJSONResponse_def grouped_samples_def as_grouped_def flat_samples_def as_flat_def
      object_samples_def as_list_def as_object_def object_sample_def obj_string_def obj_get_def
      toFloat64_def empty_sample_def Let_def)

definition answered :: MetricSample where
  "answered = (empty_sample ''box'' 0)\<lparr>Context := ''system.cpu'', Dimension := ''user'', SValue := Fin 2\<rparr>"

lemma successful_cycle:
  assumes "Allow (e_allow env) (w_breaker w) = (None, b)"
    and "UpsertNode pg (w_db w) (s_nodeID (w_sched w)) (s_hostname (w_sched w)) (s_baseURL (w_sched w)) = (None, db)"
    and "retry_loop env None [1, 2, 3] = Collected ss le" and "ss \<noteq> []" and "InsertSamples pg db ss = ((n, None), db')"
  shows "\<exists>w'. collectOnce pg env w = (None, w') \<and> w_db w' = db'"
  using assms by (simp add: collectOnce_def finish_cycle_def upd_metrics_def Let_def del: retry_loop.simps)

lemma answering_run:
  "\<exists>db'. runCollectOnce ref_pg (\<lambda>_. Inr demo_tables) answering_outside (demo_env (\<lambda>_. Inl [])) (Defaults, None) = (0, Some db')
    \<and> tb_samples db' \<noteq> []"
proof -
  let ?col = "(newCollector (NetdataBaseURL Defaults) (NetdataAPIKey Defaults) (CfgNodeID Defaults) (EnabledContexts Defaults)
      (CollectionIntervalSeconds Defaults))\<lparr>c_nodeID := ''box''\<rparr>"
  let ?env = "with_collector (os_parse answering_outside) (os_impl answering_outside) ?col (os_net answering_outside)
      (os_clock answering_outside) (demo_env (\<lambda>_. Inl []))"
  let ?s = "newScheduler (CollectionIntervalSeconds Defaults) ''box'' (hostname_or_empty answering_outside) (NetdataBaseURL Defaults)"
  let ?w = "fresh_world ?s demo_tables"
  have e: "e_collect ?env k = Inr [answered]" for k
    by (simp add: with_collector_def answering_collect answered_def) (simp add: answering_outside_def demo_outside_def)
  have l: "retry_loop ?env None [1, 2, 3] = Collected [answered] None" by (simp add: e)
  have a: "Allow t (w_breaker ?w) = (None, w_breaker ?w)" for t
    by (simp add: fresh_world_def Allow_def currentState_def scheduler_breaker_def newBreaker_def)
  obtain db where u: "UpsertNode ref_pg demo_tables ''box'' (s_hostname ?s) (s_baseURL ?s) = (None, db)"
    and db: "db = demo_tables\<lparr>tb_nodes := upsert_node (''box'', s_hostname ?s, s_baseURL ?s) (tb_nodes demo_tables)\<rparr>"
    by (simp add: UpsertNode_def ref_pg_def ref_exec_def)
  have "''box'' \<in> node_ids db" by (simp add: db node_ids_def node_ids_upsert)
  then obtain n where i: "InsertSamples ref_pg db [answered] = ((n, None), add_rows (map (row_of micro) [answered]) db)"
    by (simp add: InsertSamples_ref answered_def empty_sample_def)
  obtain w where c: "collectOnce ref_pg ?env ?w = (None, w)" and w: "w_db w = add_rows (map (row_of micro) [answered]) db"
    using successful_cycle [OF a _ l _ i] u by (auto simp: fresh_world_def newScheduler_def)
  have "tb_samples (w_db w) \<noteq> []" by (simp add: w add_rows_def db demo_tables_def)
  moreover have "ResolveNodeID (os_parse answering_outside) (os_info answering_outside (NetdataBaseURL Defaults)) (os_hostname answering_outside)
      (newCollector (NetdataBaseURL Defaults) (NetdataAPIKey Defaults) (CfgNodeID Defaults) (EnabledContexts Defaults)
      (CollectionIntervalSeconds Defaults)) = (Inr ''box'', ?col)"
    by (simp add: ResolveNodeID_def info_id_def newCollector_def Defaults_def answering_outside_def demo_outside_def Let_def)
  ultimately show ?thesis using c by (simp add: runCollectOnce_def Let_def)
qed

theorem collect_once_command_witness:
  "\<exists>db'. runCollectOnce ref_pg (\<lambda>_. Inr demo_tables) answering_outside (demo_env (\<lambda>_. Inl [])) (Defaults, None) = (0, Some db')
     \<and> tb_samples db' = [row_of micro answered]"
proof -
  obtain db' where f: "runCollectOnce ref_pg (\<lambda>_. Inr demo_tables) answering_outside (demo_env (\<lambda>_. Inl [])) (Defaults, None) = (0, Some db')"
    and t: "tb_samples db' \<noteq> []" using answering_run by blast
  have a: "Collect (os_parse answering_outside) (os_impl answering_outside) (os_net answering_outside k) c
      (os_clock answering_outside n1) (os_clock answering_outside n2)
    = Inr [(empty_sample (c_nodeID c) 0)\<lparr>Context := ''system.cpu'', Dimension := ''user'', SValue := Fin 2\<rparr>]" for k c n1 n2
    by (simp only: answering_collect) (simp add: answering_outside_def demo_outside_def)
  have r: "ResolveNodeID (os_parse answering_outside) (os_info answering_outside (NetdataBaseURL Defaults)) (os_hostname answering_outside)
      (newCollector (NetdataBaseURL Defaults) (NetdataAPIKey Defaults) (CfgNodeID Defaults) (EnabledContexts Defaults)
      (CollectionIntervalSeconds Defaults)) = (Inr nodeID, col) \<Longrightarrow> c_nodeID col = ''box''" for nodeID col
    by (auto simp: ResolveNodeID_def info_id_def newCollector_def Defaults_def answering_outside_def demo_outside_def Let_def)
  have "tb_samples (id demo_tables) = []" by (simp add: demo_tables_def)
  with collect_once_command [OF ref_rollup.rollup_db_axioms _ _ f, of demo_tables, unfolded a] t r f show ?thesis
    by (auto simp: answered_def)
qed

section \<open>The service starts on a migrated database\<close>

text \<open>C34. The service serves nothing before the schema is complete: when \<open>run\<close> reaches the point where its schedulers
  and endpoints start, every migration script is recorded, one more run of the migrations would have
  nothing to apply, and there is a scheduler for every effective node.\<close>

theorem service_starts_migrated:
  assumes "migration_db pg tables tx_tables base stamp scripts" and "(snd \<circ> snd) ` set entries \<subseteq> scripts"
    and "distinct (map fst entries)" and "start_service pg entries connect o_s (cfg, None) = (Inr scs, Some db')"
  shows "(\<exists>db. connect (PostgresDSN cfg) (Some (pool_options cfg)) = Inr db
      \<and> tb_versions (tables db') = tb_versions (tables db) @ pending (sort_key fst entries) (tb_versions (tables db)))
    \<and> pending (sort_key fst entries) (tb_versions (tables db')) = []
    \<and> map s_baseURL (map fst scs) = map BaseURL (EffectiveNodes cfg)"
proof -
  obtain db where c: "connect (PostgresDSN cfg) (Some (pool_options cfg)) = Inr db"
    and m: "Migrate pg entries db = (None, db')" and b: "build_schedulers o_s cfg (EffectiveNodes cfg) = Inr scs"
    using assms(4) by (auto simp: start_service_def split: sum.splits prod.splits option.splits)
  have "tb_versions (tables db') = tb_versions (tables db) @ pending (sort_key fst entries) (tb_versions (tables db))"
    using migration_db.Migrate_versions [OF assms(1) m assms(2,3)] by auto
  then show ?thesis using c build_schedulers_ok [OF b] pending_done by simp
qed

theorem service_starts_migrated_witness:
  "\<exists>scs db'. start_service ref_pg demo_entries (\<lambda>_ _. Inr demo_tables) demo_outside (Defaults, None) = (Inr scs, Some db')
    \<and> pending (sort_key fst demo_entries) (tb_versions db') = []"
proof -
  obtain r db' where m: "Migrate ref_pg demo_entries demo_tables = (r, db')" by fastforce
  have "r = None" using demo_migrate(2) m by simp
  moreover obtain scs where "build_schedulers demo_outside Defaults (EffectiveNodes Defaults) = Inr scs"
    by (auto simp: EffectiveNodes_def Defaults_def build_scheduler_def ResolveNodeID_def newCollector_def info_id_def
        setAuth_def demo_outside_def Let_def)
  ultimately have st: "start_service ref_pg demo_entries (\<lambda>_ _. Inr demo_tables) demo_outside (Defaults, None) = (Inr scs, Some db')"
    using m by (simp add: start_service_def)
  have "distinct (map fst demo_entries)" by (simp add: demo_entries_def)
  from service_starts_migrated [OF ref_mig.migration_db_axioms _ this st] st show ?thesis by auto
qed

section \<open>What the fallback stores is not what the tools look for\<close>

definition tool_contexts :: "string list" where
  "tool_contexts = DefaultContexts @ known_contexts @ map al_Context DefaultAlertRules
     @ [''system.cpu'', ''system.ram'', ''system.swap'', ''disk.util'', ''disk.io'', ''system.io'']"

text \<open>The contexts a natural-language query can name are collected by default.\<close>

lemma known_contexts_collected: "set known_contexts \<subseteq> set DefaultContexts"
  by (simp add: known_contexts_def DefaultContexts_def)

lemma tool_contexts_dotted: "list_all (\<lambda>c. CHR ''.'' \<in> set c) tool_contexts"
  by (simp add: tool_contexts_def DefaultContexts_def known_contexts_def DefaultAlertRules_def rule_of_def)

lemma TrimSuffix_chars: "set (TrimSuffix s x) \<subseteq> set s"
  by (auto simp: TrimSuffix_def dest: in_set_takeD)

lemma context_chars: "set (prometheusNameToContext name) \<subseteq> set name"
proof -
  have "set (fold (\<lambda>suffix n. TrimSuffix n suffix) sufs s) \<subseteq> set s" for sufs s
  proof (induction sufs arbitrary: s)
    case (Cons x sufs)
    show ?case using Cons.IH [of "TrimSuffix s x"] TrimSuffix_chars [of s x] by simp
  qed simp
  moreover have "set (trim_first_suffix sufs s) \<subseteq> set s" for sufs s
    by (induction sufs arbitrary: s) (auto dest: subsetD [OF TrimSuffix_chars])
  ultimately show ?thesis unfolding prometheusNameToContext_def trim_suffixes_def by (rule subset_trans [rotated])
qed

lemma dotless_not_prefixed: "CHR ''.'' \<notin> set s \<Longrightarrow> CHR ''.'' \<in> set c \<Longrightarrow> \<not> HasPrefix s c"
  by (auto simp: HasPrefix_def dest: arg_cong [of _ _ set] in_set_takeD)

lemma dotless_no_bottleneck:
  assumes "\<forall>a \<in> set aggs. CHR ''.'' \<notin> set (da_Context a)"
  shows "bo_BottleneckType (DetectBottlenecks nodeID aggs) = ''none''"
proof -
  have "bn_step a s = s" if "CHR ''.'' \<notin> set (da_Context a)" for a s
    using that dotless_not_prefixed [of "da_Context a" "''disk.util''"] by (auto simp: bn_step_def)
  then have "fold bn_step aggs bn_init = bn_init"
    using assms by (induction aggs) simp_all
  then have "bn_candidates (bn_scan_aggs aggs) = []"
    using flit_nat [of 5] by (simp add: no_candidates bn_scan_aggs_def bn_init_def cpu_pressure_def ram_pressure_def disk_pressure_def)
  then show ?thesis by (simp add: DetectBottlenecks_def Let_def sort_Slice_def insertion_sort_def)
qed

text \<open>C24. What the collector stores when it falls back to the exposition text is invisible to the tools. Whatever value,
  labels and time a line of a legal metric name carries, if it is stored, it is stored under the context
  derived from the name, which has no dot. Every context the tools look for has one: none is a prefix of
  it, no alert rule's pattern matches it, and on aggregates of such contexts the bottleneck detector
  always answers that there is none.\<close>

theorem fallback_contexts_unseen:
  assumes "exposition_line name line" and "parsePrometheusLine line nodeID ts = Some s"
  shows "Context s = prometheusNameToContext name \<and> CHR ''.'' \<notin> set (Context s)
    \<and> (\<forall>c \<in> set tool_contexts. CHR ''.'' \<in> set c \<and> \<not> HasPrefix (Context s) c)
    \<and> (\<forall>r \<in> set DefaultAlertRules. \<not> sql_like (al_Context r @ ''%'') (Context s))
    \<and> (\<forall>aggs. (\<forall>a \<in> set aggs. da_Context a = Context s) \<longrightarrow> bo_BottleneckType (DetectBottlenecks nodeID aggs) = ''none'')"
proof -
  have c: "Context s = prometheusNameToContext name" by (rule exposition_context [OF assms])
  have "CHR ''.'' \<notin> set name" using assms(1) by (auto simp: exposition_line_def name_char_def list_all_iff)
  then have d: "CHR ''.'' \<notin> set (Context s)" using context_chars [of name] unfolding c by blast
  have t: "CHR ''.'' \<in> set c'" if "c' \<in> set tool_contexts" for c' using tool_contexts_dotted that by (simp add: list_all_iff)
  then have "\<forall>c \<in> set tool_contexts. CHR ''.'' \<in> set c \<and> \<not> HasPrefix (Context s) c"
    using d dotless_not_prefixed by blast
  moreover have "\<not> sql_like (al_Context r @ ''%'') (Context s)" if "r \<in> set DefaultAlertRules" for r
    using t [of "al_Context r"] that d dotless_not_like by (fastforce simp: tool_contexts_def)
  ultimately show ?thesis using c d dotless_no_bottleneck by simp
qed

theorem fallback_contexts_unseen_witness:
  "\<exists>s. parsePrometheusLine ''netdata_system_load_average 99.5 1700000000000'' ''n1'' 0 = Some s
    \<and> SValue s = Fin (199 / 2) \<and> CHR ''.'' \<notin> set (Context s)
    \<and> bo_BottleneckType (DetectBottlenecks ''n1''
        [\<lparr>da_Context = Context s, da_Dimension = ''user'', da_Instance = None, da_Avg = Fin 99, da_Max = Fin 99, da_Count = 1\<rparr>]) = ''none''"
proof -
  let ?name = "''netdata_system_load_average''" and ?rest = "''99.5 1700000000000''"
  let ?line = "?name @ CHR '' '' # ?rest"
  have l: "exposition_line ?name ?line"
    unfolding exposition_line_def by (intro conjI exI [of _ ?rest] disjI2) (simp_all add: name_char_def is_graph_def)
  have "Fields ?line = [?name] @ fields_from [] (''99.5'' @ CHR '' '' # ''1700000000000'')"
    unfolding Fields_def by (subst fields_from_word) (simp_all add: is_graph_def)
  also have "fields_from [] (''99.5'' @ CHR '' '' # ''1700000000000'') = [''99.5''] @ fields_from [] ''1700000000000''"
    by (subst fields_from_word) (simp_all add: is_graph_def)
  finally have f: "Fields ?line = ?name # ''99.5'' # fields_from [] ''1700000000000''" by simp
  have "IndexByte ?line (CHR ''{'') < 0" unfolding IndexByte_neg_iff by simp
  moreover have "Sscanf_f ''99.5'' = Some (Fin (199 / 2))" by code_simp
  then have "parseFloat ''99.5'' = Some (Fin (199 / 2))"
    by (simp add: parseFloat_def TrimSpace_graph is_graph_def)
  ultimately obtain s where s: "parsePrometheusLine ?line ''n1'' 0 = Some s" "SValue s = Fin (199 / 2)"
    using f by (simp add: parsePrometheusLine_def split_line_def Let_def del: append.simps)
  from fallback_contexts_unseen [OF l s(1)] s show ?thesis by auto
qed

end
